(* ===== verification/Mk_Prelude.thy ===== *)
theory Mk_Prelude
  imports Main "HOL-Library.Word"
begin

text \<open>
  Shared vocabulary of the development: the outcome of a C function that may
  abort or touch memory it must not touch, the state-passing composition of
  such functions with its weakest-precondition rules, the C view of characters
  and strings, and generic lemmas on lists that several components use.
\<close>

section \<open>Machine types\<close>

type_synonym u32 = "32 word"
type_synonym c_string = string

text \<open>The value of a C \<open>int\<close> held in a 32-bit word is read with \<^const>\<open>sint\<close>.\<close>

section \<open>Outcomes\<close>

text \<open>
  A run of a C function ends with a value and the new state, or it does not come
  back to its caller: a \<open>my_assert\<close> fails, an object is accessed that does not exist (a NULL pointer, an
  index outside an array, a released object), \<open>fatal_exit\<close> ends the process,
  or the bound on the recursion depth of the model is used up.

  Assertions are modelled as in a build with \<open>DEBUG\<close>, where a failed one ends the program. The build script sets
  \<open>DEBUG\<close> to 0 unless it is told otherwise, and \<open>my_assert\<close> is empty then: a run that fails no assertion here is the run
  of such a build as well, one that does goes on there behind the assertion.
\<close>

datatype failure = Assertion_failed | Invalid_access | Fatal_exit | Out_of_fuel

datatype ('a, 's) outcome = Done 'a 's | Failed failure

type_synonym ('s, 'a) action = "'s \<Rightarrow> ('a, 's) outcome"

definition ret :: "'a \<Rightarrow> ('s, 'a) action" where
  "ret x = (\<lambda>s. Done x s)"

definition raise :: "failure \<Rightarrow> ('s, 'a) action" where
  "raise f = (\<lambda>s. Failed f)"

definition andthen :: "('s, 'a) action \<Rightarrow> ('a \<Rightarrow> ('s, 'b) action) \<Rightarrow> ('s, 'b) action" where
  "andthen m f = (\<lambda>s. case m s of Done x s' \<Rightarrow> f x s' | Failed e \<Rightarrow> Failed e)"

definition my_assert :: "bool \<Rightarrow> ('s, unit) action" where
  "my_assert b = (if b then ret () else raise Assertion_failed)"

definition get_state :: "('s, 's) action" where
  "get_state = (\<lambda>s. Done s s)"

definition put_state :: "'s \<Rightarrow> ('s, unit) action" where
  "put_state t = (\<lambda>s. Done () t)"

definition deref :: "'a option \<Rightarrow> ('s, 'a) action" where
  "deref x = (case x of None \<Rightarrow> raise Invalid_access | Some y \<Rightarrow> ret y)"

text \<open>A history of calls of one function, with their results.\<close>

primrec run_all :: "('a \<Rightarrow> ('s, 'b) action) \<Rightarrow> 'a list \<Rightarrow> ('s, 'b list) action" where
  "run_all f [] = ret []"
| "run_all f (x # xs) = andthen (f x) (\<lambda>y. andthen (run_all f xs) (\<lambda>ys. ret (y # ys)))"

text \<open>An action on a part of the state: the hash map or the array a component keeps in a member.\<close>

definition zoom :: "('s \<Rightarrow> 't) \<Rightarrow> ('t \<Rightarrow> 's \<Rightarrow> 's) \<Rightarrow> ('t, 'a) action \<Rightarrow> ('s, 'a) action" where
  "zoom part upd m = (\<lambda>s. case m (part s) of Done x t \<Rightarrow> Done x (upd t s) | Failed e \<Rightarrow> Failed e)"

lemma zoom_Done [simp]: "m (part s) = Done x t \<Longrightarrow> zoom part upd m s = Done x (upd t s)"
  by (simp add: zoom_def)

lemma zoom_Failed [simp]: "m (part s) = Failed e \<Longrightarrow> zoom part upd m s = Failed e"
  by (simp add: zoom_def)

section \<open>Weakest preconditions\<close>

text \<open>
  \<open>succeeds m s Q\<close>: the action comes back and the postcondition holds.
  \<open>if_done m s Q\<close>: if the action comes back then the postcondition holds.
  The equations below are in the collection \<open>wp\<close>; used as rewrite rules they
  reduce a statement on a composed action to one on its last step.
\<close>

named_theorems wp \<open>weakest preconditions of the basic actions\<close>

definition succeeds :: "('s, 'a) action \<Rightarrow> 's \<Rightarrow> ('a \<Rightarrow> 's \<Rightarrow> bool) \<Rightarrow> bool" where
  "succeeds m s Q = (case m s of Done x s' \<Rightarrow> Q x s' | Failed _ \<Rightarrow> False)"

definition if_done :: "('s, 'a) action \<Rightarrow> 's \<Rightarrow> ('a \<Rightarrow> 's \<Rightarrow> bool) \<Rightarrow> bool" where
  "if_done m s Q = (case m s of Done x s' \<Rightarrow> Q x s' | Failed _ \<Rightarrow> True)"

lemma ret_apply [simp]: "ret x s = Done x s"
  by (simp add: ret_def)

lemma raise_apply [simp]: "raise f s = Failed f"
  by (simp add: raise_def)

lemma my_assert_apply [simp]: "my_assert b s = (if b then Done () s else Failed Assertion_failed)"
  by (simp add: my_assert_def)

lemma my_assert_True [simp]: "my_assert True = ret ()"
  by (simp add: my_assert_def)

lemma get_state_apply [simp]: "get_state s = Done s s"
  by (simp add: get_state_def)

lemma put_state_apply [simp]: "put_state t s = Done () t"
  by (simp add: put_state_def)

lemma deref_apply [simp]:
  "deref x s = (case x of None \<Rightarrow> Failed Invalid_access | Some y \<Rightarrow> Done y s)"
  by (simp add: deref_def split: option.splits)

lemma andthen_Done [simp]: "m s = Done x s' \<Longrightarrow> andthen m f s = f x s'"
  by (simp add: andthen_def)

lemma andthen_Failed [simp]: "m s = Failed e \<Longrightarrow> andthen m f s = Failed e"
  by (simp add: andthen_def)

lemma andthen_eq_Done_iff:
  "andthen m f s = Done y t \<longleftrightarrow> (\<exists>x u. m s = Done x u \<and> f x u = Done y t)"
  by (simp add: andthen_def split: outcome.splits)

lemma andthen_assoc: "andthen (andthen m f) g = andthen m (\<lambda>x. andthen (f x) g)"
  by (rule ext) (simp add: andthen_def split: outcome.splits)

lemma andthen_cong: "m = m' \<Longrightarrow> (\<And>x. f x = f' x) \<Longrightarrow> andthen m f = andthen m' f'"
  by (rule ext) (simp add: andthen_def split: outcome.splits)

lemma andthen_ret [simp]: "andthen (ret x) f = f x"
  by (rule ext) simp

lemma andthen_Done_eta [simp]: "andthen (Done x) f = f x"
  by (rule ext) simp

lemma andthen_raise [simp]: "andthen (raise e) f = raise e"
  by (rule ext) (simp add: andthen_def)

lemma andthen_deref_Done: "andthen m deref s = Done x t \<longleftrightarrow> m s = Done (Some x) t"
  by (auto simp: andthen_def split: outcome.splits option.splits)

lemma run_all_deref: "run_all (\<lambda>x. andthen (f x) deref) xs s = Done ys t \<longleftrightarrow> run_all f xs s = Done (map Some ys) t"
proof (induction xs arbitrary: s ys)
  case (Cons x xs)
  have "run_all (\<lambda>x. andthen (f x) deref) (x # xs) s = Done ys t \<longleftrightarrow>
      (\<exists>y zs u. f x s = Done (Some y) u \<and> run_all f xs u = Done (map Some zs) t \<and> ys = y # zs)"
    by (auto simp: andthen_eq_Done_iff [of "andthen (f x) deref"] andthen_deref_Done
        andthen_eq_Done_iff [of "run_all (\<lambda>x. andthen (f x) deref) xs"] Cons.IH)
  also have "\<dots> \<longleftrightarrow> run_all f (x # xs) s = Done (map Some ys) t"
    by (cases ys) (auto simp: andthen_eq_Done_iff)
  finally show ?case .
qed auto

lemma succeeds_ret [wp]: "succeeds (ret x) s Q = Q x s"
  by (simp add: succeeds_def)

lemma succeeds_raise [wp]: "succeeds (raise f) s Q = False"
  by (simp add: succeeds_def)

lemma succeeds_andthen [wp]:
  "succeeds (andthen m f) s Q = succeeds m s (\<lambda>x s'. succeeds (f x) s' Q)"
  by (simp add: succeeds_def andthen_def split: outcome.splits)

lemma succeeds_my_assert [wp]: "succeeds (my_assert b) s Q = (b \<and> Q () s)"
  by (simp add: succeeds_def)

lemma succeeds_get_state [wp]: "succeeds get_state s Q = Q s s"
  by (simp add: succeeds_def)

lemma succeeds_put_state [wp]: "succeeds (put_state t) s Q = Q () t"
  by (simp add: succeeds_def)

lemma succeeds_deref [wp]: "succeeds (deref x) s Q = (\<exists>y. x = Some y \<and> Q y s)"
  by (simp add: succeeds_def split: option.splits)

lemma succeeds_if [wp]:
  "succeeds (if b then m else m') s Q = (if b then succeeds m s Q else succeeds m' s Q)"
  by simp

lemma succeedsI: "m s = Done x t \<Longrightarrow> Q x t \<Longrightarrow> succeeds m s Q"
  by (simp add: succeeds_def)

lemma succeedsE:
  assumes "succeeds m s Q"
  obtains x t where "m s = Done x t" and "Q x t"
  using assms by (auto simp: succeeds_def split: outcome.splits)

lemma succeeds_mono:
  assumes "succeeds m s Q" and "\<And>x t. Q x t \<Longrightarrow> R x t"
  shows "succeeds m s R"
  using assms by (auto simp: succeeds_def split: outcome.splits)

lemma if_done_ret [wp]: "if_done (ret x) s Q = Q x s"
  by (simp add: if_done_def)

lemma if_done_raise [wp]: "if_done (raise f) s Q = True"
  by (simp add: if_done_def)

lemma if_done_andthen [wp]:
  "if_done (andthen m f) s Q = if_done m s (\<lambda>x s'. if_done (f x) s' Q)"
  by (simp add: if_done_def andthen_def split: outcome.splits)

lemma if_done_my_assert [wp]: "if_done (my_assert b) s Q = (b \<longrightarrow> Q () s)"
  by (simp add: if_done_def)

lemma if_done_get_state [wp]: "if_done get_state s Q = Q s s"
  by (simp add: if_done_def)

lemma if_done_put_state [wp]: "if_done (put_state t) s Q = Q () t"
  by (simp add: if_done_def)

lemma if_done_deref [wp]: "if_done (deref x) s Q = (\<forall>y. x = Some y \<longrightarrow> Q y s)"
  by (simp add: if_done_def split: option.splits)

lemma if_done_mono:
  assumes "if_done m s Q" and "\<And>x t. Q x t \<Longrightarrow> R x t"
  shows "if_done m s R"
  using assms by (auto simp: if_done_def split: outcome.splits)

section \<open>Characters\<close>

text \<open>The character classes of \<open>ctype.h\<close> in the C locale.\<close>

definition islower :: "char \<Rightarrow> bool" where
  "islower c = (97 \<le> (of_char c :: nat) \<and> (of_char c :: nat) \<le> 122)"

definition isupper :: "char \<Rightarrow> bool" where
  "isupper c = (65 \<le> (of_char c :: nat) \<and> (of_char c :: nat) \<le> 90)"

definition isdigit :: "char \<Rightarrow> bool" where
  "isdigit c = (48 \<le> (of_char c :: nat) \<and> (of_char c :: nat) \<le> 57)"

definition toupper :: "char \<Rightarrow> char" where
  "toupper c = (if islower c then char_of ((of_char c :: nat) - 32) else c)"

definition tolower :: "char \<Rightarrow> char" where
  "tolower c = (if isupper c then char_of ((of_char c :: nat) + 32) else c)"

lemma of_char_char_of_small: "n < 256 \<Longrightarrow> (of_char (char_of n) :: nat) = n"
  by simp

lemma char_eqI_of_char: "(of_char c :: nat) = of_char d \<Longrightarrow> c = d"
  by simp

lemma toupper_idem [simp]: "toupper (toupper c) = toupper c"
  by (auto simp: toupper_def islower_def)

lemma of_char_tolower: "(of_char (tolower x) :: nat) = (if isupper x then of_char x + 32 else of_char x)"
  by (auto simp: tolower_def isupper_def of_char_char_of_small)

lemma of_char_toupper: "(of_char (toupper x) :: nat) = (if islower x then of_char x - 32 else of_char x)"
  by (auto simp: toupper_def islower_def of_char_char_of_small)

lemma fold_case_nat:
  fixes n m :: nat
  shows "((if 65 \<le> n \<and> n \<le> 90 then n + 32 else n) = (if 65 \<le> m \<and> m \<le> 90 then m + 32 else m)) \<longleftrightarrow>
    ((if 97 \<le> n \<and> n \<le> 122 then n - 32 else n) = (if 97 \<le> m \<and> m \<le> 122 then m - 32 else m))"
  by (cases "65 \<le> n \<and> n \<le> 90"; cases "65 \<le> m \<and> m \<le> 90";
      cases "97 \<le> n \<and> n \<le> 122"; cases "97 \<le> m \<and> m \<le> 122"; simp; linarith)

lemma tolower_toupper: "tolower c = tolower d \<longleftrightarrow> toupper c = toupper d"
proof -
  have "tolower c = tolower d \<longleftrightarrow> (of_char (tolower c) :: nat) = of_char (tolower d)"
    by simp
  also have "\<dots> \<longleftrightarrow> (of_char (toupper c) :: nat) = of_char (toupper d)"
    unfolding of_char_tolower of_char_toupper islower_def isupper_def by (rule fold_case_nat)
  also have "\<dots> \<longleftrightarrow> toupper c = toupper d"
    by simp
  finally show ?thesis .
qed

text \<open>
  \<open>strcasecmp\<close> folds both strings to lower case; \<open>strcmp\<close> compares them as
  they are. Both are used for their equality only.
\<close>

definition strcasecmp_eq :: "c_string \<Rightarrow> c_string \<Rightarrow> bool" where
  "strcasecmp_eq s t = (map tolower s = map tolower t)"

definition strupper :: "c_string \<Rightarrow> c_string" where
  "strupper s = map toupper s"

lemma strcasecmp_eq_strupper: "strcasecmp_eq s t \<longleftrightarrow> strupper s = strupper t"
  by (auto simp: strcasecmp_eq_def strupper_def list_eq_iff_nth_eq tolower_toupper)

lemma strcasecmp_eq_refl [simp]: "strcasecmp_eq s s"
  by (simp add: strcasecmp_eq_def)

lemma strcasecmp_eq_sym: "strcasecmp_eq s t \<Longrightarrow> strcasecmp_eq t s"
  by (simp add: strcasecmp_eq_def)

lemma strcasecmp_eq_trans: "strcasecmp_eq s t \<Longrightarrow> strcasecmp_eq t u \<Longrightarrow> strcasecmp_eq s u"
  by (simp add: strcasecmp_eq_def)

definition apostrophe :: c_string where "apostrophe = [CHR 0x27]"

section \<open>Lists\<close>

lemma distinct_remove1_snoc: "x \<notin> set xs \<Longrightarrow> remove1 x (xs @ [x]) = xs"
  by (simp add: remove1_append)

lemma list_all_update: "list_all P xs \<Longrightarrow> P y \<Longrightarrow> list_all P (xs[i := y])"
  by (auto simp: list_all_iff dest: subsetD [OF set_update_subset_insert])

lemma list_all_nth: "list_all P xs \<Longrightarrow> i < length xs \<Longrightarrow> P (xs ! i)"
  by (simp add: list_all_length)

end
