(* ===== verification/Dyn_Array.thy ===== *)
theory Dyn_Array
  imports Mk_Prelude
begin

text \<open>
  The dynamic array of \<open>libmkfli4l/array.c\<close>: a block of \<open>elem_number\<close>
  pointers of which the first \<open>last + 1\<close> are in use, and its iterator. The
  block is a list of cells, a cell holding NULL is \<^const>\<open>None\<close>. The theory
  shows that the array behaves as the list of its elements (the locale
  \<open>element_sequence\<close> states that contract) and that an array created with
  room for no element cannot grow.
\<close>

section \<open>State and operations\<close>

record 'a array_t =
  elem_number :: int
  last_index :: int
  cells :: "'a option list"

record 'a array_iterator_t =
  iter_index :: int
  iter_array :: "'a array_t"

text \<open>
  \<open>calloc\<close> and \<open>realloc\<close> fail on a negative size; \<open>realloc\<close> to size zero
  releases the block and returns NULL, so that \<open>append_new_elem\<close> gives up.
\<close>

definition init_array :: "int \<Rightarrow> ('s, 'a array_t) action" where
  "init_array initial_number =
     (if initial_number < 0 then raise Fatal_exit
      else ret \<lparr>elem_number = initial_number, last_index = -1,
                cells = replicate (nat initial_number) None\<rparr>)"

definition reset_array :: "'a array_t \<Rightarrow> 'a array_t" where
  "reset_array a = a\<lparr>last_index := -1\<rparr>"

definition get_first_elem :: "'a array_t \<Rightarrow> 'a option" where
  "get_first_elem a = (if last_index a \<noteq> -1 then cells a ! 0 else None)"

definition get_last_elem :: "'a array_t \<Rightarrow> 'a option" where
  "get_last_elem a = (if last_index a \<noteq> -1 then cells a ! nat (last_index a) else None)"

definition append_new_elem :: "'a \<Rightarrow> ('a array_t, unit) action" where
  "append_new_elem elem = (\<lambda>a.
     let l = last_index a + 1 in
     if l = elem_number a then
       (let inc = elem_number a in
        if elem_number a + inc \<le> 0 then Failed Fatal_exit
        else Done () (a\<lparr>last_index := l,
                        elem_number := elem_number a + inc,
                        cells := (cells a @ replicate (nat inc) None)[nat l := Some elem]\<rparr>))
     else if 0 \<le> l \<and> nat l < length (cells a)
       then Done () (a\<lparr>last_index := l, cells := (cells a)[nat l := Some elem]\<rparr>)
       else Failed Invalid_access)"

definition init_array_iterator :: "'a array_t \<Rightarrow> 'a array_iterator_t" where
  "init_array_iterator a = \<lparr>iter_index = 0, iter_array = a\<rparr>"

definition get_next_elem :: "'a array_iterator_t \<Rightarrow> 'a option \<times> 'a array_iterator_t" where
  "get_next_elem it =
     (if iter_index it > last_index (iter_array it) then (None, it)
      else (cells (iter_array it) ! nat (iter_index it), it\<lparr>iter_index := iter_index it + 1\<rparr>))"

definition dup_array_iterator :: "'a array_iterator_t \<Rightarrow> 'a array_iterator_t" where
  "dup_array_iterator src = src"

text \<open>
  The macro \<open>ARRAY_ITER_LOOP\<close> runs its body on each element
  \<open>get_next_elem\<close> delivers, until that is NULL: the elements it visits.
\<close>

function array_iter_loop :: "'a array_iterator_t \<Rightarrow> 'a list" where
  "array_iter_loop it =
     (case get_next_elem it of
        (None, it') \<Rightarrow> []
      | (Some x, it') \<Rightarrow> x # array_iter_loop it')"
  by pat_completeness auto
termination
  by (relation "measure (\<lambda>it. nat (last_index (iter_array it) + 1 - iter_index it))")
     (auto simp: get_next_elem_def split: if_splits)

declare array_iter_loop.simps [simp del]

section \<open>The array as a list\<close>

definition array_inv :: "'a array_t \<Rightarrow> bool" where
  "array_inv a \<longleftrightarrow> 0 < elem_number a \<and> -1 \<le> last_index a \<and> last_index a < elem_number a
     \<and> length (cells a) = nat (elem_number a)
     \<and> (\<forall>i. int i \<le> last_index a \<longrightarrow> cells a ! i \<noteq> None)"

definition array_elems :: "'a array_t \<Rightarrow> 'a list" where
  "array_elems a = map the (take (nat (last_index a + 1)) (cells a))"

lemma init_array_inv:
  assumes "0 < n"
  shows "\<exists>a. init_array n s = Done a s \<and> array_inv a \<and> array_elems a = []"
  using assms by (simp add: init_array_def array_inv_def array_elems_def)

lemma take_Suc_update: "i < length xs \<Longrightarrow> take (Suc i) (xs[i := x]) = take i xs @ [x]"
  by (simp add: take_Suc_conv_app_nth)

text \<open>An array that satisfies the invariant, in terms of natural numbers.\<close>

lemma array_invE:
  assumes "array_inv a"
  obtains n l cs where "a = \<lparr>elem_number = int n, last_index = int l - 1, cells = cs\<rparr>"
    and "0 < n" and "l \<le> n" and "length cs = n" and "\<forall>i<l. cs ! i \<noteq> None"
proof
  show "a = \<lparr>elem_number = int (nat (elem_number a)), last_index = int (nat (last_index a + 1)) - 1,
      cells = cells a\<rparr>"
    using assms by (simp add: array_inv_def)
qed (use assms in \<open>auto simp: array_inv_def\<close>)

lemma array_inv_nat:
  "array_inv \<lparr>elem_number = int n, last_index = int l - 1, cells = cs\<rparr> \<longleftrightarrow>
     0 < n \<and> l \<le> n \<and> length cs = n \<and> (\<forall>i<l. cs ! i \<noteq> None)"
  by (auto simp: array_inv_def)

lemma array_elems_nat:
  "array_elems \<lparr>elem_number = e, last_index = int l - 1, cells = cs\<rparr> = map the (take l cs)"
  by (simp add: array_elems_def)

lemma append_new_elem_nat:
  assumes "0 < n" and "l \<le> n" and "length cs = n"
  shows "append_new_elem x \<lparr>elem_number = int n, last_index = int l - 1, cells = cs\<rparr> =
    Done () \<lparr>elem_number = int (if l = n then 2 * n else n), last_index = int (Suc l) - 1,
      cells = (if l = n then cs @ replicate n None else cs)[l := Some x]\<rparr>"
  using assms by (auto simp: append_new_elem_def Let_def)

lemma append_new_elem_spec:
  assumes "array_inv a"
  shows "\<exists>b. append_new_elem x a = Done () b \<and> array_inv b \<and> array_elems b = array_elems a @ [x]"
  using assms
proof (rule array_invE)
  fix n l cs
  assume a: "a = \<lparr>elem_number = int n, last_index = int l - 1, cells = cs\<rparr>" "0 < n" "l \<le> n"
    "length cs = n" "\<forall>i<l. cs ! i \<noteq> None"
  define ds where "ds = (if l = n then cs @ replicate n None else cs)[l := Some x]"
  define b where "b = \<lparr>elem_number = int (if l = n then 2 * n else n), last_index = int (Suc l) - 1, cells = ds\<rparr>"
  have ds: "take (Suc l) ds = take l cs @ [Some x]" "length ds = (if l = n then 2 * n else n)"
    using a by (auto simp: ds_def take_Suc_update)
  have "append_new_elem x a = Done () b"
    unfolding a(1) b_def ds_def by (rule append_new_elem_nat) (use a in simp_all)
  moreover have "array_elems b = array_elems a @ [x]"
    using ds a(1) by (simp only: b_def array_elems_nat) simp
  moreover have "\<forall>i<Suc l. ds ! i \<noteq> None"
    using a by (auto simp: ds_def nth_append nth_list_update less_Suc_eq)
  then have "array_inv b"
    unfolding b_def array_inv_nat using ds a by auto
  ultimately show ?thesis by blast
qed

lemma array_elems_length: "array_inv a \<Longrightarrow> int (length (array_elems a)) = last_index a + 1"
  by (erule array_invE) (simp add: array_elems_nat)

lemma array_elems_cell: "array_inv a \<Longrightarrow> i < length (array_elems a) \<Longrightarrow> cells a ! i = Some (array_elems a ! i)"
  by (erule array_invE) (auto simp: array_elems_nat)

lemma get_next_elem_nth:
  assumes "array_inv a"
  shows "get_next_elem \<lparr>iter_index = int i, iter_array = a\<rparr> =
    (if i < length (array_elems a)
     then (Some (array_elems a ! i), \<lparr>iter_index = int (Suc i), iter_array = a\<rparr>)
     else (None, \<lparr>iter_index = int i, iter_array = a\<rparr>))"
  using array_elems_length [OF assms] array_elems_cell [OF assms, of i]
  by (auto simp: get_next_elem_def)

lemma array_iter_loop_drop:
  assumes "array_inv a"
  shows "array_iter_loop \<lparr>iter_index = int i, iter_array = a\<rparr> = drop i (array_elems a)"
proof (induction "length (array_elems a) - i" arbitrary: i)
  case 0
  then show ?case
    using get_next_elem_nth [OF assms, of i] by (simp add: array_iter_loop.simps)
next
  case (Suc n)
  then have i: "i < length (array_elems a)" by simp
  have "n = length (array_elems a) - Suc i" using Suc.hyps(2) by simp
  then have IH: "array_iter_loop \<lparr>iter_index = int (Suc i), iter_array = a\<rparr> = drop (Suc i) (array_elems a)"
    by (rule Suc.hyps(1))
  have "array_iter_loop \<lparr>iter_index = int i, iter_array = a\<rparr> =
      (array_elems a ! i) # drop (Suc i) (array_elems a)"
    by (subst array_iter_loop.simps)
       (simp only: get_next_elem_nth [OF assms] i if_True prod.case option.case IH)
  then show ?case using i by (simp add: Cons_nth_drop_Suc)
qed

section \<open>The sequence contract\<close>

locale element_sequence =
  fixes append :: "'a \<Rightarrow> ('q, unit) action"
    and elems :: "'q \<Rightarrow> 'a list"
    and walk :: "'q \<Rightarrow> 'a list"
    and invar :: "'q \<Rightarrow> bool"
  assumes append_ok: "invar q \<Longrightarrow> \<exists>r. append x q = Done () r \<and> invar r \<and> elems r = elems q @ [x]"
    and walk_ok: "invar q \<Longrightarrow> walk q = elems q"
begin

text \<open>Appending a list of elements one by one, as the callers' loops do.\<close>

primrec append_all :: "'a list \<Rightarrow> ('q, unit) action" where
  "append_all [] = ret ()"
| "append_all (x # xs) = andthen (append x) (\<lambda>_. append_all xs)"

lemma append_all_ok:
  "invar q \<Longrightarrow> \<exists>r. append_all xs q = Done () r \<and> invar r \<and> elems r = elems q @ xs"
proof (induction xs arbitrary: q)
  case Nil
  then show ?case by simp
next
  case (Cons x xs)
  obtain r where r: "append x q = Done () r" "invar r" "elems r = elems q @ [x]"
    using append_ok [OF Cons.prems] by blast
  then obtain t where "append_all xs r = Done () t" "invar t" "elems t = elems r @ xs"
    using Cons.IH by blast
  with r show ?case by simp
qed

lemma walk_append_all:
  assumes "invar q"
  shows "\<exists>r. append_all xs q = Done () r \<and> walk r = elems q @ xs"
  using append_all_ok [OF assms, of xs] walk_ok by auto

end

interpretation arr: element_sequence append_new_elem array_elems
    "\<lambda>a. array_iter_loop (init_array_iterator a)" array_inv
proof
  fix q :: "'a array_t" and x
  assume inv: "array_inv q"
  show "\<exists>r. append_new_elem x q = Done () r \<and> array_inv r \<and> array_elems r = array_elems q @ [x]"
    using inv by (rule append_new_elem_spec)
  show "array_iter_loop (init_array_iterator q) = array_elems q"
    using array_iter_loop_drop [OF inv, of 0] by (simp add: init_array_iterator_def)
qed

text \<open>Appending a list of elements to an array; the recursion of the locale, on the model.\<close>

primrec append_new_elems :: "'a list \<Rightarrow> ('a array_t, unit) action" where
  "append_new_elems [] = ret ()"
| "append_new_elems (x # xs) = andthen (append_new_elem x) (\<lambda>_. append_new_elems xs)"

lemma append_new_elems_eq: "append_new_elems xs = arr.append_all xs"
  by (induction xs) simp_all

section \<open>Properties\<close>

text \<open>An array created with room for at least one element never fails to grow: whatever
  list of elements is appended to it, the iteration macro afterwards visits exactly these
  elements in the order of their insertion, and the first and the last element are the ones
  reported by the accessors.\<close>

lemma array_append_iterate:
  fixes xs :: "'a list"
  assumes "0 < n"
  shows "\<exists>a b. init_array n () = Done a () \<and> append_new_elems xs a = Done () b
     \<and> array_iter_loop (init_array_iterator b) = xs
     \<and> get_first_elem b = (if xs = [] then None else Some (hd xs))
     \<and> get_last_elem b = (if xs = [] then None else Some (last xs))"
proof -
  obtain a :: "'a array_t" where a: "init_array n () = Done a ()" "array_inv a" "array_elems a = []"
    using init_array_inv [OF assms, where s = "()"] by auto
  then obtain b where b: "append_new_elems xs a = Done () b" "array_inv b" "array_elems b = xs"
    using arr.append_all_ok [of a xs] by (auto simp: append_new_elems_eq)
  note len = array_elems_length [OF b(2), unfolded b(3)]
    and nth = array_elems_cell [OF b(2), unfolded b(3)]
  have "get_first_elem b = (if xs = [] then None else Some (hd xs))"
    using len nth [of 0] by (auto simp: get_first_elem_def hd_conv_nth)
  moreover have "get_last_elem b = (if xs = [] then None else Some (last xs))"
  proof (cases "xs = []")
    case True
    then show ?thesis using len by (simp add: get_last_elem_def)
  next
    case False
    then have "nat (last_index b) = length xs - 1" "last_index b \<noteq> -1" using len by (cases xs; simp)+
    then show ?thesis using False nth [of "length xs - 1"]
      by (simp add: get_last_elem_def last_conv_nth)
  qed
  ultimately show ?thesis using a b arr.walk_ok [OF b(2)] by auto
qed

text \<open>An array created with room for no element cannot take its first element: the number of
  cells is doubled, which leaves it at zero, and the program gives up. (The header file promises
  growth by the initial number of elements, which would fail in the same way.)\<close>

lemma array_empty_cannot_grow:
  "\<exists>a. init_array 0 () = Done a () \<and> append_new_elem x a = Failed Fatal_exit"
  by (simp add: init_array_def append_new_elem_def)

end
