(* ===== verification/Hash_Map.thy ===== *)
theory Hash_Map
  imports Dyn_Array
begin

text \<open>
  The hash map of \<open>container/hashmap.c\<close> with the hash and comparison functions
  of \<open>container/hash_*.c\<close> and \<open>container/compare_*.c\<close>. A bucket is the list of its
  allocated cells (NULL is \<^const>\<open>None\<close>); the free list holds the positions of the
  NULL cells, where the C code holds their addresses. The destructor is run by the
  owner of the map: the operations return the entries that are handed to it.
  The theory proves that the map is a finite map from keys, taken up to the key
  comparison, to entries.
\<close>

section \<open>Hash functions and key comparison\<close>

text \<open>\<open>char\<close> is a signed 8-bit type: a character is sign-extended before it is added.\<close>

definition char_to_unsigned :: "char \<Rightarrow> u32" where
  "char_to_unsigned c = scast (of_char c :: 8 word)"

fun hash_string_loop :: "c_string \<Rightarrow> u32 \<Rightarrow> u32" where
  "hash_string_loop [] h = h"
| "hash_string_loop (c # s) h = hash_string_loop s (h * 37 + char_to_unsigned c)"

definition hash_string :: "c_string \<Rightarrow> u32" where
  "hash_string s = hash_string_loop s 0"

fun hash_ci_string_loop :: "c_string \<Rightarrow> u32 \<Rightarrow> u32" where
  "hash_ci_string_loop [] h = h"
| "hash_ci_string_loop (c # s) h = hash_ci_string_loop s (h * 37 + char_to_unsigned (toupper c))"

definition hash_ci_string :: "c_string \<Rightarrow> u32" where
  "hash_ci_string s = hash_ci_string_loop s 0"

definition hash_short :: "16 word \<Rightarrow> u32" where
  "hash_short k = scast k"

definition hash_int :: "u32 \<Rightarrow> u32" where
  "hash_int k = k"

definition hash_long :: "64 word \<Rightarrow> u32" where
  "hash_long k = ucast k"

definition compare_string_keys :: "c_string \<Rightarrow> c_string \<Rightarrow> bool" where
  "compare_string_keys key1 key2 = (key1 = key2)"

definition compare_ci_string_keys :: "c_string \<Rightarrow> c_string \<Rightarrow> bool" where
  "compare_ci_string_keys key1 key2 = strcasecmp_eq key1 key2"

definition compare_short_keys :: "16 word \<Rightarrow> 16 word \<Rightarrow> bool" where
  "compare_short_keys key1 key2 = (key1 = key2)"

definition compare_int_keys :: "u32 \<Rightarrow> u32 \<Rightarrow> bool" where
  "compare_int_keys key1 key2 = (key1 = key2)"

definition compare_long_keys :: "64 word \<Rightarrow> 64 word \<Rightarrow> bool" where
  "compare_long_keys key1 key2 = (key1 = key2)"

text \<open>
  What \<open>hashfunc.h\<close> and \<open>cmpfunc.h\<close> promise to the hash map: comparison is an
  equivalence of keys, and keys that compare equal have the same hash value.
\<close>

locale key_comparison =
  fixes hash :: "'k \<Rightarrow> u32" and cmp :: "'k \<Rightarrow> 'k \<Rightarrow> bool"
  assumes cmp_refl: "cmp k k"
    and cmp_sym: "cmp k l \<Longrightarrow> cmp l k"
    and cmp_trans: "cmp k l \<Longrightarrow> cmp l m \<Longrightarrow> cmp k m"
    and cmp_hash: "cmp k l \<Longrightarrow> hash k = hash l"
begin

lemma cmp_cong: "cmp k l \<Longrightarrow> cmp k m \<longleftrightarrow> cmp l m"
  using cmp_sym cmp_trans by blast

lemma cmp_common: "cmp k m \<Longrightarrow> cmp l m \<Longrightarrow> cmp k l"
  using cmp_sym cmp_trans by blast

lemma cmp_cong_right: "cmp k l \<Longrightarrow> cmp m k \<longleftrightarrow> cmp m l"
  using cmp_sym cmp_trans by blast

end

lemma hash_ci_string_loop_map: "hash_ci_string_loop s h = hash_string_loop (strupper s) h"
  by (induction s arbitrary: h) (simp_all add: strupper_def)

lemma hash_ci_string_strupper: "hash_ci_string s = hash_string (strupper s)"
  by (simp add: hash_ci_string_def hash_string_def hash_ci_string_loop_map)

interpretation str_keys: key_comparison hash_string compare_string_keys
  by unfold_locales (auto simp: compare_string_keys_def)

interpretation ci_keys: key_comparison hash_ci_string compare_ci_string_keys
proof
  fix k l m :: c_string
  show "compare_ci_string_keys k k"
    by (simp add: compare_ci_string_keys_def)
  show "compare_ci_string_keys k l \<Longrightarrow> compare_ci_string_keys l k"
    unfolding compare_ci_string_keys_def by (rule strcasecmp_eq_sym)
  show "compare_ci_string_keys k l \<Longrightarrow> compare_ci_string_keys l m \<Longrightarrow> compare_ci_string_keys k m"
    unfolding compare_ci_string_keys_def by (rule strcasecmp_eq_trans)
  show "compare_ci_string_keys k l \<Longrightarrow> hash_ci_string k = hash_ci_string l"
    by (simp add: compare_ci_string_keys_def strcasecmp_eq_strupper hash_ci_string_strupper)
qed

interpretation short_keys: key_comparison hash_short compare_short_keys
  by unfold_locales (auto simp: compare_short_keys_def)

interpretation int_keys: key_comparison hash_int compare_int_keys
  by unfold_locales (auto simp: compare_int_keys_def)

interpretation long_keys: key_comparison hash_long compare_long_keys
  by unfold_locales (auto simp: compare_long_keys_def)

section \<open>State and operations\<close>

record 'e hashmap_bucket_t =
  num_entries :: nat
  entries :: "'e option list"
  free_entries :: "nat list"

record ('k, 'e) hashmap_t =
  key_of :: "'e \<Rightarrow> 'k"
  hash :: "'k \<Rightarrow> u32"
  cmp :: "'k \<Rightarrow> 'k \<Rightarrow> bool"
  has_destroy :: bool
  num_buckets :: nat
  buckets :: "'e hashmap_bucket_t list"
  in_destroy :: bool

definition hashmap_get_key :: "('k, 'e) hashmap_t \<Rightarrow> 'e \<Rightarrow> 'k" where
  "hashmap_get_key m entry = key_of m entry"

fun search_cells :: "('e \<Rightarrow> bool) \<Rightarrow> 'e option list \<Rightarrow> nat \<Rightarrow> nat option" where
  "search_cells p [] i = None"
| "search_cells p (None # es) i = search_cells p es (Suc i)"
| "search_cells p (Some e # es) i = (if p e then Some i else search_cells p es (Suc i))"

definition hashmap_search_bucket ::
  "('k, 'e) hashmap_t \<Rightarrow> 'e hashmap_bucket_t \<Rightarrow> 'k \<Rightarrow> nat option" where
  "hashmap_search_bucket m b key =
     search_cells (\<lambda>e. cmp m key (hashmap_get_key m e)) (entries b) 0"

definition hashmap_create ::
  "('e \<Rightarrow> 'k) \<Rightarrow> nat \<Rightarrow> ('k \<Rightarrow> u32) \<Rightarrow> ('k \<Rightarrow> 'k \<Rightarrow> bool) \<Rightarrow> bool \<Rightarrow> ('s, ('k, 'e) hashmap_t) action" where
  "hashmap_create key_offset n h c d =
     andthen (my_assert (n \<noteq> 0)) (\<lambda>_.
       ret \<lparr>key_of = key_offset, hash = h, cmp = c, has_destroy = d, num_buckets = n,
            buckets = replicate n \<lparr>num_entries = 0, entries = [], free_entries = []\<rparr>,
            in_destroy = False\<rparr>)"

definition hashmap_size :: "('k, 'e) hashmap_t \<Rightarrow> nat" where
  "hashmap_size m = foldl (\<lambda>n b. n + num_entries b) 0 (buckets m)"

definition bucket_index :: "('k, 'e) hashmap_t \<Rightarrow> 'k \<Rightarrow> nat" where
  "bucket_index m key = unat (hash m key) mod num_buckets m"

definition bucket_put :: "('k, 'e) hashmap_t \<Rightarrow> 'e \<Rightarrow> 'e hashmap_bucket_t \<Rightarrow> 'e list \<times> 'e hashmap_bucket_t" where
  "bucket_put m entry b =
     (case hashmap_search_bucket m b (hashmap_get_key m entry) of
        Some p \<Rightarrow>
          (case entries b ! p of
             Some old \<Rightarrow>
               if old \<noteq> entry
               then (if has_destroy m then [old] else [], b\<lparr>entries := (entries b)[p := Some entry]\<rparr>)
               else ([], b)
           | None \<Rightarrow> ([], b\<lparr>entries := (entries b)[p := Some entry]\<rparr>))
      | None \<Rightarrow>
          (case free_entries b of
             f # fs \<Rightarrow> ([], b\<lparr>entries := (entries b)[f := Some entry],
                             num_entries := num_entries b + 1, free_entries := fs\<rparr>)
           | [] \<Rightarrow> ([], b\<lparr>entries := entries b @ [Some entry], num_entries := num_entries b + 1\<rparr>)))"

text \<open>The entry that is replaced is handed to the destructor unless it is the new one. The code compares the pointers, the
  model the entries; they differ only in the list of destroyed entries, for an equal entry that is another object.\<close>

definition hashmap_put :: "'e \<Rightarrow> (('k, 'e) hashmap_t, 'e list) action" where
  "hashmap_put entry = (\<lambda>m.
     if in_destroy m then Failed Assertion_failed
     else
       (let i = bucket_index m (hashmap_get_key m entry);
            (destroyed, b) = bucket_put m entry (buckets m ! i)
        in Done destroyed (m\<lparr>buckets := (buckets m)[i := b]\<rparr>)))"

definition hashmap_remove :: "'k \<Rightarrow> (('k, 'e) hashmap_t, bool \<times> 'e list) action" where
  "hashmap_remove key = (\<lambda>m.
     (let i = bucket_index m key; b = buckets m ! i in
      case hashmap_search_bucket m b key of
        Some p \<Rightarrow>
          Done (True, if has_destroy m then (case entries b ! p of Some e \<Rightarrow> [e] | None \<Rightarrow> []) else [])
            (m\<lparr>buckets := (buckets m)[i := b\<lparr>free_entries := free_entries b @ [p],
                 entries := (entries b)[p := None], num_entries := num_entries b - 1\<rparr>]\<rparr>)
      | None \<Rightarrow> Done (False, []) m))"

definition hashmap_get :: "('k, 'e) hashmap_t \<Rightarrow> 'k \<Rightarrow> 'e option" where
  "hashmap_get m key =
     (let b = buckets m ! bucket_index m key in
      case hashmap_search_bucket m b key of Some p \<Rightarrow> entries b ! p | None \<Rightarrow> None)"

fun foreach_cells :: "('e \<Rightarrow> ('s, bool) action) \<Rightarrow> 'e option list \<Rightarrow> ('s, bool) action" where
  "foreach_cells visitor [] = ret True"
| "foreach_cells visitor (None # es) = foreach_cells visitor es"
| "foreach_cells visitor (Some e # es) =
     andthen (visitor e) (\<lambda>r. if r then foreach_cells visitor es else ret False)"

fun foreach_buckets :: "('e \<Rightarrow> ('s, bool) action) \<Rightarrow> 'e hashmap_bucket_t list \<Rightarrow> ('s, bool) action" where
  "foreach_buckets visitor [] = ret True"
| "foreach_buckets visitor (b # bs) =
     andthen (foreach_cells visitor (entries b))
       (\<lambda>r. if r then foreach_buckets visitor bs else ret False)"

definition hashmap_foreach ::
  "('k, 'e) hashmap_t \<Rightarrow> ('e \<Rightarrow> ('s, bool) action) \<Rightarrow> ('s, bool) action" where
  "hashmap_foreach m visitor = foreach_buckets visitor (buckets m)"

definition put_entry_into_array :: "'e \<Rightarrow> ('e array_t, bool) action" where
  "put_entry_into_array entry = andthen (append_new_elem entry) (\<lambda>_. ret True)"

definition hashmap_to_array :: "('k, 'e) hashmap_t \<Rightarrow> ('e array_t) option" where
  "hashmap_to_array m =
     (case init_array (int (hashmap_size m)) () of
        Done a _ \<Rightarrow>
          (case hashmap_foreach m put_entry_into_array a of
             Done _ a' \<Rightarrow> Some a'
           | Failed _ \<Rightarrow> None)
      | Failed _ \<Rightarrow> None)"

primrec live_entries :: "'e option list \<Rightarrow> 'e list" where
  "live_entries [] = []"
| "live_entries (c # cs) = (case c of None \<Rightarrow> live_entries cs | Some e \<Rightarrow> e # live_entries cs)"

definition hashmap_destroy :: "('k, 'e) hashmap_t \<Rightarrow> 'e list" where
  "hashmap_destroy m =
     (if has_destroy m then concat (map (\<lambda>b. live_entries (entries b)) (buckets m)) else [])"

section \<open>Buckets\<close>

definition live_cells :: "'e option list \<Rightarrow> nat" where
  "live_cells cs = length (filter (\<lambda>c. c \<noteq> None) cs)"

definition cells_unique :: "('k, 'e) hashmap_t \<Rightarrow> 'e option list \<Rightarrow> bool" where
  "cells_unique m cs \<longleftrightarrow> (\<forall>i<length cs. \<forall>j<length cs. \<forall>e e'. cs ! i = Some e \<longrightarrow> cs ! j = Some e' \<longrightarrow>
     cmp m (key_of m e) (key_of m e') \<longrightarrow> i = j)"

definition bucket_ok :: "('k, 'e) hashmap_t \<Rightarrow> nat \<Rightarrow> 'e hashmap_bucket_t \<Rightarrow> bool" where
  "bucket_ok m i b \<longleftrightarrow>
     num_entries b = live_cells (entries b)
     \<and> distinct (free_entries b)
     \<and> set (free_entries b) = {j. j < length (entries b) \<and> entries b ! j = None}
     \<and> cells_unique m (entries b)
     \<and> (\<forall>e. Some e \<in> set (entries b) \<longrightarrow> bucket_index m (key_of m e) = i)"

lemma live_cells_update:
  "p < length cs \<Longrightarrow> live_cells (cs[p := x]) =
     live_cells cs + (if x \<noteq> None then 1 else 0) - (if cs ! p \<noteq> None then 1 else 0)"
proof (induction cs arbitrary: p)
  case Nil
  then show ?case by simp
next
  case (Cons c cs)
  show ?case
  proof (cases p)
    case 0
    then show ?thesis by (simp add: live_cells_def)
  next
    case (Suc q)
    then have IH: "live_cells (cs[q := x]) = live_cells cs + (if x \<noteq> None then 1 else 0)
        - (if cs ! q \<noteq> None then 1 else 0)"
      using Cons by simp
    have "1 \<le> live_cells cs" if "cs ! q \<noteq> None"
    proof -
      have "cs ! q \<in> set (filter (\<lambda>c. c \<noteq> None) cs)" using that Cons.prems Suc by simp
      then show ?thesis unfolding live_cells_def using length_pos_if_in_set by (metis One_nat_def Suc_leI)
    qed
    then show ?thesis using IH Suc by (auto simp: live_cells_def)
  qed
qed

lemma search_cells_Some:
  "search_cells P cs i = Some p \<Longrightarrow>
     i \<le> p \<and> p - i < length cs \<and> (\<exists>e. cs ! (p - i) = Some e \<and> P e)"
proof (induction P cs i rule: search_cells.induct)
  case (2 P cs i)
  then have "Suc i \<le> p \<and> p - Suc i < length cs \<and> (\<exists>e. cs ! (p - Suc i) = Some e \<and> P e)" by simp
  then show ?case by (auto simp: Suc_diff_Suc [symmetric] Suc_le_eq)
next
  case (3 P e cs i)
  show ?case
  proof (cases "P e")
    case True
    then show ?thesis using 3 by simp
  next
    case False
    then have "Suc i \<le> p \<and> p - Suc i < length cs \<and> (\<exists>e. cs ! (p - Suc i) = Some e \<and> P e)"
      using 3 by simp
    then show ?thesis by (auto simp: Suc_diff_Suc [symmetric] Suc_le_eq)
  qed
qed simp

lemma search_cells_None: "search_cells P cs i = None \<longleftrightarrow> (\<forall>e. Some e \<in> set cs \<longrightarrow> \<not> P e)"
  by (induction P cs i rule: search_cells.induct) auto

lemma hashmap_search_bucket_Some:
  assumes "hashmap_search_bucket m b k = Some p"
  obtains e where "p < length (entries b)" and "entries b ! p = Some e" and "cmp m k (key_of m e)"
  using search_cells_Some [OF assms [unfolded hashmap_search_bucket_def]]
  by (auto simp: hashmap_get_key_def)

lemma hashmap_search_bucket_None:
  "hashmap_search_bucket m b k = None \<longleftrightarrow> (\<forall>e. Some e \<in> set (entries b) \<longrightarrow> \<not> cmp m k (key_of m e))"
  by (simp add: hashmap_search_bucket_def search_cells_None hashmap_get_key_def)

definition bucket_lookup :: "('k, 'e) hashmap_t \<Rightarrow> 'e hashmap_bucket_t \<Rightarrow> 'k \<Rightarrow> 'e option" where
  "bucket_lookup m b k = (case hashmap_search_bucket m b k of Some p \<Rightarrow> entries b ! p | None \<Rightarrow> None)"

lemma bucket_lookup_iff:
  assumes ok: "bucket_ok m i b" and law: "key_comparison (hash m) (cmp m)"
  shows "bucket_lookup m b k = Some e \<longleftrightarrow> Some e \<in> set (entries b) \<and> cmp m k (key_of m e)"
proof (cases "hashmap_search_bucket m b k")
  case None
  then show ?thesis using hashmap_search_bucket_None [of m b k] by (auto simp: bucket_lookup_def)
next
  case (Some p)
  then obtain e' where e': "p < length (entries b)" "entries b ! p = Some e'" "cmp m k (key_of m e')"
    by (rule hashmap_search_bucket_Some)
  have "e = e'" if e: "Some e \<in> set (entries b)" "cmp m k (key_of m e)"
  proof -
    from e obtain q where q: "q < length (entries b)" "entries b ! q = Some e"
      by (auto simp: in_set_conv_nth)
    have "cmp m (key_of m e') (key_of m e)"
      using key_comparison.cmp_cong [OF law e'(3)] e(2) by simp
    with ok e' q have "p = q" by (auto simp: bucket_ok_def cells_unique_def)
    with e' q show ?thesis by simp
  qed
  moreover have "Some e' \<in> set (entries b)"
    using e' by (metis nth_mem)
  ultimately show ?thesis using Some e' by (auto simp: bucket_lookup_def)
qed

text \<open>The entries of a bucket after each way of storing or removing an entry.\<close>

lemma set_update_cell:
  assumes "p < length cs"
  shows "Some e \<in> set (cs[p := x]) \<longleftrightarrow> x = Some e \<or> (\<exists>q<length cs. q \<noteq> p \<and> cs ! q = Some e)"
  using assms by (auto simp: in_set_conv_nth nth_list_update split: if_splits)

lemma cells_unique_set:
  assumes "cells_unique m cs" and "p < length cs" and "cs ! p = Some old"
    and "cmp m k (key_of m old)" and law: "key_comparison (hash m) (cmp m)"
  shows "(\<exists>q<length cs. q \<noteq> p \<and> cs ! q = Some e) \<longleftrightarrow> Some e \<in> set cs \<and> \<not> cmp m k (key_of m e)"
proof
  assume "\<exists>q<length cs. q \<noteq> p \<and> cs ! q = Some e"
  then obtain q where q: "q < length cs" "q \<noteq> p" "cs ! q = Some e" by blast
  have "cmp m (key_of m old) (key_of m e) \<longleftrightarrow> cmp m k (key_of m e)"
    using key_comparison.cmp_cong [OF law assms(4)] by simp
  with q assms show "Some e \<in> set cs \<and> \<not> cmp m k (key_of m e)"
    by (auto simp: cells_unique_def in_set_conv_nth)
next
  assume e: "Some e \<in> set cs \<and> \<not> cmp m k (key_of m e)"
  then obtain q where "q < length cs" "cs ! q = Some e" by (auto simp: in_set_conv_nth)
  moreover have "q \<noteq> p" using assms e calculation by auto
  ultimately show "\<exists>q<length cs. q \<noteq> p \<and> cs ! q = Some e" by blast
qed

lemma bucket_ok_replace:
  assumes ok: "bucket_ok m i b" and law: "key_comparison (hash m) (cmp m)"
    and p: "p < length (entries b)" "entries b ! p = Some old" "cmp m (key_of m entry) (key_of m old)"
  shows "bucket_ok m i (b\<lparr>entries := (entries b)[p := Some entry]\<rparr>)"
proof -
  let ?cs = "entries b"
  have old: "Some old \<in> set ?cs" using p by (metis nth_mem)
  have "live_cells (?cs[p := Some entry]) = live_cells ?cs"
    using p by (simp add: live_cells_update)
  moreover have "{j. j < length ?cs \<and> ?cs[p := Some entry] ! j = None} = {j. j < length ?cs \<and> ?cs ! j = None}"
    using p by (auto simp: nth_list_update)
  moreover have "cells_unique m (?cs[p := Some entry])"
    unfolding cells_unique_def
  proof (intro allI impI)
    fix j k e e'
    assume jk: "j < length (?cs[p := Some entry])" "k < length (?cs[p := Some entry])"
      "?cs[p := Some entry] ! j = Some e" "?cs[p := Some entry] ! k = Some e'"
      "cmp m (key_of m e) (key_of m e')"
    let ?d = "if j = p then old else e" and ?d' = "if k = p then old else e'"
    have 1: "?cs ! j = Some ?d" "?cs ! k = Some ?d'"
      using jk p by (auto simp: nth_list_update split: if_splits)
    have same: "cmp m (key_of m old) (key_of m entry)"
      by (rule key_comparison.cmp_sym [OF law p(3)])
    have 2: "cmp m (key_of m ?d) (key_of m e)"
      using jk p same key_comparison.cmp_refl [OF law] by (auto split: if_splits)
    have 3: "cmp m (key_of m e') (key_of m ?d')"
      using jk p key_comparison.cmp_refl [OF law] by (auto split: if_splits)
    have "cmp m (key_of m ?d) (key_of m ?d')"
      by (rule key_comparison.cmp_trans [OF law key_comparison.cmp_trans [OF law 2 jk(5)] 3])
    moreover have "cells_unique m ?cs" using ok by (simp add: bucket_ok_def)
    moreover have "j < length ?cs" "k < length ?cs" using jk by simp_all
    ultimately show "j = k" using 1 unfolding cells_unique_def by blast
  qed
  moreover have "bucket_index m (key_of m entry) = i"
    using ok old key_comparison.cmp_hash [OF law p(3)] by (auto simp: bucket_ok_def bucket_index_def)
  ultimately show ?thesis
    using ok set_update_subset_insert [of ?cs p "Some entry"] by (auto simp: bucket_ok_def)
qed

lemma cells_unique_insert:
  assumes "cells_unique m cs" and "\<forall>e. Some e \<in> set cs \<longrightarrow> \<not> cmp m (key_of m entry) (key_of m e)"
    and law: "key_comparison (hash m) (cmp m)" and f: "f < length cs"
  shows "cells_unique m (cs[f := Some entry])"
  using assms key_comparison.cmp_sym [OF law]
  by (auto simp: cells_unique_def nth_list_update split: if_splits) (metis nth_mem)+

lemma cells_unique_append:
  assumes "cells_unique m cs" and "\<forall>e. Some e \<in> set cs \<longrightarrow> \<not> cmp m (key_of m entry) (key_of m e)"
    and law: "key_comparison (hash m) (cmp m)"
  shows "cells_unique m (cs @ [Some entry])"
  using assms key_comparison.cmp_sym [OF law]
  by (auto simp: cells_unique_def nth_append less_Suc_eq split: if_splits) (metis nth_mem)+

lemma bucket_ok_reuse:
  assumes ok: "bucket_ok m i b" and law: "key_comparison (hash m) (cmp m)"
    and new: "\<forall>e. Some e \<in> set (entries b) \<longrightarrow> \<not> cmp m (key_of m entry) (key_of m e)"
    and idx: "bucket_index m (key_of m entry) = i" and free: "free_entries b = f # fs"
  shows "bucket_ok m i (b\<lparr>entries := (entries b)[f := Some entry],
           num_entries := num_entries b + 1, free_entries := fs\<rparr>)"
proof -
  let ?cs = "entries b"
  have f: "f < length ?cs" "?cs ! f = None" "f \<notin> set fs" "distinct fs"
    "insert f (set fs) = {j. j < length ?cs \<and> ?cs ! j = None}"
    using ok free by (auto simp: bucket_ok_def)
  have "{j. j < length ?cs \<and> ?cs[f := Some entry] ! j = None} = {j. j < length ?cs \<and> ?cs ! j = None} - {f}"
    using f(1) by (auto simp: nth_list_update split: if_splits)
  then have "set fs = {j. j < length ?cs \<and> ?cs[f := Some entry] ! j = None}"
    unfolding f(5) [symmetric] using f(3) by simp
  moreover have "cells_unique m (?cs[f := Some entry])"
    using ok new law f by (intro cells_unique_insert) (auto simp: bucket_ok_def)
  moreover have "live_cells (?cs[f := Some entry]) = Suc (live_cells ?cs)"
    using f by (simp add: live_cells_update)
  moreover have "\<forall>e. Some e \<in> set (?cs[f := Some entry]) \<longrightarrow> bucket_index m (key_of m e) = i"
    using ok idx set_update_subset_insert [of ?cs f "Some entry"] by (auto simp: bucket_ok_def)
  ultimately show ?thesis
    using ok f(4) by (simp add: bucket_ok_def)
qed

lemma bucket_ok_append:
  assumes ok: "bucket_ok m i b" and law: "key_comparison (hash m) (cmp m)"
    and new: "\<forall>e. Some e \<in> set (entries b) \<longrightarrow> \<not> cmp m (key_of m entry) (key_of m e)"
    and idx: "bucket_index m (key_of m entry) = i" and free: "free_entries b = []"
  shows "bucket_ok m i (b\<lparr>entries := entries b @ [Some entry], num_entries := num_entries b + 1\<rparr>)"
proof -
  let ?cs = "entries b"
  have "{j. j < length ?cs + 1 \<and> (?cs @ [Some entry]) ! j = None} = {}"
    using ok free by (auto simp: bucket_ok_def nth_append less_Suc_eq)
  moreover have "cells_unique m (?cs @ [Some entry])"
    using ok new law by (intro cells_unique_append) (auto simp: bucket_ok_def)
  ultimately show ?thesis
    using ok idx free by (auto simp: bucket_ok_def live_cells_def)
qed

lemma bucket_ok_remove:
  assumes ok: "bucket_ok m i b" and p: "p < length (entries b)" "entries b ! p = Some old"
  shows "bucket_ok m i (b\<lparr>free_entries := free_entries b @ [p],
           entries := (entries b)[p := None], num_entries := num_entries b - 1\<rparr>)"
proof -
  let ?cs = "entries b"
  have "live_cells (?cs[p := None]) = live_cells ?cs - 1"
    using p by (simp add: live_cells_update)
  moreover have "insert p {j. j < length ?cs \<and> ?cs ! j = None} = {j. j < length ?cs \<and> ?cs[p := None] ! j = None}"
    using p by (auto simp: nth_list_update split: if_splits)
  moreover have "p \<notin> set (free_entries b)" using ok p by (auto simp: bucket_ok_def)
  moreover have "cells_unique m (?cs[p := None])"
    using ok p by (auto simp: bucket_ok_def cells_unique_def nth_list_update split: if_splits)
  ultimately show ?thesis
    using ok set_update_subset_insert [of ?cs p None] by (auto simp: bucket_ok_def)
qed

text \<open>Storing an entry in its bucket: the invariant, the entries afterwards, and what is released.\<close>

lemma bucket_put_spec:
  assumes ok: "bucket_ok m i b" and law: "key_comparison (hash m) (cmp m)"
    and idx: "bucket_index m (key_of m entry) = i"
    and put: "bucket_put m entry b = (ds, b')"
  shows "bucket_ok m i b'
    \<and> (\<forall>e. Some e \<in> set (entries b') \<longleftrightarrow>
          e = entry \<or> Some e \<in> set (entries b) \<and> \<not> cmp m (key_of m entry) (key_of m e))
    \<and> ds = (case bucket_lookup m b (key_of m entry) of
               Some old \<Rightarrow> if old \<noteq> entry \<and> has_destroy m then [old] else []
             | None \<Rightarrow> [])"
proof (cases "hashmap_search_bucket m b (key_of m entry)")
  case (Some p)
  then obtain old where p: "p < length (entries b)" "entries b ! p = Some old"
    "cmp m (key_of m entry) (key_of m old)"
    by (rule hashmap_search_bucket_Some)
  have b': "b' = b\<lparr>entries := (entries b)[p := Some entry]\<rparr>"
  proof (cases "old = entry")
    case True
    then have "(entries b)[p := Some entry] = entries b" using p by (metis list_update_id)
    then show ?thesis using put Some p True by (simp add: bucket_put_def hashmap_get_key_def)
  next
    case False
    then show ?thesis using put Some p by (simp add: bucket_put_def hashmap_get_key_def)
  qed
  have "Some e \<in> set (entries b') \<longleftrightarrow>
      e = entry \<or> Some e \<in> set (entries b) \<and> \<not> cmp m (key_of m entry) (key_of m e)" for e
  proof -
    have "cells_unique m (entries b)" using ok by (simp add: bucket_ok_def)
    then show ?thesis
      unfolding b' by (simp add: set_update_cell [OF p(1)] cells_unique_set [OF _ p law] eq_commute [of entry])
  qed
  moreover have "bucket_ok m i b'"
    unfolding b' using ok law p by (rule bucket_ok_replace)
  moreover have "ds = (if old \<noteq> entry \<and> has_destroy m then [old] else [])"
    using put Some p(2) by (cases "old = entry") (simp_all add: bucket_put_def hashmap_get_key_def)
  ultimately show ?thesis
    using Some p(2) by (simp add: bucket_lookup_def)
next
  case None
  then have new: "\<forall>e. Some e \<in> set (entries b) \<longrightarrow> \<not> cmp m (key_of m entry) (key_of m e)"
    by (simp add: hashmap_search_bucket_None)
  show ?thesis
  proof (cases "free_entries b")
    case Nil
    then show ?thesis
      using put None new bucket_ok_append [OF ok law new idx]
      by (auto simp: bucket_put_def bucket_lookup_def hashmap_get_key_def)
  next
    case (Cons f fs)
    then have f: "f < length (entries b)" "entries b ! f = None" using ok by (auto simp: bucket_ok_def)
    then have "Some e \<in> set ((entries b)[f := Some entry]) \<longleftrightarrow> e = entry \<or> Some e \<in> set (entries b)" for e
      unfolding set_update_cell [OF f(1)] using f(2) by (auto simp: in_set_conv_nth)
    then show ?thesis
      using put None new Cons bucket_ok_reuse [OF ok law new idx Cons]
      by (auto simp: bucket_put_def bucket_lookup_def hashmap_get_key_def)
  qed
qed

section \<open>The map\<close>

definition hashmap_inv :: "('k, 'e) hashmap_t \<Rightarrow> bool" where
  "hashmap_inv m \<longleftrightarrow> key_comparison (hash m) (cmp m) \<and> 0 < num_buckets m
     \<and> length (buckets m) = num_buckets m
     \<and> (\<forall>i<num_buckets m. bucket_ok m i (buckets m ! i))"

text \<open>The entries of a map in the order in which \<open>hashmap_foreach\<close> finds them.\<close>

definition hm_list :: "('k, 'e) hashmap_t \<Rightarrow> 'e list" where
  "hm_list m = concat (map (\<lambda>b. live_entries (entries b)) (buckets m))"

lemma set_live_entries: "set (live_entries cs) = {e. Some e \<in> set cs}"
  by (induction cs) (auto split: option.splits)

lemma set_hm_list: "set (hm_list m) = {e. \<exists>b \<in> set (buckets m). Some e \<in> set (entries b)}"
  by (auto simp: hm_list_def set_live_entries)

lemma bucket_index_bound: "hashmap_inv m \<Longrightarrow> bucket_index m k < length (buckets m)"
  by (simp add: hashmap_inv_def bucket_index_def)

lemma bucket_index_cong: "hashmap_inv m \<Longrightarrow> cmp m k l \<Longrightarrow> bucket_index m k = bucket_index m l"
  using key_comparison.cmp_hash [of "hash m" "cmp m" k l] by (simp add: hashmap_inv_def bucket_index_def)

lemma update_buckets [simp]:
  "bucket_ok (m\<lparr>buckets := bs\<rparr>) i b = bucket_ok m i b"
  "bucket_index (m\<lparr>buckets := bs\<rparr>) = bucket_index m"
  "hashmap_search_bucket (m\<lparr>buckets := bs\<rparr>) = hashmap_search_bucket m"
  "bucket_lookup (m\<lparr>buckets := bs\<rparr>) = bucket_lookup m"
  by (simp_all add: bucket_ok_def cells_unique_def bucket_index_def hashmap_search_bucket_def
      hashmap_get_key_def bucket_lookup_def fun_eq_iff)

lemma hashmap_inv_update:
  assumes "hashmap_inv m" and "bucket_ok m i b"
  shows "hashmap_inv (m\<lparr>buckets := (buckets m)[i := b]\<rparr>)"
  using assms unfolding hashmap_inv_def
  by (cases "i < length (buckets m)") (auto simp: nth_list_update)

lemma bucket_entries:
  assumes inv: "hashmap_inv m" and i: "i < length (buckets m)"
  shows "Some e \<in> set (entries (buckets m ! i)) \<longleftrightarrow> e \<in> set (hm_list m) \<and> bucket_index m (key_of m e) = i"
proof
  assume "Some e \<in> set (entries (buckets m ! i))"
  then show "e \<in> set (hm_list m) \<and> bucket_index m (key_of m e) = i"
    using inv i by (auto simp: set_hm_list hashmap_inv_def bucket_ok_def)
next
  assume "e \<in> set (hm_list m) \<and> bucket_index m (key_of m e) = i"
  then obtain j where "j < length (buckets m)" "Some e \<in> set (entries (buckets m ! j))"
    "bucket_index m (key_of m e) = i"
    by (auto simp: set_hm_list in_set_conv_nth) (metis in_set_conv_nth)
  then show "Some e \<in> set (entries (buckets m ! i))"
    using inv by (auto simp: hashmap_inv_def bucket_ok_def)
qed

lemma hashmap_get_bucket_lookup: "hashmap_get m k = bucket_lookup m (buckets m ! bucket_index m k) k"
  by (simp add: hashmap_get_def bucket_lookup_def Let_def)

lemma hashmap_get_iff:
  assumes inv: "hashmap_inv m"
  shows "hashmap_get m k = Some e \<longleftrightarrow> e \<in> set (hm_list m) \<and> cmp m k (key_of m e)"
proof -
  let ?i = "bucket_index m k"
  have i: "?i < length (buckets m)" using inv by (rule bucket_index_bound)
  then have "bucket_ok m ?i (buckets m ! ?i)" and "key_comparison (hash m) (cmp m)"
    using inv by (simp_all add: hashmap_inv_def)
  then have "hashmap_get m k = Some e \<longleftrightarrow>
      Some e \<in> set (entries (buckets m ! ?i)) \<and> cmp m k (key_of m e)"
    by (simp add: hashmap_get_bucket_lookup bucket_lookup_iff)
  then show ?thesis
    using bucket_entries [OF inv i, of e] bucket_index_cong [OF inv, of k "key_of m e"] by auto
qed

lemma hashmap_get_None_iff:
  assumes "hashmap_inv m"
  shows "hashmap_get m k = None \<longleftrightarrow> (\<forall>e \<in> set (hm_list m). \<not> cmp m k (key_of m e))"
  using hashmap_get_iff [OF assms] by (metis not_None_eq)

text \<open>A changed bucket changes the entries of the map at the keys of that bucket only.\<close>

lemma set_hm_list_update:
  assumes inv: "hashmap_inv m" and i: "i < length (buckets m)"
  shows "e \<in> set (hm_list (m\<lparr>buckets := (buckets m)[i := b]\<rparr>)) \<longleftrightarrow>
    Some e \<in> set (entries b) \<or> e \<in> set (hm_list m) \<and> bucket_index m (key_of m e) \<noteq> i"
proof -
  have "e \<in> set (hm_list (m\<lparr>buckets := (buckets m)[i := b]\<rparr>)) \<longleftrightarrow>
      (\<exists>j<length (buckets m). Some e \<in> set (entries ((buckets m)[i := b] ! j)))"
    by (simp add: set_hm_list) (metis in_set_conv_nth length_list_update)
  also have "\<dots> \<longleftrightarrow> Some e \<in> set (entries b) \<or>
      (\<exists>j<length (buckets m). j \<noteq> i \<and> Some e \<in> set (entries (buckets m ! j)))"
    using i by (auto simp: nth_list_update)
  also have "(\<exists>j<length (buckets m). j \<noteq> i \<and> Some e \<in> set (entries (buckets m ! j))) \<longleftrightarrow>
      e \<in> set (hm_list m) \<and> bucket_index m (key_of m e) \<noteq> i"
    using bucket_entries [OF inv, of _ e] bucket_index_bound [OF inv] by blast
  finally show ?thesis .
qed

lemma hashmap_put_spec:
  assumes inv: "hashmap_inv m" and live: "\<not> in_destroy m"
  shows "\<exists>m'. hashmap_put entry m =
      Done (case hashmap_get m (key_of m entry) of
              Some old \<Rightarrow> if old \<noteq> entry \<and> has_destroy m then [old] else []
            | None \<Rightarrow> []) m'
    \<and> hashmap_inv m' \<and> (\<exists>bs. m' = m\<lparr>buckets := bs\<rparr>)
    \<and> set (hm_list m') = insert entry {e \<in> set (hm_list m). \<not> cmp m (key_of m entry) (key_of m e)}"
proof -
  let ?k = "key_of m entry"
  let ?i = "bucket_index m ?k"
  have i: "?i < length (buckets m)" using inv by (rule bucket_index_bound)
  have ok: "bucket_ok m ?i (buckets m ! ?i)" and law: "key_comparison (hash m) (cmp m)"
    using inv i by (simp_all add: hashmap_inv_def)
  obtain ds b where put: "bucket_put m entry (buckets m ! ?i) = (ds, b)" by fastforce
  note spec = bucket_put_spec [OF ok law refl put]
  let ?m' = "m\<lparr>buckets := (buckets m)[?i := b]\<rparr>"
  have "e \<in> set (hm_list ?m') \<longleftrightarrow> e = entry \<or> e \<in> set (hm_list m) \<and> \<not> cmp m ?k (key_of m e)" for e
  proof -
    have "Some e \<in> set (entries b) \<longleftrightarrow>
        e = entry \<or> Some e \<in> set (entries (buckets m ! ?i)) \<and> \<not> cmp m ?k (key_of m e)"
      using spec by blast
    then show ?thesis
      using bucket_index_cong [OF inv, of ?k "key_of m e"]
      by (auto simp: set_hm_list_update [OF inv i] bucket_entries [OF inv i])
  qed
  then have "set (hm_list ?m') = insert entry {e \<in> set (hm_list m). \<not> cmp m ?k (key_of m e)}"
    by blast
  moreover have "hashmap_inv ?m'" using inv spec by (simp add: hashmap_inv_update)
  moreover have "hashmap_put entry m = Done ds ?m'"
    using live put by (simp add: hashmap_put_def hashmap_get_key_def Let_def)
  moreover have "ds = (case hashmap_get m ?k of
      Some old \<Rightarrow> if old \<noteq> entry \<and> has_destroy m then [old] else [] | None \<Rightarrow> [])"
    using spec by (simp add: hashmap_get_bucket_lookup)
  moreover have "\<exists>bs. ?m' = m\<lparr>buckets := bs\<rparr>" by blast
  ultimately show ?thesis
    by (intro exI [of _ ?m'] conjI) (simp_all only:)
qed

lemma hashmap_remove_spec:
  assumes inv: "hashmap_inv m"
  shows "\<exists>m'. hashmap_remove k m =
      Done (case hashmap_get m k of
              Some old \<Rightarrow> (True, if has_destroy m then [old] else [])
            | None \<Rightarrow> (False, [])) m'
    \<and> hashmap_inv m' \<and> (\<exists>bs. m' = m\<lparr>buckets := bs\<rparr>)
    \<and> set (hm_list m') = {e \<in> set (hm_list m). \<not> cmp m k (key_of m e)}"
proof -
  let ?i = "bucket_index m k"
  let ?b = "buckets m ! ?i"
  have i: "?i < length (buckets m)" using inv by (rule bucket_index_bound)
  have ok: "bucket_ok m ?i ?b" and law: "key_comparison (hash m) (cmp m)"
    using inv i by (simp_all add: hashmap_inv_def)
  show ?thesis
  proof (cases "hashmap_search_bucket m ?b k")
    case None
    then have none: "hashmap_get m k = None" by (simp add: hashmap_get_def)
    then have "{e \<in> set (hm_list m). \<not> cmp m k (key_of m e)} = set (hm_list m)"
      using hashmap_get_None_iff [OF inv, of k] by blast
    moreover have "\<exists>bs. m = m\<lparr>buckets := bs\<rparr>" by (rule exI [of _ "buckets m"]) simp
    ultimately show ?thesis using None none inv by (simp add: hashmap_remove_def Let_def)
  next
    case (Some p)
    then obtain old where p: "p < length (entries ?b)" "entries ?b ! p = Some old" "cmp m k (key_of m old)"
      by (rule hashmap_search_bucket_Some)
    define b where "b = ?b\<lparr>free_entries := free_entries ?b @ [p], entries := (entries ?b)[p := None],
      num_entries := num_entries ?b - 1\<rparr>"
    let ?m' = "m\<lparr>buckets := (buckets m)[?i := b]\<rparr>"
    have "cells_unique m (entries ?b)" using ok by (simp add: bucket_ok_def)
    then have b: "Some e \<in> set (entries b) \<longleftrightarrow> Some e \<in> set (entries ?b) \<and> \<not> cmp m k (key_of m e)" for e
      by (simp add: b_def set_update_cell [OF p(1)] cells_unique_set [OF _ p law])
    have "e \<in> set (hm_list ?m') \<longleftrightarrow> e \<in> set (hm_list m) \<and> \<not> cmp m k (key_of m e)" for e
      using set_hm_list_update [OF inv i, of e b] b bucket_entries [OF inv i, of e]
        bucket_index_cong [OF inv, of k "key_of m e"] by metis
    then have "set (hm_list ?m') = {e \<in> set (hm_list m). \<not> cmp m k (key_of m e)}" by blast
    moreover have "hashmap_inv ?m'"
      using inv bucket_ok_remove [OF ok p(1,2)] unfolding b_def by (rule hashmap_inv_update)
    moreover have "hashmap_get m k = Some old" using Some p by (simp add: hashmap_get_def)
    moreover have "hashmap_remove k m = Done (True, if has_destroy m then [old] else []) ?m'"
      using Some p by (simp add: hashmap_remove_def Let_def b_def)
    ultimately show ?thesis by auto
  qed
qed

text \<open>Iteration visits the entries one after the other until the visitor returns false.\<close>

primrec visit_until_false :: "('e \<Rightarrow> ('s, bool) action) \<Rightarrow> 'e list \<Rightarrow> ('s, bool) action" where
  "visit_until_false visitor [] = ret True"
| "visit_until_false visitor (e # es) =
     andthen (visitor e) (\<lambda>r. if r then visit_until_false visitor es else ret False)"

lemma visit_until_false_append:
  "visit_until_false v (xs @ ys) = andthen (visit_until_false v xs)
     (\<lambda>r. if r then visit_until_false v ys else ret False)"
  by (induction xs) (auto simp: andthen_assoc intro!: andthen_cong)

lemma foreach_cells_visit: "foreach_cells v cs = visit_until_false v (live_entries cs)"
proof (induction cs)
  case (Cons c cs)
  then show ?case by (cases c) (auto intro!: andthen_cong)
qed simp

lemma hashmap_foreach_visit: "hashmap_foreach m v = visit_until_false v (hm_list m)"
proof -
  have "foreach_buckets v bs = visit_until_false v (concat (map (\<lambda>b. live_entries (entries b)) bs))" for bs
    by (induction bs) (auto simp: foreach_cells_visit visit_until_false_append intro!: andthen_cong)
  then show ?thesis by (simp add: hashmap_foreach_def hm_list_def)
qed

text \<open>Every entry occurs once, and the counters of the buckets add up to the number of entries.\<close>

lemma length_live_entries: "length (live_entries cs) = live_cells cs"
  by (induction cs) (auto simp: live_cells_def)

lemma distinct_live_entries:
  assumes "cells_unique m cs" and "key_comparison (hash m) (cmp m)"
  shows "distinct (live_entries cs)"
  using assms(1)
proof (induction cs)
  case Nil
  then show ?case by simp
next
  case (Cons c cs)
  have "cells_unique m cs"
    using Cons.prems unfolding cells_unique_def
    by (metis Suc_less_eq Suc_inject length_Cons nth_Cons_Suc)
  with Cons.IH have IH: "distinct (live_entries cs)" .
  show ?case
  proof (cases c)
    case None
    then show ?thesis using IH by simp
  next
    case (Some e)
    have "Some e \<notin> set cs"
    proof
      assume "Some e \<in> set cs"
      then obtain q where "q < length cs" "cs ! q = Some e" by (auto simp: in_set_conv_nth)
      then have "(0::nat) = Suc q"
        using Cons.prems [unfolded cells_unique_def, rule_format, of 0 "Suc q" e e] Some
          key_comparison.cmp_refl [OF assms(2)] by simp
      then show False by simp
    qed
    then show ?thesis using IH Some by (simp add: set_live_entries)
  qed
qed

lemma distinct_hm_list:
  assumes inv: "hashmap_inv m"
  shows "distinct (hm_list m)"
proof -
  have "distinct (concat (map (\<lambda>b. live_entries (entries b)) (take n (buckets m))))
      \<and> (\<forall>e \<in> set (concat (map (\<lambda>b. live_entries (entries b)) (take n (buckets m)))).
            bucket_index m (key_of m e) < n)" if "n \<le> length (buckets m)" for n
    using that
  proof (induction n)
    case (Suc n)
    then have n: "n < length (buckets m)" by simp
    then have ok: "bucket_ok m n (buckets m ! n)" using inv by (simp add: hashmap_inv_def)
    then have "distinct (live_entries (entries (buckets m ! n)))"
      using inv distinct_live_entries [of m] by (simp add: hashmap_inv_def bucket_ok_def)
    then show ?case
      using Suc n ok by (fastforce simp: take_Suc_conv_app_nth set_live_entries bucket_ok_def)
  qed simp
  from this [of "length (buckets m)"] show ?thesis by (simp add: hm_list_def)
qed

lemma foldl_num_entries: "foldl (\<lambda>n b. n + num_entries b) s bs = s + sum_list (map num_entries bs)"
  by (induction bs arbitrary: s) simp_all

lemma hashmap_size_length:
  assumes inv: "hashmap_inv m"
  shows "hashmap_size m = length (hm_list m)"
proof -
  have "map num_entries (buckets m) = map (\<lambda>b. length (live_entries (entries b))) (buckets m)"
    using inv by (auto simp: hashmap_inv_def bucket_ok_def length_live_entries in_set_conv_nth)
  then show ?thesis
    by (simp only: hashmap_size_def foldl_num_entries hm_list_def length_concat map_map comp_def)
qed

section \<open>The contract of a keyed store\<close>

text \<open>
  What the owners of a hash map (the variables of a scope, the packages, the variable
  types, the templates) rely on: looking a key up after an entry was stored or a key was
  removed. Histories of stores and removals then act on the store as on a finite map.
\<close>

datatype ('k, 'e) store_op = Put_op 'e | Remove_op 'k

primrec map_op :: "('e \<Rightarrow> 'k) \<Rightarrow> ('k \<Rightarrow> 'k \<Rightarrow> bool) \<Rightarrow> ('k, 'e) store_op \<Rightarrow> ('k \<Rightarrow> 'e option) \<Rightarrow> 'k \<Rightarrow> 'e option" where
  "map_op key same (Put_op e) f = (\<lambda>k. if same k (key e) then Some e else f k)"
| "map_op key same (Remove_op l) f = (\<lambda>k. if same k l then None else f k)"

primrec store_ops :: "('e \<Rightarrow> ('m, 'd) action) \<Rightarrow> ('k \<Rightarrow> ('m, 'r) action) \<Rightarrow> ('k, 'e) store_op list \<Rightarrow> ('m, unit) action" where
  "store_ops put rem [] = ret ()"
| "store_ops put rem (q # qs) = andthen
     (case q of Put_op e \<Rightarrow> andthen (put e) (\<lambda>_. ret ()) | Remove_op k \<Rightarrow> andthen (rem k) (\<lambda>_. ret ()))
     (\<lambda>_. store_ops put rem qs)"

locale keyed_store =
  fixes get :: "'m \<Rightarrow> 'k \<Rightarrow> 'e option"
    and put :: "'e \<Rightarrow> ('m, 'd) action"
    and rem :: "'k \<Rightarrow> ('m, 'r) action"
    and key :: "'e \<Rightarrow> 'k"
    and same :: "'k \<Rightarrow> 'k \<Rightarrow> bool"
    and invar :: "'m \<Rightarrow> bool"
  assumes put_ok: "invar m \<Longrightarrow> \<exists>d m'. put e m = Done d m' \<and> invar m' \<and> get m' = map_op key same (Put_op e) (get m)"
    and rem_ok: "invar m \<Longrightarrow> \<exists>r m'. rem k m = Done r m' \<and> invar m' \<and> get m' = map_op key same (Remove_op k) (get m)"
begin

lemma store_op_ok:
  assumes "invar m"
  shows "\<exists>m'. (case q of Put_op e \<Rightarrow> andthen (put e) (\<lambda>_. ret ()) | Remove_op k \<Rightarrow> andthen (rem k) (\<lambda>_. ret ())) m
      = Done () m' \<and> invar m' \<and> get m' = map_op key same q (get m)"
proof (cases q)
  case (Put_op e)
  obtain d m' where "put e m = Done d m'" "invar m'" "get m' = map_op key same (Put_op e) (get m)"
    using put_ok [OF assms, of e] by blast
  with Put_op show ?thesis by simp
next
  case (Remove_op k)
  obtain r m' where "rem k m = Done r m'" "invar m'" "get m' = map_op key same (Remove_op k) (get m)"
    using rem_ok [OF assms, of k] by blast
  with Remove_op show ?thesis by simp
qed

lemma store_ops_ok:
  "invar m \<Longrightarrow> \<exists>m'. store_ops put rem qs m = Done () m' \<and> invar m' \<and> get m' = fold (map_op key same) qs (get m)"
proof (induction qs arbitrary: m)
  case (Cons q qs)
  obtain m1 where m1: "(case q of Put_op e \<Rightarrow> andthen (put e) (\<lambda>_. ret ())
      | Remove_op k \<Rightarrow> andthen (rem k) (\<lambda>_. ret ())) m = Done () m1"
    "invar m1" "get m1 = map_op key same q (get m)"
    using store_op_ok [OF Cons.prems, of q] by blast
  obtain m2 where "store_ops put rem qs m1 = Done () m2" "invar m2" "get m2 = fold (map_op key same) qs (get m1)"
    using Cons.IH [OF m1(2)] by blast
  with m1 show ?case by simp
qed simp

end

lemma hashmap_put_get:
  assumes "hashmap_inv m" and "\<not> in_destroy m"
  shows "\<exists>d m'. hashmap_put e m = Done d m' \<and> (\<exists>bs. m' = m\<lparr>buckets := bs\<rparr>) \<and> hashmap_inv m'
    \<and> hashmap_get m' = map_op (key_of m) (cmp m) (Put_op e) (hashmap_get m)"
proof -
  obtain d m' where m': "hashmap_put e m = Done d m'" "hashmap_inv m'" "\<exists>bs. m' = m\<lparr>buckets := bs\<rparr>"
    "set (hm_list m') = insert e {x \<in> set (hm_list m). \<not> cmp m (key_of m e) (key_of m x)}"
    using hashmap_put_spec [OF assms, of e] by blast
  then have same: "key_of m' = key_of m" "cmp m' = cmp m" by auto
  have law: "key_comparison (hash m) (cmp m)" using assms by (simp add: hashmap_inv_def)
  have "hashmap_get m' k = Some x \<longleftrightarrow> (if cmp m k (key_of m e) then Some e else hashmap_get m k) = Some x" for k x
    unfolding hashmap_get_iff [OF m'(2)] same m'(4)
    using hashmap_get_iff [OF assms(1), of k x] key_comparison.cmp_cong [OF law, of k "key_of m e" "key_of m x"]
      key_comparison.cmp_common [OF law, of k "key_of m x" "key_of m e"]
    by auto
  then have "hashmap_get m' k = (if cmp m k (key_of m e) then Some e else hashmap_get m k)" for k
    by (metis option.exhaust)
  then show ?thesis using m' by auto
qed

lemma hashmap_remove_get:
  assumes "hashmap_inv m"
  shows "\<exists>d m'. hashmap_remove l m = Done d m' \<and> (\<exists>bs. m' = m\<lparr>buckets := bs\<rparr>) \<and> hashmap_inv m'
    \<and> hashmap_get m' = map_op (key_of m) (cmp m) (Remove_op l) (hashmap_get m)"
proof -
  obtain d m' where m': "hashmap_remove l m = Done d m'" "hashmap_inv m'" "\<exists>bs. m' = m\<lparr>buckets := bs\<rparr>"
    "set (hm_list m') = {x \<in> set (hm_list m). \<not> cmp m l (key_of m x)}"
    using hashmap_remove_spec [OF assms, of l] by blast
  then have same: "key_of m' = key_of m" "cmp m' = cmp m" by auto
  have law: "key_comparison (hash m) (cmp m)" using assms by (simp add: hashmap_inv_def)
  have "hashmap_get m' k = Some x \<longleftrightarrow> (if cmp m k l then None else hashmap_get m k) = Some x" for k x
    unfolding hashmap_get_iff [OF m'(2)] same m'(4)
    using hashmap_get_iff [OF assms(1), of k x] key_comparison.cmp_cong [OF law, of k l "key_of m x"]
      key_comparison.cmp_common [OF law, of k "key_of m x" l]
    by auto
  then have "hashmap_get m' k = (if cmp m k l then None else hashmap_get m k)" for k
    by (metis option.exhaust)
  then show ?thesis using m' by auto
qed

definition hashmap_live :: "('e \<Rightarrow> 'k) \<Rightarrow> ('k \<Rightarrow> 'k \<Rightarrow> bool) \<Rightarrow> ('k, 'e) hashmap_t \<Rightarrow> bool" where
  "hashmap_live key same m \<longleftrightarrow> hashmap_inv m \<and> key_of m = key \<and> cmp m = same \<and> \<not> in_destroy m"

interpretation hm: keyed_store hashmap_get hashmap_put hashmap_remove key same "hashmap_live key same"
  for key :: "'e \<Rightarrow> 'k" and same
proof
  fix m :: "('k, 'e) hashmap_t" and e k
  assume live: "hashmap_live key same m"
  obtain d m' bs where "hashmap_put e m = Done d m'" "m' = m\<lparr>buckets := bs\<rparr>" "hashmap_inv m'"
    "hashmap_get m' = map_op (key_of m) (cmp m) (Put_op e) (hashmap_get m)"
    using hashmap_put_get [of m e] live unfolding hashmap_live_def by blast
  then show "\<exists>d m'. hashmap_put e m = Done d m' \<and> hashmap_live key same m'
      \<and> hashmap_get m' = map_op key same (Put_op e) (hashmap_get m)"
    using live by (simp add: hashmap_live_def)
  obtain d m' bs where "hashmap_remove k m = Done d m'" "m' = m\<lparr>buckets := bs\<rparr>" "hashmap_inv m'"
    "hashmap_get m' = map_op (key_of m) (cmp m) (Remove_op k) (hashmap_get m)"
    using hashmap_remove_get [of m k] live unfolding hashmap_live_def by blast
  then show "\<exists>d m'. hashmap_remove k m = Done d m' \<and> hashmap_live key same m'
      \<and> hashmap_get m' = map_op key same (Remove_op k) (hashmap_get m)"
    using live by (simp add: hashmap_live_def)
qed

lemma hashmap_create_live:
  assumes "key_comparison h c" and "0 < n"
  shows "\<exists>m. hashmap_create key n h c d s = Done m s \<and> hashmap_live key c m \<and> hashmap_get m = (\<lambda>_. None)"
proof -
  let ?m = "\<lparr>key_of = key, hash = h, cmp = c, has_destroy = d, num_buckets = n,
      buckets = replicate n \<lparr>num_entries = 0, entries = [], free_entries = []\<rparr>, in_destroy = False\<rparr>"
  have inv: "hashmap_inv ?m"
    using assms by (simp add: hashmap_inv_def bucket_ok_def live_cells_def cells_unique_def)
  have "hashmap_get ?m k = None" for k
    unfolding hashmap_get_None_iff [OF inv] by (simp add: set_hm_list)
  with inv show ?thesis
    using assms(2) by (simp add: hashmap_create_def hashmap_live_def fun_eq_iff)
qed

lemma ran_hashmap_get:
  assumes "hashmap_inv m"
  shows "ran (hashmap_get m) = set (hm_list m)"
  using hashmap_get_iff [OF assms] key_comparison.cmp_refl [of "hash m" "cmp m"] assms
  by (auto simp: ran_def hashmap_inv_def)

section \<open>Properties\<close>

text \<open>C7: from its creation on, a hash map is a finite map. For every number of buckets, every hash
  and comparison function that obey their contract and every history of stores and removals, all
  operations come back, looking any key up gives what the history last stored under a key that
  compares equal, and the size of the map is the number of entries stored.\<close>

theorem hashmap_refines_map:
  fixes key :: "'e \<Rightarrow> 'k"
  assumes "key_comparison h c" and "0 < n"
  shows "\<exists>m0 m. hashmap_create key n h c d () = Done m0 ()
     \<and> store_ops hashmap_put hashmap_remove qs m0 = Done () m
     \<and> hashmap_get m = fold (map_op key c) qs (\<lambda>_. None)
     \<and> hashmap_size m = card (ran (fold (map_op key c) qs (\<lambda>_. None)))"
proof -
  obtain m0 :: "('k, 'e) hashmap_t" where m0: "hashmap_create key n h c d () = Done m0 ()"
    "hashmap_live key c m0" "hashmap_get m0 = (\<lambda>_. None)"
    using hashmap_create_live [OF assms, of key d "()"] by auto
  obtain m where m: "store_ops hashmap_put hashmap_remove qs m0 = Done () m" "hashmap_live key c m"
    "hashmap_get m = fold (map_op key c) qs (\<lambda>_. None)"
    using hm.store_ops_ok [OF m0(2), of qs] m0(3) by auto
  then have inv: "hashmap_inv m" by (simp add: hashmap_live_def)
  have "hashmap_size m = card (set (hm_list m))"
    using hashmap_size_length [OF inv] distinct_card [OF distinct_hm_list [OF inv]] by simp
  then show ?thesis using m0 m ran_hashmap_get [OF inv] by auto
qed

theorem hashmap_refines_map_witness:
  "key_comparison hash_int compare_int_keys \<and> (0::nat) < 2 \<and>
   (\<exists>m0 m. hashmap_create fst 2 hash_int compare_int_keys True () = Done m0 ()
     \<and> store_ops hashmap_put hashmap_remove
          [Put_op (1, 10::nat), Put_op (3, 30), Put_op (1, 11), Remove_op 3] m0 = Done () m
     \<and> hashmap_get m 1 = Some (1, 11) \<and> hashmap_get m 3 = None)"
  using hashmap_refines_map [OF int_keys.key_comparison_axioms, of 2 fst True
      "[Put_op (1, 10::nat), Put_op (3, 30), Put_op (1, 11), Remove_op 3]"]
    int_keys.key_comparison_axioms
  by (auto simp: compare_int_keys_def)

text \<open>Names that differ in case only are one key: an entry stored in a map with case-insensitive
  string keys is found under every spelling of its name, and a second entry whose name differs in case
  replaces it and hands the replaced entry to the destructor.\<close>

lemma hashmap_ci_put_get:
  fixes e e' :: 'e
  assumes "hashmap_live key compare_ci_string_keys m" and "strupper name = strupper (key e)"
    and "strupper (key e') = strupper (key e)" and "e' \<noteq> e" and "has_destroy m"
  shows "\<exists>ds m1 m2. hashmap_put e m = Done ds m1 \<and> hashmap_get m1 name = Some e
     \<and> hashmap_put e' m1 = Done [e] m2 \<and> hashmap_get m2 name = Some e'"
proof -
  have same: "compare_ci_string_keys name (key e)" "compare_ci_string_keys name (key e')"
    "compare_ci_string_keys (key e') (key e)"
    using assms by (simp_all add: compare_ci_string_keys_def strcasecmp_eq_strupper)
  have live: "hashmap_inv m" "key_of m = key" "cmp m = compare_ci_string_keys" "\<not> in_destroy m"
    using assms(1) by (simp_all add: hashmap_live_def)
  obtain ds m1 bs where m1: "hashmap_put e m = Done ds m1" "m1 = m\<lparr>buckets := bs\<rparr>" "hashmap_inv m1"
    "hashmap_get m1 = map_op key compare_ci_string_keys (Put_op e) (hashmap_get m)"
    using hashmap_put_get [OF live(1,4), of e] live by auto
  have m1': "\<not> in_destroy m1" "key_of m1 = key" "has_destroy m1" "cmp m1 = compare_ci_string_keys"
    using m1(2) live assms by simp_all
  have "hashmap_get m1 (key e') = Some e" using m1(4) same by simp
  then have d: "\<exists>m2. hashmap_put e' m1 = Done [e] m2"
    using hashmap_put_spec [OF m1(3) m1'(1), of e'] m1' assms(4) by auto
  obtain m2 where "hashmap_put e' m1 = Done [e] m2" "hashmap_get m2 = map_op key compare_ci_string_keys (Put_op e') (hashmap_get m1)"
    using d hashmap_put_get [OF m1(3) m1'(1), of e'] m1' by auto
  then show ?thesis using m1 same by simp
qed

text \<open>Iterating over a hash map calls the visitor on every entry exactly once as long as the
  visitor returns true, and the array made of a map holds every entry exactly once.\<close>

lemma hashmap_foreach_each_once:
  assumes "hashmap_inv m"
  shows "\<exists>es. distinct es \<and> set es = ran (hashmap_get m)
     \<and> (\<forall>visitor :: 'e \<Rightarrow> ('s, bool) action. hashmap_foreach m visitor = visit_until_false visitor es)
     \<and> (\<exists>a. hashmap_to_array m = Some a \<and> array_iter_loop (init_array_iterator a) = es)"
proof -
  let ?es = "hm_list m"
  have "visit_until_false put_entry_into_array es a = andthen (append_new_elems es) (\<lambda>_. ret True) a" for es and a :: "'e array_t"
    by (induction es arbitrary: a)
       (auto simp: put_entry_into_array_def andthen_def split: outcome.splits)
  then have to_array: "hashmap_to_array m = (case init_array (int (length ?es)) () of
      Done a _ \<Rightarrow> (case append_new_elems ?es a of Done _ a' \<Rightarrow> Some a' | Failed _ \<Rightarrow> None) | Failed _ \<Rightarrow> None)"
    by (simp add: hashmap_to_array_def hashmap_size_length [OF assms] hashmap_foreach_visit andthen_def
        split: outcome.splits)
  have "\<exists>a. hashmap_to_array m = Some a \<and> array_iter_loop (init_array_iterator a) = ?es"
  proof (cases "?es = []")
    case True
    then show ?thesis
      by (simp add: to_array init_array_def init_array_iterator_def array_iter_loop.simps get_next_elem_def)
  next
    case False
    then obtain a :: "'e array_t" where a: "init_array (int (length ?es)) () = Done a ()" "array_inv a" "array_elems a = []"
      using init_array_inv [of "int (length ?es)" "()"] by auto
    then show ?thesis
      using arr.walk_append_all [OF a(2), of ?es] by (auto simp: to_array append_new_elems_eq)
  qed
  then show ?thesis
    using distinct_hm_list [OF assms] ran_hashmap_get [OF assms]
    by (intro exI [of _ ?es]) (simp add: hashmap_foreach_visit)
qed

end
