(* ===== verification/C_Strings.thy ===== *)
theory C_Strings
  imports Mk_Prelude
begin

text \<open>
  The string helpers of \<open>libmkfli4l/str.c\<close> and what the sources use of the C
  library for numbers: \<open>%u\<close> and \<open>%d\<close> conversion, \<open>strtol\<close> and \<open>atoi\<close>. A
  string is the list of its characters before the terminating NUL; a NULL pointer is
  \<^const>\<open>None\<close>. A \<open>long\<close> has 64 bits, an \<open>int\<close> has 32.
\<close>

section \<open>Numbers as text\<close>

definition digit_char :: "nat \<Rightarrow> char" where
  "digit_char d = char_of (48 + d)"

fun nat_to_dec :: "nat \<Rightarrow> c_string" where
  "nat_to_dec n = (if n < 10 then [digit_char n] else nat_to_dec (n div 10) @ [digit_char (n mod 10)])"

declare nat_to_dec.simps [simp del]

definition int_to_dec :: "int \<Rightarrow> c_string" where
  "int_to_dec i = (if i < 0 then CHR ''-'' # nat_to_dec (nat (- i)) else nat_to_dec (nat i))"

definition isspace :: "char \<Rightarrow> bool" where
  "isspace c = (c = CHR '' '' \<or> 9 \<le> (of_char c :: nat) \<and> (of_char c :: nat) \<le> 13)"

definition digit_value :: "char \<Rightarrow> nat" where
  "digit_value c =
     (if isdigit c then of_char c - 48
      else if islower c then of_char c - 87
      else if isupper c then of_char c - 55
      else 36)"

fun scan_digits :: "nat \<Rightarrow> nat \<Rightarrow> c_string \<Rightarrow> nat \<times> c_string" where
  "scan_digits b acc [] = (acc, [])"
| "scan_digits b acc (c # s) =
     (if digit_value c < b then scan_digits b (acc * b + digit_value c) s else (acc, c # s))"

definition long_max :: int where "long_max = 2 ^ 63 - 1"
definition long_min :: int where "long_min = - (2 ^ 63)"

text \<open>
  \<open>strtol\<close> gives the value, the rest of the string at which it stopped, and whether it reported
  ERANGE. When no digit is found the whole string is left over.
\<close>

definition strtol_sign :: "c_string \<Rightarrow> bool \<times> c_string" where
  "strtol_sign s =
     (case s of c # r \<Rightarrow> if c = CHR ''-'' then (True, r) else if c = CHR ''+'' then (False, r) else (False, s)
      | [] \<Rightarrow> (False, s))"

definition strtol_base :: "nat \<Rightarrow> c_string \<Rightarrow> nat \<times> c_string" where
  "strtol_base base s =
     (case s of
        z # x # d # r \<Rightarrow>
          if (base = 0 \<or> base = 16) \<and> z = CHR ''0'' \<and> (x = CHR ''x'' \<or> x = CHR ''X'') \<and> digit_value d < 16
          then (16, d # r)
          else if base = 0 then (if z = CHR ''0'' then (8, s) else (10, s)) else (base, s)
      | z # r \<Rightarrow> if base = 0 then (if z = CHR ''0'' then (8, s) else (10, s)) else (base, s)
      | [] \<Rightarrow> (if base = 0 then (10, s) else (base, s)))"

definition strtol :: "nat \<Rightarrow> c_string \<Rightarrow> int \<times> c_string \<times> bool" where
  "strtol base s =
     (let (neg, s1) = strtol_sign (dropWhile isspace s);
          (b, s2) = strtol_base base s1;
          (n, rest) = scan_digits b 0 s2;
          v = (if neg then - int n else int n)
      in if rest = s2 then (0, s, False)
         else if long_max < v then (long_max, rest, True)
         else if v < long_min then (long_min, rest, True)
         else (v, rest, False))"

definition atoi :: "c_string \<Rightarrow> u32" where
  "atoi s = word_of_int (fst (strtol 10 s))"

text \<open>\<open>strtoul\<close> reads in the same way into an \<open>unsigned long\<close>, which is the largest one when the digits are too many.\<close>

definition strtoul :: "nat \<Rightarrow> c_string \<Rightarrow> 64 word \<times> c_string" where
  "strtoul base s =
     (let (neg, s1) = strtol_sign (dropWhile isspace s);
          (b, s2) = strtol_base base s1;
          (n, rest) = scan_digits b 0 s2
      in if rest = s2 then (0, s)
         else (if 2 ^ 64 \<le> n then - 1 else if neg then - of_nat n else of_nat n, rest))"

definition convert_to_long :: "c_string \<Rightarrow> ('s, 64 word) action" where
  "convert_to_long s =
     (let (v, rest) = strtoul (if take 2 s = ''0x'' then 16 else 10) s in
      if rest = [] then ret v else raise Fatal_exit)"

lemma of_char_digit_char: "d < 10 \<Longrightarrow> (of_char (digit_char d) :: nat) = 48 + d"
  by (simp add: digit_char_def)

lemma isdigit_digit_char [simp]: "d < 10 \<Longrightarrow> isdigit (digit_char d)"
  by (simp add: isdigit_def of_char_digit_char)

lemma digit_value_digit_char [simp]: "d < 10 \<Longrightarrow> digit_value (digit_char d) = d"
  by (simp add: digit_value_def of_char_digit_char)

lemma isdigit_digit_value: "isdigit c \<Longrightarrow> digit_value c < 10"
  by (auto simp: digit_value_def isdigit_def)

lemma nat_to_dec_digits: "list_all isdigit (nat_to_dec n)"
  by (induction n rule: nat_to_dec.induct) (subst nat_to_dec.simps, auto)

lemma nat_to_dec_not_Nil [simp]: "nat_to_dec n \<noteq> []"
  by (subst nat_to_dec.simps) simp

lemma nat_to_dec_hd: "isdigit (hd (nat_to_dec n))"
  using nat_to_dec_digits [of n] nat_to_dec_not_Nil [of n] by (cases "nat_to_dec n") auto

lemma scan_digits_append:
  assumes "list_all isdigit ds"
  shows "scan_digits 10 acc (ds @ s) = scan_digits 10 (foldl (\<lambda>a c. a * 10 + digit_value c) acc ds) s"
  using assms by (induction ds arbitrary: acc) (auto simp: isdigit_digit_value)

lemma foldl_nat_to_dec: "foldl (\<lambda>a c. a * 10 + digit_value c) 0 (nat_to_dec n) = n"
proof (induction n rule: nat_to_dec.induct)
  case (1 n)
  show ?case
  proof (cases "n < 10")
    case True
    then show ?thesis by (simp add: nat_to_dec.simps [of n])
  next
    case False
    have "foldl (\<lambda>a c. a * 10 + digit_value c) 0 (nat_to_dec n) = n div 10 * 10 + n mod 10"
      using 1 [OF False] False by (simp add: nat_to_dec.simps [of n])
    then show ?thesis by simp
  qed
qed

text \<open>Printing a number and reading it back.\<close>

lemma isdigit_not_sign: "isdigit c \<Longrightarrow> c \<noteq> CHR ''-'' \<and> c \<noteq> CHR ''+'' \<and> \<not> isspace c"
  by (auto simp: isdigit_def isspace_def)

lemma scan_digits_nat_to_dec: "scan_digits 10 0 (nat_to_dec n) = (n, [])"
  using scan_digits_append [OF nat_to_dec_digits [of n], of 0 "[]"] by (simp add: foldl_nat_to_dec)

lemma strtol_sign_digits: "list_all isdigit ds \<Longrightarrow> strtol_sign (dropWhile isspace ds) = (False, ds)"
  using isdigit_not_sign by (cases ds) (auto simp: strtol_sign_def)

lemma strtol_base_10 [simp]: "strtol_base 10 s = (10, s)"
  by (auto simp: strtol_base_def split: list.splits)

lemma strtoul_nat_to_dec: "n < 2 ^ 64 \<Longrightarrow> strtoul 10 (nat_to_dec n) = (of_nat n, [])"
  using strtol_sign_digits [OF nat_to_dec_digits [of n]]
  by (simp add: strtoul_def scan_digits_nat_to_dec not_sym [OF nat_to_dec_not_Nil])

lemma digits_not_hex: "list_all isdigit s \<Longrightarrow> take 2 s \<noteq> ''0x''"
proof
  assume d: "list_all isdigit s" and t: "take 2 s = ''0x''"
  have "CHR ''x'' \<in> set (take 2 s)" by (simp add: t)
  then have "isdigit CHR ''x''" using d in_set_takeD by (fastforce simp: list_all_iff)
  then show False by (simp add: isdigit_def)
qed

lemma convert_to_long_nat_to_dec: "n < 2 ^ 64 \<Longrightarrow> convert_to_long (nat_to_dec n) s = Done (of_nat n) s"
  using digits_not_hex [OF nat_to_dec_digits [of n]] by (simp add: convert_to_long_def strtoul_nat_to_dec)

lemma strtol_nat_to_dec:
  assumes "int n \<le> long_max" and "case s of [] \<Rightarrow> True | c # _ \<Rightarrow> 10 \<le> digit_value c"
  shows "strtol 10 (nat_to_dec n @ s) = (int n, s, False)"
proof -
  obtain c ds where ds: "nat_to_dec n = c # ds" by (cases "nat_to_dec n") auto
  have c: "isdigit c" using nat_to_dec_hd [of n] ds by simp
  have 1: "dropWhile isspace (nat_to_dec n @ s) = nat_to_dec n @ s"
    using isdigit_not_sign [OF c] by (simp add: ds)
  have 2: "strtol_sign (nat_to_dec n @ s) = (False, nat_to_dec n @ s)"
    using isdigit_not_sign [OF c] by (simp add: strtol_sign_def ds)
  have 3: "strtol_base 10 (nat_to_dec n @ s) = (10, nat_to_dec n @ s)"
    by (simp add: strtol_base_def split: list.splits)
  have "scan_digits 10 n s = (n, s)"
    using assms(2) by (cases s) auto
  then have 4: "scan_digits 10 0 (nat_to_dec n @ s) = (n, s)"
    by (simp add: scan_digits_append [OF nat_to_dec_digits] foldl_nat_to_dec)
  have "s \<noteq> nat_to_dec n @ s" by simp
  then show ?thesis
    using assms(1) by (simp add: strtol_def 1 2 3 4 long_min_def)
qed

lemma atoi_nat_to_dec:
  fixes i :: u32
  shows "atoi (nat_to_dec (unat i)) = i"
proof -
  have "int (unat i) \<le> long_max"
    using unsigned_less [of i, where ?'a = int] by (simp add: long_max_def)
  then show ?thesis
    using strtol_nat_to_dec [of "unat i" "[]"] by (simp add: atoi_def)
qed

section \<open>Copies and pieces of strings\<close>

text \<open>
  \<open>strncpy\<close> of \<open>len\<close> characters copies the characters before the terminating NUL, at
  most \<open>len\<close> of them. \<open>substrsave\<close> is called with two pointers into one string, here its
  two offsets.
\<close>

definition strsave :: "c_string option \<Rightarrow> c_string option" where
  "strsave s = (case s of None \<Rightarrow> None | Some t \<Rightarrow> Some t)"

definition substrsave :: "c_string \<Rightarrow> nat \<Rightarrow> nat \<Rightarrow> c_string" where
  "substrsave s start stop = take (stop - start) (drop start s)"

definition strcat_save :: "c_string option \<Rightarrow> c_string option \<Rightarrow> c_string option" where
  "strcat_save s a =
     (case a of None \<Rightarrow> s
      | Some t \<Rightarrow> Some ((case s of None \<Rightarrow> [] | Some u \<Rightarrow> u) @ t))"

definition strsave_quoted :: "c_string option \<Rightarrow> c_string option" where
  "strsave_quoted s =
     (case s of None \<Rightarrow> None
      | Some t \<Rightarrow> if length t > 1 then Some (take (length t - 2) (drop 1 t)) else None)"

function strsave_ws_loop :: "c_string \<Rightarrow> c_string" where
  "strsave_ws_loop [] = []"
| "strsave_ws_loop (c # q) =
     (if c = CHR 0x09 then CHR '' '' else c)
       # strsave_ws_loop (if isspace c then dropWhile isspace q else q)"
  by pat_completeness auto
termination
  by (relation "measure length") (auto simp: le_imp_less_Suc length_dropWhile_le)

definition strsave_ws :: "c_string option \<Rightarrow> c_string option" where
  "strsave_ws s = (case s of None \<Rightarrow> None | Some t \<Rightarrow> Some (strsave_ws_loop t))"

text \<open>Splitting at the first occurrence of a character: \<open>strchr\<close>.\<close>

fun strchr :: "c_string \<Rightarrow> char \<Rightarrow> (c_string \<times> c_string) option" where
  "strchr [] c = None"
| "strchr (d # s) c =
     (if d = c then Some ([], s)
      else (case strchr s c of None \<Rightarrow> None | Some (p, q) \<Rightarrow> Some (d # p, q)))"

lemma strchr_append: "c \<notin> set p \<Longrightarrow> strchr (p @ c # q) c = Some (p, q)"
  by (induction p) auto

lemma strchr_split: "strchr s c = Some (p, q) \<Longrightarrow> s = p @ c # q \<and> c \<notin> set p"
  by (induction s c arbitrary: p rule: strchr.induct) (auto split: if_splits option.splits)

lemma strchr_None: "strchr s c = None \<longleftrightarrow> c \<notin> set s"
  by (induction s c rule: strchr.induct) (auto split: option.splits)

definition strip_multiple_indices :: "c_string \<Rightarrow> c_string" where
  "strip_multiple_indices s =
     (case strchr s (CHR ''%'') of
        Some (p, q) \<Rightarrow> if strchr q (CHR ''%'') \<noteq> None then p @ [CHR ''%''] else s
      | None \<Rightarrow> s)"

text \<open>
  The pointer comparison in \<open>replace_set_var_indices\<close> compares the copy with the original
  and is always true; at the first character the code then reads the byte before its buffer.
\<close>

function replace_set_var_indices_loop :: "char option \<Rightarrow> c_string \<Rightarrow> ('s, c_string) action" where
  "replace_set_var_indices_loop prev [] = ret []"
| "replace_set_var_indices_loop prev (c # src) =
     (if isdigit c \<and> prev = None then raise Invalid_access
      else if isdigit c \<and> prev = Some (CHR ''_'') then
        andthen (replace_set_var_indices_loop (Some c) (dropWhile isdigit src)) (\<lambda>r. ret (CHR ''%'' # r))
      else andthen (replace_set_var_indices_loop (Some c) src) (\<lambda>r. ret (c # r)))"
  by pat_completeness auto
termination
  by (relation "measure (\<lambda>(prev, s). length s)") (auto simp: le_imp_less_Suc length_dropWhile_le)

definition replace_set_var_indices :: "c_string \<Rightarrow> ('s, c_string) action" where
  "replace_set_var_indices s = replace_set_var_indices_loop None s"

section \<open>Formatted names\<close>

text \<open>
  \<open>get_set_var_name_int\<close> builds a format in a buffer of \<open>VAR_SIZE + 1\<close> bytes, turning the first
  percent sign into \<open>%d\<close> and doubling the others, and prints the index with it into a second
  buffer of that size. Writing past a buffer is an invalid access.
\<close>

definition VAR_SIZE :: nat where "VAR_SIZE = 128"

fun set_var_format :: "bool \<Rightarrow> c_string \<Rightarrow> c_string" where
  "set_var_format index_found [] = []"
| "set_var_format index_found (c # s) =
     (if c = CHR ''%'' then
        (if \<not> index_found then CHR ''%'' # CHR ''d'' # set_var_format True s
         else CHR ''%'' # CHR ''%'' # set_var_format True s)
      else c # set_var_format index_found s)"

text \<open>\<open>sprintf\<close> with one \<open>int\<close> argument and a format of the directives \<open>%d\<close> and \<open>%%\<close>.\<close>

fun sprintf_int :: "c_string \<Rightarrow> int \<Rightarrow> c_string" where
  "sprintf_int (p # d # fmt) i =
     (if p = CHR ''%'' \<and> d = CHR ''d'' then int_to_dec i @ sprintf_int fmt i
      else if p = CHR ''%'' \<and> d = CHR ''%'' then CHR ''%'' # sprintf_int fmt i
      else p # sprintf_int (d # fmt) i)"
| "sprintf_int [c] i = [c]"
| "sprintf_int [] i = []"

definition get_set_var_name_int :: "c_string \<Rightarrow> u32 \<Rightarrow> ('s, c_string) action" where
  "get_set_var_name_int s index =
     (if VAR_SIZE \<le> length s then raise Fatal_exit
      else
        (let fmt_buf = set_var_format False s; var_buf = sprintf_int fmt_buf (sint index) in
         if VAR_SIZE < length fmt_buf then raise Invalid_access
         else if VAR_SIZE < length var_buf then raise Invalid_access
         else if VAR_SIZE \<le> length var_buf then raise Fatal_exit
         else ret var_buf))"

text \<open>
  \<open>vsnprintf\<close> of the C library on a buffer of \<open>n\<close> bytes. The argument is the text the conversions of the format
  give, or \<^const>\<open>None\<close> if one of them fails. The result is negative if a conversion fails or if the length of
  the text is no \<open>int\<close>, otherwise that length; at most \<open>n - 1\<close> characters of the text are stored.
\<close>

definition INT_MAX :: nat where
  "INT_MAX = 2147483647"

definition vsnprintf :: "nat \<Rightarrow> c_string option \<Rightarrow> int \<times> c_string" where
  "vsnprintf n conversions =
     (case conversions of
        None \<Rightarrow> (- 1, [])
      | Some t \<Rightarrow> if INT_MAX < length t then (- 1, []) else (int (length t), take (n - 1) t))"

text \<open>
  \<open>safe_sprintf\<close> doubles the buffer until the formatted text fits; the outer value \<^const>\<open>None\<close> is a loop that
  does not end, the inner one the NULL pointer.
\<close>

partial_function (option) safe_sprintf_loop :: "nat \<Rightarrow> c_string option \<Rightarrow> c_string option option" where
  "safe_sprintf_loop bufsize conversions =
     (let bufsize' = bufsize * 2; (written, buf) = vsnprintf bufsize' conversions in
      if written < 0 then Some None
      else if nat written < bufsize' then Some (Some buf)
      else safe_sprintf_loop bufsize' conversions)"

definition safe_sprintf :: "c_string \<Rightarrow> c_string option \<Rightarrow> c_string option option" where
  "safe_sprintf fmt conversions = safe_sprintf_loop (length fmt) conversions"

lemma sprintf_int_Cons: "c \<noteq> CHR ''%'' \<Longrightarrow> sprintf_int (c # f) i = c # sprintf_int f i"
  by (cases f) simp_all

lemma sprintf_int_append: "CHR ''%'' \<notin> set p \<Longrightarrow> sprintf_int (p @ f) i = p @ sprintf_int f i"
  by (induction p) (auto simp: sprintf_int_Cons)

lemma set_var_format_True: "sprintf_int (set_var_format True q) i = q"
  by (induction q) (auto simp: sprintf_int_Cons)

lemma set_var_format_False: "CHR ''%'' \<notin> set p \<Longrightarrow> set_var_format False (p @ f) = p @ set_var_format False f"
  by (induction p) auto

lemma sprintf_set_var_format:
  assumes "CHR ''%'' \<notin> set p"
  shows "sprintf_int (set_var_format False (p @ CHR ''%'' # q)) i = p @ int_to_dec i @ q"
  using assms by (simp add: set_var_format_False sprintf_int_append set_var_format_True)

lemma length_set_var_format_True: "length (set_var_format True q) = length q + length (filter (\<lambda>c. c = CHR ''%'') q)"
  by (induction q) auto

lemma length_set_var_format_append:
  "CHR ''%'' \<notin> set p \<Longrightarrow> length (set_var_format False (p @ f)) = length p + length (set_var_format False f)"
  by (induction p) auto

section \<open>Properties\<close>

lemma safe_sprintf_loop_error:
  "fst (vsnprintf (b * 2) conversions) < 0 \<Longrightarrow> safe_sprintf_loop b conversions = Some None"
  by (auto simp: safe_sprintf_loop.simps [of b] Let_def split: prod.split)

lemma safe_sprintf_loop_text:
  "length t \<le> INT_MAX \<Longrightarrow> safe_sprintf_loop b (Some t) =
     (if length t < b * 2 then Some (Some t) else safe_sprintf_loop (b * 2) (Some t))"
  by (simp add: safe_sprintf_loop.simps [of b] vsnprintf_def)

lemma safe_sprintf_loop_pos: "0 < b \<Longrightarrow> length t \<le> INT_MAX \<Longrightarrow> safe_sprintf_loop b (Some t) = Some (Some t)"
proof (induction "length t - b" arbitrary: b rule: less_induct)
  case less
  show ?case
  proof (cases "length t < b * 2")
    case True
    then show ?thesis using less.prems by (simp add: safe_sprintf_loop_text [of t b])
  next
    case False
    then have "length t - b * 2 < length t - b" using less.prems by simp
    then show ?thesis
      using less False by (simp add: safe_sprintf_loop_text [of t b])
  qed
qed

lemma safe_sprintf_loop_Some:
  assumes "safe_sprintf_loop b conversions = Some r"
  shows "0 < b \<or> fst (vsnprintf 0 conversions) < 0"
proof (rule safe_sprintf_loop.raw_induct [OF _ assms, where P = "\<lambda>b conversions r. 0 < b \<or> fst (vsnprintf 0 conversions) < 0"])
  fix f :: "nat \<Rightarrow> c_string option \<Rightarrow> c_string option option" and b t r
  assume IH: "\<And>b t r. f b t = Some r \<Longrightarrow> 0 < b \<or> fst (vsnprintf 0 t) < 0"
    and run: "(let b' = b * 2; (written, buf) = vsnprintf b' t in
      if written < 0 then Some None else if nat written < b' then Some (Some buf) else f b' t) = Some r"
  show "0 < b \<or> fst (vsnprintf 0 t) < 0"
  proof (cases "b = 0")
    case True
    then show ?thesis using IH [of 0 t r] run by (auto simp: Let_def split: prod.splits if_splits)
  qed simp
qed

text \<open>C36: \<open>safe_sprintf\<close> returns NULL exactly if a conversion of the format fails or the text is longer than
  an \<open>int\<close> can tell. Otherwise a format that is not empty comes back with the whole formatted text, never a
  part that \<open>vsnprintf\<close> cut off, however short the format is; with the empty format the buffer size stays zero
  and the loop never ends.\<close>

theorem safe_sprintf_total:
  "safe_sprintf fmt conversions =
     (case conversions of
        None \<Rightarrow> Some None
      | Some t \<Rightarrow> if INT_MAX < length t then Some None else if fmt = [] then None else Some (Some t))"
proof (cases "fst (vsnprintf (length fmt * 2) conversions) < 0")
  case True
  then show ?thesis
    using safe_sprintf_loop_error [OF True]
    by (auto simp: safe_sprintf_def vsnprintf_def split: option.splits if_splits)
next
  case False
  then obtain t where t: "conversions = Some t" "length t \<le> INT_MAX"
    by (auto simp: vsnprintf_def split: option.splits if_splits)
  then have "safe_sprintf_loop 0 conversions = None"
    using safe_sprintf_loop_Some [of 0 conversions] by (cases "safe_sprintf_loop 0 conversions") (auto simp: vsnprintf_def)
  then show ?thesis using t by (simp add: safe_sprintf_def safe_sprintf_loop_pos)
qed

text \<open>C37: a name with a set index gets the index in the place of its first percent sign, all other
  characters stay as they are, whenever the format and the name fit their buffers; a name whose
  format does not fit its buffer makes the code write past it although the name passed the check.\<close>

theorem get_set_var_name_int_spec:
  assumes "CHR ''%'' \<notin> set p"
  shows "(length p + 2 + length q + length (filter (\<lambda>c. c = CHR ''%'') q) \<le> VAR_SIZE \<longrightarrow>
      length p + length (int_to_dec (sint i)) + length q < VAR_SIZE \<longrightarrow>
      get_set_var_name_int (p @ CHR ''%'' # q) i s = Done (p @ int_to_dec (sint i) @ q) s)
    \<and> (length p + 1 + length q < VAR_SIZE \<longrightarrow>
      VAR_SIZE < length p + 2 + length q + length (filter (\<lambda>c. c = CHR ''%'') q) \<longrightarrow>
      get_set_var_name_int (p @ CHR ''%'' # q) i s = Failed Invalid_access)"
  using assms
  by (simp add: get_set_var_name_int_def Let_def sprintf_set_var_format
      length_set_var_format_append length_set_var_format_True)

theorem get_set_var_name_int_spec_witness:
  "get_set_var_name_int ''IP_NET_%'' 12 () = Done ''IP_NET_12'' ()
   \<and> get_set_var_name_int (CHR ''%'' # replicate 100 (CHR ''%'')) 1 () = Failed Invalid_access"
proof -
  have "int_to_dec (sint (12 :: u32)) = ''12''" by code_simp
  then show ?thesis
    using get_set_var_name_int_spec [of "''IP_NET_''" "[]" 12 "()"]
      get_set_var_name_int_spec [of "[]" "replicate 100 (CHR ''%'')" 1 "()"]
    by (simp add: VAR_SIZE_def)
qed

end
