(* ===== verification/Quoted_Text.thy ===== *)
theory Quoted_Text
  imports C_Strings
begin

text \<open>
  The text handling of \<open>grammar/common.c\<close>: how the scanners turn the characters between
  quotes, and the characters of a comment, into the value that is stored. The in-place loops
  read with \<open>s\<close> and write with \<open>tgt\<close>, which never overtakes \<open>s\<close>; a loop is a recursion on
  the characters not yet read whose value is what is written.
\<close>

section \<open>Operations\<close>

abbreviation CR :: char where "CR \<equiv> CHR 0x0D"
abbreviation LF :: char where "LF \<equiv> CHR 0x0A"
abbreviation backslash :: char where "backslash \<equiv> CHR 0x5C"

record identifier_t =
  id_name :: c_string
  id_valid :: bool

definition identifier_create :: "c_string \<Rightarrow> bool \<Rightarrow> identifier_t" where
  "identifier_create name valid = \<lparr>id_name = name, id_valid = valid\<rparr>"

fun canonicalize_line_endings :: "c_string \<Rightarrow> c_string" where
  "canonicalize_line_endings [] = []"
| "canonicalize_line_endings (c # s) =
     (if c \<noteq> CR then c # canonicalize_line_endings s else canonicalize_line_endings s)"

fun remove_escape_loop :: "bool \<Rightarrow> c_string \<Rightarrow> c_string" where
  "remove_escape_loop escape_active [] = []"
| "remove_escape_loop escape_active (c # s) =
     (if c = backslash \<and> \<not> escape_active then remove_escape_loop True s
      else if c \<noteq> LF \<or> \<not> escape_active then c # remove_escape_loop False s
      else remove_escape_loop False s)"

definition remove_escape_characters :: "c_string \<Rightarrow> c_string" where
  "remove_escape_characters s = remove_escape_loop False s"

definition line_space :: "char \<Rightarrow> bool" where
  "line_space c = (c = CHR '' '' \<or> c = CHR 0x09 \<or> c = CHR 0x0B \<or> c = LF)"

definition eat_line_space :: "bool \<Rightarrow> c_string \<Rightarrow> c_string" where
  "eat_line_space comment_mode s =
     (case dropWhile line_space s of
        [] \<Rightarrow> []
      | c # t \<Rightarrow> if comment_mode then dropWhile line_space t else c # t)"

lemma length_eat_line_space: "length (eat_line_space cm s) \<le> length s"
proof (cases "dropWhile line_space s")
  case (Cons c t)
  have "length (c # t) \<le> length s" by (metis Cons length_dropWhile_le)
  moreover have "length (dropWhile line_space t) \<le> length t" by (rule length_dropWhile_le)
  ultimately show ?thesis by (simp add: eat_line_space_def Cons)
next
  case Nil
  show ?thesis unfolding eat_line_space_def Nil by simp
qed

function concatenate_lines_loop :: "bool \<Rightarrow> bool \<Rightarrow> c_string \<Rightarrow> c_string" where
  "concatenate_lines_loop comment_mode eat_ws [] = []"
| "concatenate_lines_loop comment_mode eat_ws (c # s) =
     (if c = LF then CHR '' '' # concatenate_lines_loop comment_mode False (eat_line_space comment_mode s)
      else if eat_ws then concatenate_lines_loop comment_mode False (eat_line_space comment_mode (c # s))
      else c # concatenate_lines_loop comment_mode False s)"
  by pat_completeness auto
termination
proof (relation "measure (\<lambda>(cm, eat, s). 2 * length s + (if eat then 1 else 0))")
  show "((cm, False, eat_line_space cm s), cm, eat, c # s)
      \<in> measure (\<lambda>(cm, eat, s). 2 * length s + (if eat then 1 else 0))" for cm eat c s
    using length_eat_line_space [of cm s] by simp
  show "((cm, False, eat_line_space cm (c # s)), cm, eat, c # s)
      \<in> measure (\<lambda>(cm, eat, s). 2 * length s + (if eat then 1 else 0))" if eat for cm eat c s
    using length_eat_line_space [of cm "c # s"] that by simp
qed auto

definition concatenate_lines :: "c_string \<Rightarrow> bool \<Rightarrow> c_string" where
  "concatenate_lines s comment_mode = concatenate_lines_loop comment_mode comment_mode s"

record qstr_t =
  delim :: char
  qstr_value :: c_string
  qstr_valid :: bool

definition qstr_create :: "char \<Rightarrow> c_string \<Rightarrow> bool \<Rightarrow> bool \<Rightarrow> qstr_t" where
  "qstr_create d value deescape valid =
     (let v = canonicalize_line_endings value;
          v' = (if deescape then remove_escape_characters v else v)
      in \<lparr>delim = d, qstr_value = concatenate_lines v' False, qstr_valid = valid\<rparr>)"

definition comment_create :: "c_string \<Rightarrow> c_string" where
  "comment_create value = concatenate_lines (canonicalize_line_endings value) True"

record number_t =
  number_value :: u32
  number_valid :: bool

definition number_create :: "u32 \<Rightarrow> bool \<Rightarrow> number_t" where
  "number_create value valid = \<lparr>number_value = value, number_valid = valid\<rparr>"

section \<open>Lemmas\<close>

lemma canonicalize_filter: "canonicalize_line_endings s = filter (\<lambda>c. c \<noteq> CR) s"
  by (induction s) auto

lemma canonicalize_id: "CR \<notin> set s \<Longrightarrow> canonicalize_line_endings s = s"
  by (induction s) auto

lemma remove_escape_set: "set (remove_escape_loop b s) \<subseteq> set s"
  by (induction b s rule: remove_escape_loop.induct) auto

lemma eat_line_space_set: "set (eat_line_space cm s) \<subseteq> set s"
  by (auto simp: eat_line_space_def split: list.splits dest!: set_dropWhileD)
     (metis list.set_intros set_dropWhileD)+

lemma concatenate_lines_set:
  "set (concatenate_lines_loop cm eat s) \<subseteq> insert (CHR '' '') (set s - {LF})"
proof (induction cm eat s rule: concatenate_lines_loop.induct)
  case (2 cm eat c s)
  note eat = eat_line_space_set [of cm s] eat_line_space_set [of cm "c # s"]
  show ?case
  proof (cases "c = LF")
    case True
    then show ?thesis using 2(1) eat by (auto dest: subsetD)
  next
    case False
    then show ?thesis
      using 2(2,3) eat by (cases eat) (auto dest!: subsetD)
  qed
qed simp

lemma concatenate_lines_id: "LF \<notin> set s \<Longrightarrow> concatenate_lines_loop cm False s = s"
  by (induction s) auto

lemma concatenate_lines_prefix:
  "LF \<notin> set p \<Longrightarrow> concatenate_lines_loop cm False (p @ s) = p @ concatenate_lines_loop cm False s"
  by (induction p) auto

section \<open>Properties\<close>

text \<open>The value of a quoted string never holds a line break, whatever the scanner passed, and a
  string on one line without escapes is stored as it is.\<close>

lemma qstr_create_single_line:
  "CR \<notin> set (qstr_value (qstr_create d v deescape valid))
   \<and> LF \<notin> set (qstr_value (qstr_create d v deescape valid))
   \<and> (CR \<notin> set v \<and> LF \<notin> set v \<longrightarrow> qstr_value (qstr_create d v False valid) = v)"
proof -
  let ?v = "canonicalize_line_endings v"
  have "CR \<notin> set ?v" by (simp add: canonicalize_filter)
  then have "CR \<notin> set (if deescape then remove_escape_characters ?v else ?v)"
    using remove_escape_set [of False ?v] by (auto simp: remove_escape_characters_def)
  then have "CR \<notin> set (qstr_value (qstr_create d v deescape valid))
      \<and> LF \<notin> set (qstr_value (qstr_create d v deescape valid))"
    using concatenate_lines_set [of False False "if deescape then remove_escape_characters ?v else ?v"]
    by (auto simp: qstr_create_def concatenate_lines_def Let_def)
  then show ?thesis
    by (simp add: qstr_create_def concatenate_lines_def canonicalize_id concatenate_lines_id)
qed

primrec comment_lines :: "c_string list \<Rightarrow> c_string" where
  "comment_lines [] = []"
| "comment_lines (t # ts) = CHR ''#'' # CHR '' '' # t @ (if ts = [] then [] else LF # comment_lines ts)"

primrec join_blank :: "c_string list \<Rightarrow> c_string" where
  "join_blank [] = []"
| "join_blank (t # ts) = t @ (if ts = [] then [] else CHR '' '' # join_blank ts)"

definition comment_text :: "c_string \<Rightarrow> bool" where
  "comment_text t = (t \<noteq> [] \<and> \<not> line_space (hd t) \<and> CR \<notin> set t \<and> LF \<notin> set t)"

lemma eat_line_space_comment:
  "comment_text t \<Longrightarrow> eat_line_space True (CHR ''#'' # CHR '' '' # t @ s) = t @ s"
  by (cases t) (auto simp: eat_line_space_def comment_text_def line_space_def)

lemma concatenate_comment_lines:
  assumes "list_all comment_text ts" and "ts \<noteq> []"
  shows "concatenate_lines_loop True False (eat_line_space True (comment_lines ts)) = join_blank ts"
  using assms
proof (induction ts)
  case (Cons t ts)
  then have t: "comment_text t" "LF \<notin> set t" by (auto simp: comment_text_def)
  show ?case
  proof (cases "ts = []")
    case True
    then show ?thesis
      using eat_line_space_comment [OF t(1), of "[]"] t(2) by (simp add: concatenate_lines_id)
  next
    case False
    then show ?thesis
      using Cons t by (simp add: eat_line_space_comment concatenate_lines_prefix)
  qed
qed simp

text \<open>A comment of several lines, each a number sign, a blank and a text that starts with a visible
  character, becomes the texts joined by single blanks.\<close>

lemma comment_create_joins_lines:
  assumes "list_all comment_text ts" and "ts \<noteq> []"
  shows "comment_create (comment_lines ts) = join_blank ts"
proof -
  have "CR \<notin> set (comment_lines ts)"
    using assms(1) by (induction ts) (auto simp: comment_text_def)
  moreover obtain r where "comment_lines ts = CHR ''#'' # r"
    using assms(2) by (cases ts) auto
  ultimately show ?thesis
    using concatenate_comment_lines [OF assms]
    by (simp add: comment_create_def concatenate_lines_def canonicalize_id)
qed

text \<open>An empty line inside a comment is not skipped as such: the blanks eaten after its number sign
  include the line break, so that the number sign of the next line becomes part of the text.\<close>

lemma comment_create_empty_line:
  assumes "comment_text t"
  shows "comment_create (CHR ''#'' # LF # CHR ''#'' # CHR '' '' # t) = CHR ''#'' # CHR '' '' # t"
  using assms
  by (simp add: comment_create_def concatenate_lines_def canonicalize_id eat_line_space_def
      line_space_def comment_text_def concatenate_lines_id)

end
