(* ===== verification/Expr_Syntax.thy ===== *)
theory Expr_Syntax
  imports Quoted_Text
begin

text \<open>
  The expressions of \<open>expression/\<close>: their data model and the operations that do not evaluate
  them (creation, printing, cloning, comparison, casts of literals). Expressions
  are trees whose nodes carry the static type, which the type checker fills in, and the scope.
  The method table of a node is fixed by its kind, so that the generic functions of
  \<open>expr.c\<close> recurse on the tree and call the function of the kind, which gets the results for
  the arguments.
\<close>

section \<open>Data\<close>

type_synonym var_id = nat
type_synonym scope_id = nat

record var_instance_t =
  inst_var :: var_id
  indices :: "u32 list"

datatype expr_type = EXPR_TYPE_UNKNOWN | EXPR_TYPE_ERROR | EXPR_TYPE_STRING | EXPR_TYPE_INTEGER | EXPR_TYPE_BOOLEAN

datatype expr_kind = EXPR_KIND_LITERAL | EXPR_KIND_LOGICAL_NOT | EXPR_KIND_LOGICAL_AND | EXPR_KIND_LOGICAL_OR
  | EXPR_KIND_VARIABLE | EXPR_KIND_EQUAL | EXPR_KIND_UNEQUAL | EXPR_KIND_MATCH | EXPR_KIND_TOBOOL

text \<open>The union of a literal is tagged by its type; an \<open>int\<close> is a 32-bit word.\<close>

datatype literal_value = Error_value c_string | String_value c_string | Int_value u32 | Bool_value bool

record expr_literal_t =
  lit_scope :: scope_id
  lit_value :: literal_value

datatype expr_variable_state_t =
    EXPR_VARIABLE_STATE_UNRESOLVED c_string
  | EXPR_VARIABLE_STATE_RESOLVED var_instance_t

datatype expr_t =
    Literal expr_literal_t
  | Logical_not expr_type scope_id expr_t
  | Logical_and expr_type scope_id expr_t expr_t
  | Logical_or expr_type scope_id expr_t expr_t
  | Variable expr_type scope_id expr_variable_state_t
  | Equal expr_type scope_id expr_t expr_t
  | Unequal expr_type scope_id expr_t expr_t
  | Match expr_type scope_id expr_t expr_t
  | Tobool expr_type scope_id expr_t

primrec literal_value_type :: "literal_value \<Rightarrow> expr_type" where
  "literal_value_type (Error_value _) = EXPR_TYPE_ERROR"
| "literal_value_type (String_value _) = EXPR_TYPE_STRING"
| "literal_value_type (Int_value _) = EXPR_TYPE_INTEGER"
| "literal_value_type (Bool_value _) = EXPR_TYPE_BOOLEAN"

definition lit_type :: "expr_literal_t \<Rightarrow> expr_type" where
  "lit_type l = literal_value_type (lit_value l)"

primrec expr_get_type :: "expr_t \<Rightarrow> expr_type" where
  "expr_get_type (Literal l) = lit_type l"
| "expr_get_type (Logical_not t _ _) = t"
| "expr_get_type (Logical_and t _ _ _) = t"
| "expr_get_type (Logical_or t _ _ _) = t"
| "expr_get_type (Variable t _ _) = t"
| "expr_get_type (Equal t _ _ _) = t"
| "expr_get_type (Unequal t _ _ _) = t"
| "expr_get_type (Match t _ _ _) = t"
| "expr_get_type (Tobool t _ _) = t"

primrec expr_get_kind :: "expr_t \<Rightarrow> expr_kind" where
  "expr_get_kind (Literal _) = EXPR_KIND_LITERAL"
| "expr_get_kind (Logical_not _ _ _) = EXPR_KIND_LOGICAL_NOT"
| "expr_get_kind (Logical_and _ _ _ _) = EXPR_KIND_LOGICAL_AND"
| "expr_get_kind (Logical_or _ _ _ _) = EXPR_KIND_LOGICAL_OR"
| "expr_get_kind (Variable _ _ _) = EXPR_KIND_VARIABLE"
| "expr_get_kind (Equal _ _ _ _) = EXPR_KIND_EQUAL"
| "expr_get_kind (Unequal _ _ _ _) = EXPR_KIND_UNEQUAL"
| "expr_get_kind (Match _ _ _ _) = EXPR_KIND_MATCH"
| "expr_get_kind (Tobool _ _ _) = EXPR_KIND_TOBOOL"

primrec expr_get_scope :: "expr_t \<Rightarrow> scope_id" where
  "expr_get_scope (Literal l) = lit_scope l"
| "expr_get_scope (Logical_not _ s _) = s"
| "expr_get_scope (Logical_and _ s _ _) = s"
| "expr_get_scope (Logical_or _ s _ _) = s"
| "expr_get_scope (Variable _ s _) = s"
| "expr_get_scope (Equal _ s _ _) = s"
| "expr_get_scope (Unequal _ s _ _) = s"
| "expr_get_scope (Match _ s _ _) = s"
| "expr_get_scope (Tobool _ s _) = s"

primrec expr_type_to_string :: "expr_type \<Rightarrow> ('s, c_string) action" where
  "expr_type_to_string EXPR_TYPE_ERROR = ret ''error''"
| "expr_type_to_string EXPR_TYPE_STRING = ret ''string''"
| "expr_type_to_string EXPR_TYPE_INTEGER = ret ''integer''"
| "expr_type_to_string EXPR_TYPE_BOOLEAN = ret ''boolean''"
| "expr_type_to_string EXPR_TYPE_UNKNOWN = raise Assertion_failed"

primrec expr_kind_to_string :: "expr_kind \<Rightarrow> c_string" where
  "expr_kind_to_string EXPR_KIND_LITERAL = ''literal''"
| "expr_kind_to_string EXPR_KIND_LOGICAL_NOT = ''logical not''"
| "expr_kind_to_string EXPR_KIND_LOGICAL_AND = ''logical and''"
| "expr_kind_to_string EXPR_KIND_LOGICAL_OR = ''logical or''"
| "expr_kind_to_string EXPR_KIND_VARIABLE = ''variable''"
| "expr_kind_to_string EXPR_KIND_EQUAL = ''equal''"
| "expr_kind_to_string EXPR_KIND_UNEQUAL = ''unequal''"
| "expr_kind_to_string EXPR_KIND_MATCH = ''match''"
| "expr_kind_to_string EXPR_KIND_TOBOOL = ''tobool''"

section \<open>Creation\<close>

definition expr_literal_create_error :: "scope_id \<Rightarrow> c_string \<Rightarrow> expr_literal_t" where
  "expr_literal_create_error scope value = \<lparr>lit_scope = scope, lit_value = Error_value value\<rparr>"

definition expr_literal_create_string :: "scope_id \<Rightarrow> c_string \<Rightarrow> expr_literal_t" where
  "expr_literal_create_string scope value = \<lparr>lit_scope = scope, lit_value = String_value value\<rparr>"

definition expr_literal_create_integer :: "scope_id \<Rightarrow> u32 \<Rightarrow> expr_literal_t" where
  "expr_literal_create_integer scope value = \<lparr>lit_scope = scope, lit_value = Int_value value\<rparr>"

definition expr_literal_create_boolean :: "scope_id \<Rightarrow> bool \<Rightarrow> expr_literal_t" where
  "expr_literal_create_boolean scope value = \<lparr>lit_scope = scope, lit_value = Bool_value value\<rparr>"

definition expr_literal_get_value :: "expr_literal_t \<Rightarrow> literal_value" where
  "expr_literal_get_value expr = lit_value expr"

definition expr_logical_not_create :: "scope_id \<Rightarrow> expr_t \<Rightarrow> expr_t" where
  "expr_logical_not_create scope arg = Logical_not EXPR_TYPE_UNKNOWN scope arg"

definition expr_logical_and_create :: "scope_id \<Rightarrow> expr_t \<Rightarrow> expr_t \<Rightarrow> expr_t" where
  "expr_logical_and_create scope arg1 arg2 = Logical_and EXPR_TYPE_UNKNOWN scope arg1 arg2"

definition expr_logical_or_create :: "scope_id \<Rightarrow> expr_t \<Rightarrow> expr_t \<Rightarrow> expr_t" where
  "expr_logical_or_create scope arg1 arg2 = Logical_or EXPR_TYPE_UNKNOWN scope arg1 arg2"

definition expr_equal_create :: "scope_id \<Rightarrow> expr_t \<Rightarrow> expr_t \<Rightarrow> expr_t" where
  "expr_equal_create scope arg1 arg2 = Equal EXPR_TYPE_UNKNOWN scope arg1 arg2"

definition expr_unequal_create :: "scope_id \<Rightarrow> expr_t \<Rightarrow> expr_t \<Rightarrow> expr_t" where
  "expr_unequal_create scope arg1 arg2 = Unequal EXPR_TYPE_UNKNOWN scope arg1 arg2"

definition expr_match_create :: "scope_id \<Rightarrow> expr_t \<Rightarrow> expr_t \<Rightarrow> expr_t" where
  "expr_match_create scope arg regex = Match EXPR_TYPE_UNKNOWN scope arg regex"

definition expr_tobool_create :: "scope_id \<Rightarrow> expr_t \<Rightarrow> expr_t" where
  "expr_tobool_create scope arg = Tobool EXPR_TYPE_UNKNOWN scope arg"

text \<open>The static type of a resolved variable is the expression type of the type of the variable;
  \<open>var_expr_type\<close> stands for \<open>vartype_get_expression_type(var_get_type(var))\<close>.\<close>

definition expr_variable_create :: "(var_id \<Rightarrow> expr_type) \<Rightarrow> scope_id \<Rightarrow> var_instance_t \<Rightarrow> expr_t" where
  "expr_variable_create var_expr_type scope inst =
     Variable (var_expr_type (inst_var inst)) scope (EXPR_VARIABLE_STATE_RESOLVED inst)"

definition expr_variable_create_by_name :: "scope_id \<Rightarrow> c_string \<Rightarrow> expr_t" where
  "expr_variable_create_by_name scope name =
     Variable EXPR_TYPE_UNKNOWN scope (EXPR_VARIABLE_STATE_UNRESOLVED name)"

section \<open>Printing\<close>

abbreviation quote :: char where "quote \<equiv> CHR 0x22"

definition needs_escape :: "char \<Rightarrow> bool" where
  "needs_escape c = (c = quote \<or> c = backslash)"

text \<open>The loop of \<open>expr_literal_quote\<close>; \<open>strcspn\<close> counts the characters before the first one
  that needs an escape.\<close>

function expr_literal_quote_loop :: "c_string \<Rightarrow> c_string \<Rightarrow> c_string" where
  "expr_literal_quote_loop result p =
     (if p = [] then result
      else
        (let len = length (takeWhile (\<lambda>c. \<not> needs_escape c) p) in
         case drop len p of
           c # q \<Rightarrow> expr_literal_quote_loop (result @ take len p @ [backslash, c]) q
         | [] \<Rightarrow> expr_literal_quote_loop (result @ p) []))"
  by pat_completeness auto
termination
proof (relation "measure (\<lambda>(r, p). length p)")
  fix result p :: c_string and len c q
  assume "p \<noteq> []" "drop len p = c # q"
  then have "length (c # q) \<le> length p" by (metis diff_le_self length_drop)
  then show "((result @ take len p @ [backslash, c], q), result, p) \<in> measure (\<lambda>(r, p). length p)"
    by simp
qed auto

declare expr_literal_quote_loop.simps [simp del]

definition expr_literal_quote :: "c_string \<Rightarrow> c_string" where
  "expr_literal_quote s = expr_literal_quote_loop [quote] s @ [quote]"

definition expr_literal_toString :: "expr_literal_t \<Rightarrow> c_string" where
  "expr_literal_toString l =
     (case lit_value l of
        Error_value s \<Rightarrow> s
      | String_value s \<Rightarrow> expr_literal_quote s
      | Int_value i \<Rightarrow> int_to_dec (sint i)
      | Bool_value b \<Rightarrow> if b then ''yes'' else ''no'')"

definition expr_logical_not_toString :: "c_string \<Rightarrow> c_string" where
  "expr_logical_not_toString arg_str = ''!('' @ arg_str @ '')''"

definition expr_logical_and_toString :: "c_string \<Rightarrow> c_string \<Rightarrow> c_string" where
  "expr_logical_and_toString arg1_str arg2_str = ''('' @ arg1_str @ '') && ('' @ arg2_str @ '')''"

definition expr_logical_or_toString :: "c_string \<Rightarrow> c_string \<Rightarrow> c_string" where
  "expr_logical_or_toString arg1_str arg2_str = ''('' @ arg1_str @ '') || ('' @ arg2_str @ '')''"

definition expr_equal_toString :: "c_string \<Rightarrow> c_string \<Rightarrow> c_string" where
  "expr_equal_toString arg1_str arg2_str = ''('' @ arg1_str @ '') == ('' @ arg2_str @ '')''"

definition expr_unequal_toString :: "c_string \<Rightarrow> c_string \<Rightarrow> c_string" where
  "expr_unequal_toString arg1_str arg2_str = ''('' @ arg1_str @ '') != ('' @ arg2_str @ '')''"

definition expr_match_toString :: "c_string \<Rightarrow> c_string \<Rightarrow> c_string" where
  "expr_match_toString arg_str regex_str = ''('' @ arg_str @ '') =~ ('' @ regex_str @ '')''"

definition expr_tobool_toString :: "c_string \<Rightarrow> c_string" where
  "expr_tobool_toString arg_str = ''['' @ arg_str @ '']''"

definition expr_variable_toString :: "(var_instance_t \<Rightarrow> c_string) \<Rightarrow> expr_variable_state_t \<Rightarrow> c_string" where
  "expr_variable_toString inst_to_string state =
     (case state of
        EXPR_VARIABLE_STATE_RESOLVED inst \<Rightarrow> inst_to_string inst
      | EXPR_VARIABLE_STATE_UNRESOLVED name \<Rightarrow> name)"

primrec expr_to_string :: "(var_instance_t \<Rightarrow> c_string) \<Rightarrow> expr_t \<Rightarrow> c_string" where
  "expr_to_string f (Literal l) = expr_literal_toString l"
| "expr_to_string f (Logical_not t s a) = expr_logical_not_toString (expr_to_string f a)"
| "expr_to_string f (Logical_and t s a b) = expr_logical_and_toString (expr_to_string f a) (expr_to_string f b)"
| "expr_to_string f (Logical_or t s a b) = expr_logical_or_toString (expr_to_string f a) (expr_to_string f b)"
| "expr_to_string f (Variable t s v) = expr_variable_toString f v"
| "expr_to_string f (Equal t s a b) = expr_equal_toString (expr_to_string f a) (expr_to_string f b)"
| "expr_to_string f (Unequal t s a b) = expr_unequal_toString (expr_to_string f a) (expr_to_string f b)"
| "expr_to_string f (Match t s a b) = expr_match_toString (expr_to_string f a) (expr_to_string f b)"
| "expr_to_string f (Tobool t s a) = expr_tobool_toString (expr_to_string f a)"

section \<open>Cloning\<close>

definition expr_literal_clone :: "expr_literal_t \<Rightarrow> expr_literal_t" where
  "expr_literal_clone l =
     (case lit_value l of
        Error_value s \<Rightarrow> \<lparr>lit_scope = lit_scope l, lit_value = Error_value s\<rparr>
      | String_value s \<Rightarrow> \<lparr>lit_scope = lit_scope l, lit_value = String_value s\<rparr>
      | Int_value i \<Rightarrow> \<lparr>lit_scope = lit_scope l, lit_value = Int_value i\<rparr>
      | Bool_value b \<Rightarrow> \<lparr>lit_scope = lit_scope l, lit_value = Bool_value b\<rparr>)"

definition expr_variable_clone :: "(var_id \<Rightarrow> expr_type) \<Rightarrow> scope_id \<Rightarrow> expr_variable_state_t \<Rightarrow> expr_t" where
  "expr_variable_clone var_expr_type scope state =
     (case state of
        EXPR_VARIABLE_STATE_RESOLVED inst \<Rightarrow>
          expr_variable_create var_expr_type scope \<lparr>inst_var = inst_var inst, indices = indices inst\<rparr>
      | EXPR_VARIABLE_STATE_UNRESOLVED name \<Rightarrow> expr_variable_create_by_name scope name)"

definition expr_logical_not_clone :: "scope_id \<Rightarrow> expr_t \<Rightarrow> expr_t" where
  "expr_logical_not_clone scope arg_clone = expr_logical_not_create scope arg_clone"

definition expr_logical_and_clone :: "scope_id \<Rightarrow> expr_t \<Rightarrow> expr_t \<Rightarrow> expr_t" where
  "expr_logical_and_clone scope arg1_clone arg2_clone = expr_logical_and_create scope arg1_clone arg2_clone"

definition expr_logical_or_clone :: "scope_id \<Rightarrow> expr_t \<Rightarrow> expr_t \<Rightarrow> expr_t" where
  "expr_logical_or_clone scope arg1_clone arg2_clone = expr_logical_or_create scope arg1_clone arg2_clone"

definition expr_equal_clone :: "scope_id \<Rightarrow> expr_t \<Rightarrow> expr_t \<Rightarrow> expr_t" where
  "expr_equal_clone scope arg1_clone arg2_clone = expr_equal_create scope arg1_clone arg2_clone"

definition expr_unequal_clone :: "scope_id \<Rightarrow> expr_t \<Rightarrow> expr_t \<Rightarrow> expr_t" where
  "expr_unequal_clone scope arg1_clone arg2_clone = expr_unequal_create scope arg1_clone arg2_clone"

definition expr_match_clone :: "scope_id \<Rightarrow> expr_t \<Rightarrow> expr_t \<Rightarrow> expr_t" where
  "expr_match_clone scope arg_clone regex_clone = expr_match_create scope arg_clone regex_clone"

definition expr_tobool_clone :: "scope_id \<Rightarrow> expr_t \<Rightarrow> expr_t" where
  "expr_tobool_clone scope arg_clone = expr_tobool_create scope arg_clone"

primrec expr_clone :: "(var_id \<Rightarrow> expr_type) \<Rightarrow> expr_t \<Rightarrow> expr_t" where
  "expr_clone ty (Literal l) = Literal (expr_literal_clone l)"
| "expr_clone ty (Logical_not t s a) = expr_logical_not_clone s (expr_clone ty a)"
| "expr_clone ty (Logical_and t s a b) = expr_logical_and_clone s (expr_clone ty a) (expr_clone ty b)"
| "expr_clone ty (Logical_or t s a b) = expr_logical_or_clone s (expr_clone ty a) (expr_clone ty b)"
| "expr_clone ty (Variable t s v) = expr_variable_clone ty s v"
| "expr_clone ty (Equal t s a b) = expr_equal_clone s (expr_clone ty a) (expr_clone ty b)"
| "expr_clone ty (Unequal t s a b) = expr_unequal_clone s (expr_clone ty a) (expr_clone ty b)"
| "expr_clone ty (Match t s a b) = expr_match_clone s (expr_clone ty a) (expr_clone ty b)"
| "expr_clone ty (Tobool t s a) = expr_tobool_clone s (expr_clone ty a)"

section \<open>Comparison\<close>

text \<open>
  \<open>expr_equal\<close> compares kind and type and calls the method of the kind, which compares the
  arguments in turn, the right one only if the left ones are equal. The only assertion is that two
  variable expressions of one type are in the same state.
\<close>

definition expr_literal_equal :: "expr_literal_t \<Rightarrow> expr_literal_t \<Rightarrow> bool" where
  "expr_literal_equal l1 l2 = (lit_value l1 = lit_value l2)"

definition expr_variable_equal :: "expr_variable_state_t \<Rightarrow> expr_variable_state_t \<Rightarrow> ('s, bool) action" where
  "expr_variable_equal v1 v2 =
     (case (v1, v2) of
        (EXPR_VARIABLE_STATE_RESOLVED i1, EXPR_VARIABLE_STATE_RESOLVED i2) \<Rightarrow>
          ret (inst_var i1 = inst_var i2 \<and> length (indices i1) = length (indices i2) \<and> indices i1 = indices i2)
      | (EXPR_VARIABLE_STATE_UNRESOLVED n1, EXPR_VARIABLE_STATE_UNRESOLVED n2) \<Rightarrow> ret (n1 = n2)
      | _ \<Rightarrow> raise Assertion_failed)"

definition expr_logical_and_equal :: "('s, bool) action \<Rightarrow> ('s, bool) action \<Rightarrow> ('s, bool) action" where
  "expr_logical_and_equal args1 args2 = andthen args1 (\<lambda>r. if r then args2 else ret False)"

definition expr_logical_or_equal :: "('s, bool) action \<Rightarrow> ('s, bool) action \<Rightarrow> ('s, bool) action" where
  "expr_logical_or_equal args1 args2 = andthen args1 (\<lambda>r. if r then args2 else ret False)"

definition expr_equal_equal :: "('s, bool) action \<Rightarrow> ('s, bool) action \<Rightarrow> ('s, bool) action" where
  "expr_equal_equal args1 args2 = andthen args1 (\<lambda>r. if r then args2 else ret False)"

definition expr_unequal_equal :: "('s, bool) action \<Rightarrow> ('s, bool) action \<Rightarrow> ('s, bool) action" where
  "expr_unequal_equal args1 args2 = andthen args1 (\<lambda>r. if r then args2 else ret False)"

definition expr_match_equal :: "('s, bool) action \<Rightarrow> ('s, bool) action \<Rightarrow> ('s, bool) action" where
  "expr_match_equal args regexes = andthen args (\<lambda>r. if r then regexes else ret False)"

definition expr_logical_not_equal :: "('s, bool) action \<Rightarrow> ('s, bool) action" where
  "expr_logical_not_equal args = args"

definition expr_tobool_equal :: "('s, bool) action \<Rightarrow> ('s, bool) action" where
  "expr_tobool_equal args = args"

text \<open>The test for equal types before the method of the kind is called.\<close>

definition same_type :: "expr_type \<Rightarrow> expr_type \<Rightarrow> ('s, bool) action \<Rightarrow> ('s, bool) action" where
  "same_type t1 t2 method = (if t1 \<noteq> t2 then ret False else method)"

primrec expr_equal :: "expr_t \<Rightarrow> expr_t \<Rightarrow> ('s, bool) action" where
  "expr_equal (Literal l1) e =
     (case e of Literal l2 \<Rightarrow> same_type (lit_type l1) (lit_type l2) (ret (expr_literal_equal l1 l2))
      | _ \<Rightarrow> ret False)"
| "expr_equal (Variable t1 s1 v1) e =
     (case e of Variable t2 s2 v2 \<Rightarrow> same_type t1 t2 (expr_variable_equal v1 v2) | _ \<Rightarrow> ret False)"
| "expr_equal (Logical_not t1 s1 a1) e =
     (case e of Logical_not t2 s2 a2 \<Rightarrow> same_type t1 t2 (expr_logical_not_equal (expr_equal a1 a2))
      | _ \<Rightarrow> ret False)"
| "expr_equal (Tobool t1 s1 a1) e =
     (case e of Tobool t2 s2 a2 \<Rightarrow> same_type t1 t2 (expr_tobool_equal (expr_equal a1 a2))
      | _ \<Rightarrow> ret False)"
| "expr_equal (Logical_and t1 s1 a1 b1) e =
     (case e of Logical_and t2 s2 a2 b2 \<Rightarrow> same_type t1 t2 (expr_logical_and_equal (expr_equal a1 a2) (expr_equal b1 b2))
      | _ \<Rightarrow> ret False)"
| "expr_equal (Logical_or t1 s1 a1 b1) e =
     (case e of Logical_or t2 s2 a2 b2 \<Rightarrow> same_type t1 t2 (expr_logical_or_equal (expr_equal a1 a2) (expr_equal b1 b2))
      | _ \<Rightarrow> ret False)"
| "expr_equal (Equal t1 s1 a1 b1) e =
     (case e of Equal t2 s2 a2 b2 \<Rightarrow> same_type t1 t2 (expr_equal_equal (expr_equal a1 a2) (expr_equal b1 b2))
      | _ \<Rightarrow> ret False)"
| "expr_equal (Unequal t1 s1 a1 b1) e =
     (case e of Unequal t2 s2 a2 b2 \<Rightarrow> same_type t1 t2 (expr_unequal_equal (expr_equal a1 a2) (expr_equal b1 b2))
      | _ \<Rightarrow> ret False)"
| "expr_equal (Match t1 s1 a1 b1) e =
     (case e of Match t2 s2 a2 b2 \<Rightarrow> same_type t1 t2 (expr_match_equal (expr_equal a1 a2) (expr_equal b1 b2))
      | _ \<Rightarrow> ret False)"

section \<open>Casts\<close>

definition expr_is_assignable_to :: "expr_type \<Rightarrow> expr_type \<Rightarrow> bool" where
  "expr_is_assignable_to sourceType targetType =
     (sourceType = targetType \<or> sourceType = EXPR_TYPE_ERROR \<or> targetType = EXPR_TYPE_STRING)"

definition expr_cast :: "expr_literal_t \<Rightarrow> expr_type \<Rightarrow> ('s, expr_literal_t option) action" where
  "expr_cast expr targetType =
     (if expr_is_assignable_to (lit_type expr) targetType then
        if lit_type expr = targetType \<or> lit_type expr = EXPR_TYPE_ERROR
        then ret (Some (expr_literal_clone expr))
        else andthen (my_assert (targetType = EXPR_TYPE_STRING)) (\<lambda>_.
          ret (Some (expr_literal_create_string (lit_scope expr) (expr_literal_toString expr))))
      else ret None)"

text \<open>The value, or the error message: an error literal is reported by its own message, an
  impossible cast by the names of both types.\<close>

definition expr_get_value :: "expr_literal_t \<Rightarrow> expr_type \<Rightarrow> ('s, c_string + literal_value) action" where
  "expr_get_value expr targetType =
     andthen (expr_cast expr targetType) (\<lambda>e.
       case e of
         Some l \<Rightarrow>
           (if lit_type l = targetType then ret (Inr (expr_literal_get_value l))
            else (case expr_literal_get_value l of
                    Error_value msg \<Rightarrow> ret (Inl msg)
                  | _ \<Rightarrow> raise Invalid_access))
       | None \<Rightarrow>
           andthen (expr_type_to_string (lit_type expr)) (\<lambda>a.
             andthen (expr_type_to_string targetType) (\<lambda>b.
               ret (Inl (''invalid type cast from '' @ a @ '' to '' @ b)))))"

definition expr_get_string_value :: "expr_literal_t \<Rightarrow> ('s, c_string + c_string) action" where
  "expr_get_string_value expr =
     andthen (expr_get_value expr EXPR_TYPE_STRING) (\<lambda>r.
       case r of Inl e \<Rightarrow> ret (Inl e)
       | Inr v \<Rightarrow> (case v of String_value s \<Rightarrow> ret (Inr s) | _ \<Rightarrow> raise Invalid_access))"

definition expr_get_integer_value :: "expr_literal_t \<Rightarrow> ('s, c_string + u32) action" where
  "expr_get_integer_value expr =
     andthen (expr_get_value expr EXPR_TYPE_INTEGER) (\<lambda>r.
       case r of Inl e \<Rightarrow> ret (Inl e)
       | Inr v \<Rightarrow> (case v of Int_value i \<Rightarrow> ret (Inr i) | _ \<Rightarrow> raise Invalid_access))"

definition expr_get_boolean_value :: "expr_literal_t \<Rightarrow> ('s, c_string + bool) action" where
  "expr_get_boolean_value expr =
     andthen (expr_get_value expr EXPR_TYPE_BOOLEAN) (\<lambda>r.
       case r of Inl e \<Rightarrow> ret (Inl e)
       | Inr v \<Rightarrow> (case v of Bool_value b \<Rightarrow> ret (Inr b) | _ \<Rightarrow> raise Invalid_access))"

section \<open>Printing and reading string literals\<close>

definition escape_char :: "char \<Rightarrow> c_string" where
  "escape_char c = (if needs_escape c then [backslash, c] else [c])"

lemma escape_plain: "\<forall>c \<in> set p. \<not> needs_escape c \<Longrightarrow> concat (map escape_char p) = p"
  by (induction p) (auto simp: escape_char_def)

lemma expr_literal_quote_loop_escape: "expr_literal_quote_loop r p = r @ concat (map escape_char p)"
proof (induction r p rule: expr_literal_quote_loop.induct)
  case (1 r p)
  define n where "n = length (takeWhile (\<lambda>c. \<not> needs_escape c) p)"
  have plain: "\<forall>c \<in> set (take n p). \<not> needs_escape c"
    unfolding n_def takeWhile_eq_take [symmetric] by (auto dest: set_takeWhileD)
  have drop: "drop n p = dropWhile (\<lambda>c. \<not> needs_escape c) p"
    unfolding n_def by (rule dropWhile_eq_drop [symmetric])
  show ?case
  proof (cases "p = []")
    case True
    then show ?thesis by (simp add: expr_literal_quote_loop.simps)
  next
    case p: False
    show ?thesis
    proof (cases "drop n p")
      case Nil
      then have np: "take n p = p" by simp
      have "expr_literal_quote_loop r p = r @ p"
        using p Nil by (simp add: expr_literal_quote_loop.simps [of r p] expr_literal_quote_loop.simps [of _ "[]"]
            Let_def n_def [symmetric])
      then show ?thesis using plain by (simp add: np escape_plain)
    next
      case (Cons c q)
      have c: "needs_escape c"
        using Cons drop hd_dropWhile [of "\<lambda>c. \<not> needs_escape c" p] by (metis list.discI list.sel(1))
      have "expr_literal_quote_loop r p = expr_literal_quote_loop (r @ take n p @ [backslash, c]) q"
        using p Cons by (simp add: expr_literal_quote_loop.simps [of r p] Let_def n_def [symmetric])
      also have "\<dots> = (r @ take n p @ [backslash, c]) @ concat (map escape_char q)"
        using 1(2) [OF p n_def Cons] by simp
      also have "\<dots> = r @ concat (map escape_char (take n p @ c # q))"
        using plain c by (simp add: escape_plain escape_char_def)
      finally show ?thesis using Cons by (metis append_take_drop_id)
    qed
  qed
qed

lemma remove_escape_escape: "LF \<notin> set s \<Longrightarrow> remove_escape_loop False (concat (map escape_char s)) = s"
  by (induction s) (auto simp: escape_char_def needs_escape_def)

lemma set_escape: "set (concat (map escape_char s)) \<subseteq> insert backslash (set s)"
  by (induction s) (auto simp: escape_char_def)

section \<open>Casts, clones and comparison\<close>

lemma expr_literal_clone_id [simp]: "expr_literal_clone l = l"
  by (cases l; cases "lit_value l") (auto simp: expr_literal_clone_def)

lemma literal_type_simps [simp]:
  "lit_type (expr_literal_create_error sc e) = EXPR_TYPE_ERROR"
  "lit_type (expr_literal_create_string sc v) = EXPR_TYPE_STRING"
  "lit_type (expr_literal_create_integer sc i) = EXPR_TYPE_INTEGER"
  "lit_type (expr_literal_create_boolean sc b) = EXPR_TYPE_BOOLEAN"
  by (simp_all add: lit_type_def expr_literal_create_error_def expr_literal_create_string_def
      expr_literal_create_integer_def expr_literal_create_boolean_def)

lemma lit_type_known [simp]: "lit_type l \<noteq> EXPR_TYPE_UNKNOWN"
  by (cases "lit_value l") (simp_all add: lit_type_def)

lemma assignable_simps [simp]:
  "expr_is_assignable_to t t"
  "expr_is_assignable_to EXPR_TYPE_ERROR t"
  "expr_is_assignable_to t EXPR_TYPE_STRING"
  by (simp_all add: expr_is_assignable_to_def)

text \<open>The value of a literal read as a boolean: only boolean literals have one.\<close>

lemma expr_get_boolean_value_cases:
  "expr_get_boolean_value l s =
     (case lit_value l of
        Bool_value b \<Rightarrow> Done (Inr b) s
      | Error_value e \<Rightarrow> Done (Inl e) s
      | String_value v \<Rightarrow> Done (Inl ''invalid type cast from string to boolean'') s
      | Int_value i \<Rightarrow> Done (Inl ''invalid type cast from integer to boolean'') s)"
  by (cases "lit_value l")
     (simp_all add: expr_get_boolean_value_def expr_get_value_def expr_cast_def expr_is_assignable_to_def
       lit_type_def expr_literal_get_value_def)

lemma expr_get_integer_value_cases:
  "expr_get_integer_value l s =
     (case lit_value l of
        Int_value i \<Rightarrow> Done (Inr i) s
      | Error_value e \<Rightarrow> Done (Inl e) s
      | String_value v \<Rightarrow> Done (Inl ''invalid type cast from string to integer'') s
      | Bool_value b \<Rightarrow> Done (Inl ''invalid type cast from boolean to integer'') s)"
  by (cases "lit_value l")
     (simp_all add: expr_get_integer_value_def expr_get_value_def expr_cast_def expr_is_assignable_to_def
       lit_type_def expr_literal_get_value_def)

text \<open>Read as a string, every literal but an error has a value: a string its own text, the others
  the text they print as.\<close>

lemma expr_get_string_value_cases:
  "expr_get_string_value l s =
     (case lit_value l of
        Error_value e \<Rightarrow> Done (Inl e) s
      | String_value v \<Rightarrow> Done (Inr v) s
      | Int_value i \<Rightarrow> Done (Inr (int_to_dec (sint i))) s
      | Bool_value b \<Rightarrow> Done (Inr (if b then ''yes'' else ''no'')) s)"
  by (cases "lit_value l")
     (simp_all add: expr_get_string_value_def expr_get_value_def expr_cast_def expr_is_assignable_to_def
       lit_type_def expr_literal_get_value_def expr_literal_create_string_def expr_literal_toString_def)

text \<open>Static types as the creating functions and the referencer leave them.\<close>

primrec variable_types_ok :: "expr_t \<Rightarrow> bool" where
  "variable_types_ok (Literal l) = True"
| "variable_types_ok (Logical_not t s a) = variable_types_ok a"
| "variable_types_ok (Logical_and t s a b) = (variable_types_ok a \<and> variable_types_ok b)"
| "variable_types_ok (Logical_or t s a b) = (variable_types_ok a \<and> variable_types_ok b)"
| "variable_types_ok (Variable t s v) =
     (case v of EXPR_VARIABLE_STATE_RESOLVED i \<Rightarrow> t \<noteq> EXPR_TYPE_UNKNOWN
      | EXPR_VARIABLE_STATE_UNRESOLVED n \<Rightarrow> t = EXPR_TYPE_UNKNOWN)"
| "variable_types_ok (Equal t s a b) = (variable_types_ok a \<and> variable_types_ok b)"
| "variable_types_ok (Unequal t s a b) = (variable_types_ok a \<and> variable_types_ok b)"
| "variable_types_ok (Match t s a b) = (variable_types_ok a \<and> variable_types_ok b)"
| "variable_types_ok (Tobool t s a) = variable_types_ok a"

primrec erase_scopes :: "expr_t \<Rightarrow> expr_t" where
  "erase_scopes (Literal l) = Literal (l\<lparr>lit_scope := 0\<rparr>)"
| "erase_scopes (Logical_not t s a) = Logical_not t 0 (erase_scopes a)"
| "erase_scopes (Logical_and t s a b) = Logical_and t 0 (erase_scopes a) (erase_scopes b)"
| "erase_scopes (Logical_or t s a b) = Logical_or t 0 (erase_scopes a) (erase_scopes b)"
| "erase_scopes (Variable t s v) = Variable t 0 v"
| "erase_scopes (Equal t s a b) = Equal t 0 (erase_scopes a) (erase_scopes b)"
| "erase_scopes (Unequal t s a b) = Unequal t 0 (erase_scopes a) (erase_scopes b)"
| "erase_scopes (Match t s a b) = Match t 0 (erase_scopes a) (erase_scopes b)"
| "erase_scopes (Tobool t s a) = Tobool t 0 (erase_scopes a)"

lemmas expr_method_equal_defs = expr_logical_not_equal_def expr_logical_and_equal_def expr_logical_or_equal_def
  expr_equal_equal_def expr_unequal_equal_def expr_match_equal_def expr_tobool_equal_def

lemma expr_variable_equal_ok:
  assumes "variable_types_ok (Variable t s v)" and "variable_types_ok (Variable t s' w)"
  shows "expr_variable_equal v w st = Done (v = w) st"
  using assms by (cases v; cases w) (auto simp: expr_variable_equal_def intro: var_instance_t.equality)

lemma instance_eta [simp]: "\<lparr>inst_var = inst_var i, indices = indices i\<rparr> = (i :: var_instance_t)"
  by simp

lemma erase_literal_scope:
  fixes l l' :: expr_literal_t
  shows "l\<lparr>lit_scope := 0\<rparr> = l'\<lparr>lit_scope := 0\<rparr> \<longleftrightarrow> lit_value l = lit_value l'"
  by (cases l; cases l') simp

lemma expr_equal_erase:
  "variable_types_ok e1 \<Longrightarrow> variable_types_ok e2 \<Longrightarrow>
   expr_equal e1 e2 s = Done (erase_scopes e1 = erase_scopes e2) s"
proof (induction e1 arbitrary: e2)
  case (Literal l)
  then show ?case
    by (cases e2) (auto simp: same_type_def expr_literal_equal_def lit_type_def erase_literal_scope)
next
  case (Variable t sc v)
  then show ?case
    by (cases e2) (auto simp: same_type_def expr_variable_equal_ok simp del: variable_types_ok.simps)
next
  case (Logical_not t sc a)
  then show ?case by (cases e2) (auto simp: same_type_def expr_method_equal_defs)
next
  case (Tobool t sc a)
  then show ?case by (cases e2) (auto simp: same_type_def expr_method_equal_defs)
next
  case (Logical_and t sc a b)
  then show ?case by (cases e2) (auto simp: same_type_def expr_method_equal_defs)
next
  case (Logical_or t sc a b)
  then show ?case by (cases e2) (auto simp: same_type_def expr_method_equal_defs)
next
  case (Equal t sc a b)
  then show ?case by (cases e2) (auto simp: same_type_def expr_method_equal_defs)
next
  case (Unequal t sc a b)
  then show ?case by (cases e2) (auto simp: same_type_def expr_method_equal_defs)
next
  case (Match t sc a b)
  then show ?case by (cases e2) (auto simp: same_type_def expr_method_equal_defs)
qed

text \<open>Forgetting the static types of the composite expressions.\<close>

primrec erase_types :: "expr_t \<Rightarrow> expr_t" where
  "erase_types (Literal l) = Literal l"
| "erase_types (Logical_not t s a) = Logical_not EXPR_TYPE_UNKNOWN s (erase_types a)"
| "erase_types (Logical_and t s a b) = Logical_and EXPR_TYPE_UNKNOWN s (erase_types a) (erase_types b)"
| "erase_types (Logical_or t s a b) = Logical_or EXPR_TYPE_UNKNOWN s (erase_types a) (erase_types b)"
| "erase_types (Variable t s v) = Variable t s v"
| "erase_types (Equal t s a b) = Equal EXPR_TYPE_UNKNOWN s (erase_types a) (erase_types b)"
| "erase_types (Unequal t s a b) = Unequal EXPR_TYPE_UNKNOWN s (erase_types a) (erase_types b)"
| "erase_types (Match t s a b) = Match EXPR_TYPE_UNKNOWN s (erase_types a) (erase_types b)"
| "erase_types (Tobool t s a) = Tobool EXPR_TYPE_UNKNOWN s (erase_types a)"

text \<open>The variables of an expression carry the types their variables have.\<close>

primrec variables_typed :: "(var_id \<Rightarrow> expr_type) \<Rightarrow> expr_t \<Rightarrow> bool" where
  "variables_typed ty (Literal l) = True"
| "variables_typed ty (Logical_not t s a) = variables_typed ty a"
| "variables_typed ty (Logical_and t s a b) = (variables_typed ty a \<and> variables_typed ty b)"
| "variables_typed ty (Logical_or t s a b) = (variables_typed ty a \<and> variables_typed ty b)"
| "variables_typed ty (Variable t s v) =
     (case v of EXPR_VARIABLE_STATE_RESOLVED i \<Rightarrow> t = ty (inst_var i)
      | EXPR_VARIABLE_STATE_UNRESOLVED n \<Rightarrow> t = EXPR_TYPE_UNKNOWN)"
| "variables_typed ty (Equal t s a b) = (variables_typed ty a \<and> variables_typed ty b)"
| "variables_typed ty (Unequal t s a b) = (variables_typed ty a \<and> variables_typed ty b)"
| "variables_typed ty (Match t s a b) = (variables_typed ty a \<and> variables_typed ty b)"
| "variables_typed ty (Tobool t s a) = variables_typed ty a"

lemmas expr_clone_defs = expr_logical_not_clone_def expr_logical_and_clone_def expr_logical_or_clone_def
  expr_equal_clone_def expr_unequal_clone_def expr_match_clone_def expr_tobool_clone_def
  expr_logical_not_create_def expr_logical_and_create_def expr_logical_or_create_def
  expr_equal_create_def expr_unequal_create_def expr_match_create_def expr_tobool_create_def
  expr_variable_clone_def expr_variable_create_def expr_variable_create_by_name_def

lemma expr_clone_erase_types: "variables_typed ty e \<Longrightarrow> expr_clone ty e = erase_types e"
  by (induction e) (auto simp: expr_clone_defs split: expr_variable_state_t.splits)

lemma expr_clone_to_string: "expr_to_string f (expr_clone ty e) = expr_to_string f e"
  by (induction e) (auto simp: expr_clone_defs expr_variable_toString_def split: expr_variable_state_t.splits)

lemma expr_clone_variables_typed: "variables_typed ty (expr_clone ty e)"
  by (induction e) (auto simp: expr_clone_defs split: expr_variable_state_t.splits)

section \<open>Properties\<close>

text \<open>C30: a string literal is printed so that it reads back: the text between the quotes of the printed
  literal, given to the function that creates double-quoted strings, is the original string,
  whatever quotes and backslashes it holds.\<close>

theorem literal_quote_roundtrip:
  assumes "CR \<notin> set v" and "LF \<notin> set v"
  shows "\<exists>inner. expr_literal_toString (expr_literal_create_string sc v) = quote # inner @ [quote]
     \<and> qstr_value (qstr_create quote inner True valid) = v"
proof (intro exI conjI)
  let ?inner = "concat (map escape_char v)"
  show "expr_literal_toString (expr_literal_create_string sc v) = quote # ?inner @ [quote]"
    by (simp add: expr_literal_toString_def expr_literal_create_string_def expr_literal_quote_def
        expr_literal_quote_loop_escape)
  have "CR \<notin> set ?inner" using set_escape [of v] assms(1) by auto
  then show "qstr_value (qstr_create quote ?inner True valid) = v"
    using assms(2)
    by (simp add: qstr_create_def canonicalize_id remove_escape_characters_def remove_escape_escape
        concatenate_lines_def concatenate_lines_id)
qed

theorem literal_quote_roundtrip_witness:
  "\<exists>inner. expr_literal_toString (expr_literal_create_string 0 [CHR ''a'', quote, backslash, CHR ''b''])
       = quote # inner @ [quote]
     \<and> qstr_value (qstr_create quote inner True True) = [CHR ''a'', quote, backslash, CHR ''b'']"
  using literal_quote_roundtrip [of "[CHR ''a'', quote, backslash, CHR ''b'']" 0 True] by simp

text \<open>Comparing two expressions never fails and decides equality up to the scopes of the nodes, for
  expressions whose variables have a static type exactly when they are resolved.\<close>

lemma expr_equal_spec:
  assumes "variable_types_ok e1" and "variable_types_ok e2"
  shows "expr_equal e1 e2 s = Done (erase_scopes e1 = erase_scopes e2) s"
  using assms by (rule expr_equal_erase)

text \<open>A clone prints like its original and has the same structure with the types of all composite
  nodes reset, so that it has to be type-checked again: the clone of a checked composite expression does
  not compare equal to its original.\<close>

lemma expr_clone_spec:
  assumes "variables_typed ty e" and "variable_types_ok e"
  shows "expr_clone ty e = erase_types e
     \<and> expr_to_string f (expr_clone ty e) = expr_to_string f e
     \<and> expr_equal e (expr_clone ty e) s = Done (erase_types e = e) s"
proof -
  have clone: "expr_clone ty e = erase_types e" using assms(1) by (rule expr_clone_erase_types)
  have "variable_types_ok (erase_types e)" using assms(2) by (induction e) auto
  moreover have "erase_scopes e = erase_scopes (erase_types e) \<longleftrightarrow> erase_types e = e"
    by (induction e) auto
  ultimately show ?thesis
    using assms(2) clone by (simp add: expr_equal_erase expr_clone_to_string [of f ty e, unfolded clone])
qed

text \<open>A cast gives a literal exactly when the type of the literal is assignable to the target type;
  the result then has the target type or is the error literal itself, and casting to a string
  keeps strings and prints integers and booleans.\<close>

lemma expr_cast_spec:
  "expr_cast l t s =
     (if expr_is_assignable_to (lit_type l) t
      then Done (Some (if lit_type l = t \<or> lit_type l = EXPR_TYPE_ERROR then l
                       else expr_literal_create_string (lit_scope l)
                         (case lit_value l of Int_value i \<Rightarrow> int_to_dec (sint i)
                          | Bool_value b \<Rightarrow> if b then ''yes'' else ''no''
                          | _ \<Rightarrow> []))) s
      else Done None s)"
  by (cases "lit_value l")
     (auto simp: expr_cast_def expr_is_assignable_to_def lit_type_def expr_literal_toString_def)

end
