(* ===== verification/Expr_Check.thy ===== *)
theory Expr_Check
  imports Expr_Syntax
begin

text \<open>
  The passes over an expression before it is evaluated: the visitor of \<open>expr_visitor.c\<close>
  and \<open>expr_accept\<close>, the type checker of \<open>expr_typechecker.c\<close> and the referencer of
  \<open>expr_referencer.c\<close> with \<open>expr_variable_resolve\<close>. A handler gets the node's
  type, scope and arguments, with each argument the action of visiting it; it returns its C result
  and the node as it is afterwards, since both passes change the tree in place. The state is the
  global state and the visitor's \<open>error\<close> member.
\<close>

section \<open>Visitors\<close>

type_synonym ('g, 'e) visit = "('g \<times> 'e option, bool \<times> expr_t) action"
type_synonym ('g, 'e) unary_handler = "expr_type \<Rightarrow> scope_id \<Rightarrow> ('g, 'e) visit \<Rightarrow> ('g, 'e) visit"
type_synonym ('g, 'e) binary_handler =
  "expr_type \<Rightarrow> scope_id \<Rightarrow> ('g, 'e) visit \<Rightarrow> expr_t \<Rightarrow> ('g, 'e) visit \<Rightarrow> ('g, 'e) visit"

record ('g, 'e) expr_visitor_t =
  handle_literal :: "(expr_literal_t \<Rightarrow> ('g, 'e) visit) option"
  handle_logical_not :: "('g, 'e) unary_handler option"
  handle_logical_and :: "('g, 'e) binary_handler option"
  handle_logical_or :: "('g, 'e) binary_handler option"
  handle_variable :: "(expr_type \<Rightarrow> scope_id \<Rightarrow> expr_variable_state_t \<Rightarrow> ('g, 'e) visit) option"
  handle_equal :: "('g, 'e) binary_handler option"
  handle_unequal :: "('g, 'e) binary_handler option"
  handle_match :: "('g, 'e) binary_handler option"
  handle_tobool :: "('g, 'e) unary_handler option"

definition expr_visitor_init where
  "expr_visitor_init literal logical_not logical_and logical_or variable equal unequal match tobool =
     \<lparr>handle_literal = literal, handle_logical_not = logical_not, handle_logical_and = logical_and,
      handle_logical_or = logical_or, handle_variable = variable, handle_equal = equal,
      handle_unequal = unequal, handle_match = match, handle_tobool = tobool\<rparr>"

primrec expr_accept :: "('g, 'e) expr_visitor_t \<Rightarrow> expr_t \<Rightarrow> ('g, 'e) visit" where
  "expr_accept v (Literal l) =
     (case handle_literal v of Some h \<Rightarrow> h l | None \<Rightarrow> ret (False, Literal l))"
| "expr_accept v (Logical_not t s a) =
     (case handle_logical_not v of Some h \<Rightarrow> h t s (expr_accept v a) | None \<Rightarrow> ret (False, Logical_not t s a))"
| "expr_accept v (Variable t s st) =
     (case handle_variable v of Some h \<Rightarrow> h t s st | None \<Rightarrow> ret (False, Variable t s st))"
| "expr_accept v (Tobool t s a) =
     (case handle_tobool v of Some h \<Rightarrow> h t s (expr_accept v a) | None \<Rightarrow> ret (False, Tobool t s a))"
| "expr_accept v (Logical_and t s a b) =
     (case handle_logical_and v of Some h \<Rightarrow> h t s (expr_accept v a) b (expr_accept v b)
      | None \<Rightarrow> ret (False, Logical_and t s a b))"
| "expr_accept v (Logical_or t s a b) =
     (case handle_logical_or v of Some h \<Rightarrow> h t s (expr_accept v a) b (expr_accept v b)
      | None \<Rightarrow> ret (False, Logical_or t s a b))"
| "expr_accept v (Equal t s a b) =
     (case handle_equal v of Some h \<Rightarrow> h t s (expr_accept v a) b (expr_accept v b)
      | None \<Rightarrow> ret (False, Equal t s a b))"
| "expr_accept v (Unequal t s a b) =
     (case handle_unequal v of Some h \<Rightarrow> h t s (expr_accept v a) b (expr_accept v b)
      | None \<Rightarrow> ret (False, Unequal t s a b))"
| "expr_accept v (Match t s a b) =
     (case handle_match v of Some h \<Rightarrow> h t s (expr_accept v a) b (expr_accept v b)
      | None \<Rightarrow> ret (False, Match t s a b))"

section \<open>The type checker\<close>

definition set_error :: "'e \<Rightarrow> ('g \<times> 'e option, unit) action" where
  "set_error e = (\<lambda>(g, _). Done () (g, Some e))"

definition tc_handle_literal :: "expr_literal_t \<Rightarrow> ('g, expr_t) visit" where
  "tc_handle_literal l = ret (True, Literal l)"

definition tc_handle_logical_not :: "('g, expr_t) unary_handler" where
  "tc_handle_logical_not t s visit_arg =
     andthen visit_arg (\<lambda>(ok, arg).
       if \<not> ok then ret (False, Logical_not t s arg)
       else if \<not> expr_is_assignable_to (expr_get_type arg) EXPR_TYPE_BOOLEAN then
         andthen (set_error (Logical_not t s arg)) (\<lambda>_. ret (False, Logical_not t s arg))
       else ret (True, Logical_not EXPR_TYPE_BOOLEAN s arg))"

definition tc_handle_tobool :: "('g, expr_t) unary_handler" where
  "tc_handle_tobool t s visit_arg =
     andthen visit_arg (\<lambda>(ok, arg).
       if \<not> ok then ret (False, Tobool t s arg)
       else if \<not> expr_is_assignable_to (expr_get_type arg) EXPR_TYPE_BOOLEAN then
         andthen (set_error (Tobool t s arg)) (\<lambda>_. ret (False, Tobool t s arg))
       else ret (True, Tobool EXPR_TYPE_BOOLEAN s arg))"

definition tc_handle_logical_and :: "('g, expr_t) binary_handler" where
  "tc_handle_logical_and t s visit_left right visit_right =
     andthen visit_left (\<lambda>(ok, left).
       if \<not> ok then ret (False, Logical_and t s left right)
       else andthen visit_right (\<lambda>(ok, right).
         if \<not> ok then ret (False, Logical_and t s left right)
         else if \<not> expr_is_assignable_to (expr_get_type left) EXPR_TYPE_BOOLEAN
             \<or> \<not> expr_is_assignable_to (expr_get_type right) EXPR_TYPE_BOOLEAN then
           andthen (set_error (Logical_and t s left right)) (\<lambda>_. ret (False, Logical_and t s left right))
         else ret (True, Logical_and EXPR_TYPE_BOOLEAN s left right)))"

definition tc_handle_logical_or :: "('g, expr_t) binary_handler" where
  "tc_handle_logical_or t s visit_left right visit_right =
     andthen visit_left (\<lambda>(ok, left).
       if \<not> ok then ret (False, Logical_or t s left right)
       else andthen visit_right (\<lambda>(ok, right).
         if \<not> ok then ret (False, Logical_or t s left right)
         else if \<not> expr_is_assignable_to (expr_get_type left) EXPR_TYPE_BOOLEAN
             \<or> \<not> expr_is_assignable_to (expr_get_type right) EXPR_TYPE_BOOLEAN then
           andthen (set_error (Logical_or t s left right)) (\<lambda>_. ret (False, Logical_or t s left right))
         else ret (True, Logical_or EXPR_TYPE_BOOLEAN s left right)))"

definition tc_handle_equal :: "('g, expr_t) binary_handler" where
  "tc_handle_equal t s visit_left right visit_right =
     andthen visit_left (\<lambda>(ok, left).
       if \<not> ok then ret (False, Equal t s left right)
       else andthen visit_right (\<lambda>(ok, right).
         if \<not> ok then ret (False, Equal t s left right)
         else if expr_is_assignable_to (expr_get_type left) (expr_get_type right)
             \<or> expr_is_assignable_to (expr_get_type right) (expr_get_type left) then
           ret (True, Equal EXPR_TYPE_BOOLEAN s left right)
         else andthen (set_error (Equal t s left right)) (\<lambda>_. ret (False, Equal t s left right))))"

definition tc_handle_unequal :: "('g, expr_t) binary_handler" where
  "tc_handle_unequal t s visit_left right visit_right =
     andthen visit_left (\<lambda>(ok, left).
       if \<not> ok then ret (False, Unequal t s left right)
       else andthen visit_right (\<lambda>(ok, right).
         if \<not> ok then ret (False, Unequal t s left right)
         else if expr_is_assignable_to (expr_get_type left) (expr_get_type right)
             \<or> expr_is_assignable_to (expr_get_type right) (expr_get_type left) then
           ret (True, Unequal EXPR_TYPE_BOOLEAN s left right)
         else andthen (set_error (Unequal t s left right)) (\<lambda>_. ret (False, Unequal t s left right))))"

definition tc_handle_match :: "('g, expr_t) binary_handler" where
  "tc_handle_match t s visit_left right visit_right =
     andthen visit_left (\<lambda>(ok, left).
       if \<not> ok then ret (False, Match t s left right)
       else andthen visit_right (\<lambda>(ok, right).
         if \<not> ok then ret (False, Match t s left right)
         else andthen (my_assert (expr_is_assignable_to (expr_get_type right) EXPR_TYPE_STRING)) (\<lambda>_.
           ret (True, Match EXPR_TYPE_BOOLEAN s left right))))"

definition tc_handle_variable :: "expr_type \<Rightarrow> scope_id \<Rightarrow> expr_variable_state_t \<Rightarrow> ('g, expr_t) visit" where
  "tc_handle_variable t s st =
     (if t = EXPR_TYPE_UNKNOWN then andthen (set_error (Variable t s st)) (\<lambda>_. ret (False, Variable t s st))
      else ret (True, Variable t s st))"

definition tc_visitor :: "('g, expr_t) expr_visitor_t" where
  "tc_visitor = expr_visitor_init (Some tc_handle_literal) (Some tc_handle_logical_not) (Some tc_handle_logical_and)
     (Some tc_handle_logical_or) (Some tc_handle_variable) (Some tc_handle_equal) (Some tc_handle_unequal)
     (Some tc_handle_match) (Some tc_handle_tobool)"

text \<open>The result, the failing expression (if any) and the tree with its types filled in.\<close>

definition expr_typecheck_expression :: "expr_t \<Rightarrow> ('g, bool \<times> expr_t option \<times> expr_t) action" where
  "expr_typecheck_expression expr = (\<lambda>g.
     case expr_accept tc_visitor expr (g, None) of
       Done (ok, e) (g', error) \<Rightarrow> Done (ok, if ok then None else error, e) g'
     | Failed f \<Rightarrow> Failed f)"

section \<open>The referencer\<close>

text \<open>
  Resolving a name may change the global state, since looking a variable up can instantiate a
  template. \<open>create\<close> stands for \<open>var_instance_create_from_string\<close>, \<open>ty\<close> for the
  expression type of the variable in the state.
\<close>

definition expr_variable_resolve ::
  "(scope_id \<Rightarrow> c_string \<Rightarrow> ('g, var_instance_t option) action) \<Rightarrow> ('g \<Rightarrow> var_id \<Rightarrow> expr_type) \<Rightarrow>
   expr_type \<Rightarrow> scope_id \<Rightarrow> expr_variable_state_t \<Rightarrow> ('g, bool \<times> expr_t) action" where
  "expr_variable_resolve create ty t s state =
     (case state of
        EXPR_VARIABLE_STATE_UNRESOLVED name \<Rightarrow>
          andthen (create s name) (\<lambda>r.
            case r of
              Some inst \<Rightarrow> andthen get_state (\<lambda>g.
                ret (True, Variable (ty g (inst_var inst)) s (EXPR_VARIABLE_STATE_RESOLVED inst)))
            | None \<Rightarrow> ret (False, Variable t s state))
      | EXPR_VARIABLE_STATE_RESOLVED inst \<Rightarrow> ret (True, Variable t s state))"

definition on_global :: "('g, 'a) action \<Rightarrow> ('g \<times> 'e option, 'a) action" where
  "on_global m = (\<lambda>(g, e). case m g of Done x g' \<Rightarrow> Done x (g', e) | Failed f \<Rightarrow> Failed f)"

definition rf_handle_literal :: "expr_literal_t \<Rightarrow> ('g, c_string) visit" where
  "rf_handle_literal l = ret (True, Literal l)"

definition rf_handle_logical_not :: "('g, c_string) unary_handler" where
  "rf_handle_logical_not t s visit_arg = andthen visit_arg (\<lambda>(ok, arg). ret (ok, Logical_not t s arg))"

definition rf_handle_tobool :: "('g, c_string) unary_handler" where
  "rf_handle_tobool t s visit_arg = andthen visit_arg (\<lambda>(ok, arg). ret (ok, Tobool t s arg))"

definition rf_handle_logical_and :: "('g, c_string) binary_handler" where
  "rf_handle_logical_and t s visit_left right visit_right =
     andthen visit_left (\<lambda>(ok, left).
       if ok then andthen visit_right (\<lambda>(ok, right). ret (ok, Logical_and t s left right))
       else ret (False, Logical_and t s left right))"

definition rf_handle_logical_or :: "('g, c_string) binary_handler" where
  "rf_handle_logical_or t s visit_left right visit_right =
     andthen visit_left (\<lambda>(ok, left).
       if ok then andthen visit_right (\<lambda>(ok, right). ret (ok, Logical_or t s left right))
       else ret (False, Logical_or t s left right))"

definition rf_handle_equal :: "('g, c_string) binary_handler" where
  "rf_handle_equal t s visit_left right visit_right =
     andthen visit_left (\<lambda>(ok, left).
       if ok then andthen visit_right (\<lambda>(ok, right). ret (ok, Equal t s left right))
       else ret (False, Equal t s left right))"

definition rf_handle_unequal :: "('g, c_string) binary_handler" where
  "rf_handle_unequal t s visit_left right visit_right =
     andthen visit_left (\<lambda>(ok, left).
       if ok then andthen visit_right (\<lambda>(ok, right). ret (ok, Unequal t s left right))
       else ret (False, Unequal t s left right))"

definition rf_handle_match :: "('g, c_string) binary_handler" where
  "rf_handle_match t s visit_left right visit_right =
     andthen visit_left (\<lambda>(ok, left).
       if ok then andthen visit_right (\<lambda>(ok, right). ret (ok, Match t s left right))
       else ret (False, Match t s left right))"

definition rf_handle_variable ::
  "(scope_id \<Rightarrow> c_string \<Rightarrow> ('g, var_instance_t option) action) \<Rightarrow> ('g \<Rightarrow> var_id \<Rightarrow> expr_type) \<Rightarrow>
   expr_type \<Rightarrow> scope_id \<Rightarrow> expr_variable_state_t \<Rightarrow> ('g, c_string) visit" where
  "rf_handle_variable create ty t s state =
     andthen (on_global (expr_variable_resolve create ty t s state)) (\<lambda>(ok, e).
       if ok then ret (True, e)
       else
         (case state of
            EXPR_VARIABLE_STATE_UNRESOLVED name \<Rightarrow> andthen (set_error name) (\<lambda>_. ret (False, e))
          | EXPR_VARIABLE_STATE_RESOLVED _ \<Rightarrow> raise Invalid_access))"

definition rf_visitor ::
  "(scope_id \<Rightarrow> c_string \<Rightarrow> ('g, var_instance_t option) action) \<Rightarrow> ('g \<Rightarrow> var_id \<Rightarrow> expr_type) \<Rightarrow>
   ('g, c_string) expr_visitor_t" where
  "rf_visitor create ty = expr_visitor_init (Some rf_handle_literal) (Some rf_handle_logical_not)
     (Some rf_handle_logical_and) (Some rf_handle_logical_or) (Some (rf_handle_variable create ty))
     (Some rf_handle_equal) (Some rf_handle_unequal) (Some rf_handle_match) (Some rf_handle_tobool)"

definition expr_resolve_variable_expressions ::
  "(scope_id \<Rightarrow> c_string \<Rightarrow> ('g, var_instance_t option) action) \<Rightarrow> ('g \<Rightarrow> var_id \<Rightarrow> expr_type) \<Rightarrow>
   expr_t \<Rightarrow> ('g, bool \<times> c_string option \<times> expr_t) action" where
  "expr_resolve_variable_expressions create ty expr = (\<lambda>g.
     case expr_accept (rf_visitor create ty) expr (g, None) of
       Done (ok, e) (g', error) \<Rightarrow> Done (ok, if ok then None else error, e) g'
     | Failed f \<Rightarrow> Failed f)"

section \<open>Typing rules\<close>

inductive has_type :: "expr_t \<Rightarrow> expr_type \<Rightarrow> bool" where
  type_literal: "has_type (Literal l) (lit_type l)"
| type_variable: "t \<noteq> EXPR_TYPE_UNKNOWN \<Longrightarrow> has_type (Variable t s v) t"
| type_not: "has_type a t \<Longrightarrow> expr_is_assignable_to t EXPR_TYPE_BOOLEAN \<Longrightarrow>
    has_type (Logical_not t' s a) EXPR_TYPE_BOOLEAN"
| type_tobool: "has_type a t \<Longrightarrow> expr_is_assignable_to t EXPR_TYPE_BOOLEAN \<Longrightarrow>
    has_type (Tobool t' s a) EXPR_TYPE_BOOLEAN"
| type_and: "has_type a t \<Longrightarrow> has_type b u \<Longrightarrow> expr_is_assignable_to t EXPR_TYPE_BOOLEAN \<Longrightarrow>
    expr_is_assignable_to u EXPR_TYPE_BOOLEAN \<Longrightarrow> has_type (Logical_and t' s a b) EXPR_TYPE_BOOLEAN"
| type_or: "has_type a t \<Longrightarrow> has_type b u \<Longrightarrow> expr_is_assignable_to t EXPR_TYPE_BOOLEAN \<Longrightarrow>
    expr_is_assignable_to u EXPR_TYPE_BOOLEAN \<Longrightarrow> has_type (Logical_or t' s a b) EXPR_TYPE_BOOLEAN"
| type_equal: "has_type a t \<Longrightarrow> has_type b u \<Longrightarrow>
    expr_is_assignable_to t u \<or> expr_is_assignable_to u t \<Longrightarrow> has_type (Equal t' s a b) EXPR_TYPE_BOOLEAN"
| type_unequal: "has_type a t \<Longrightarrow> has_type b u \<Longrightarrow>
    expr_is_assignable_to t u \<or> expr_is_assignable_to u t \<Longrightarrow> has_type (Unequal t' s a b) EXPR_TYPE_BOOLEAN"
| type_match: "has_type a t \<Longrightarrow> has_type b u \<Longrightarrow> has_type (Match t' s a b) EXPR_TYPE_BOOLEAN"

inductive_simps has_type_simps [simp]:
  "has_type (Literal l) t"
  "has_type (Variable t s v) u"
  "has_type (Logical_not t s a) u"
  "has_type (Tobool t s a) u"
  "has_type (Logical_and t s a b) u"
  "has_type (Logical_or t s a b) u"
  "has_type (Equal t s a b) u"
  "has_type (Unequal t s a b) u"
  "has_type (Match t s a b) u"

lemma has_type_unique: "has_type e t \<Longrightarrow> has_type e u \<Longrightarrow> t = u"
  by (cases e) auto

lemma has_type_known: "has_type e t \<Longrightarrow> t \<noteq> EXPR_TYPE_UNKNOWN"
  by (cases e) auto

text \<open>The tree with the types the checker fills in, and the nodes of a tree.\<close>

primrec annotate :: "expr_t \<Rightarrow> expr_t" where
  "annotate (Literal l) = Literal l"
| "annotate (Variable t s v) = Variable t s v"
| "annotate (Logical_not t s a) = Logical_not EXPR_TYPE_BOOLEAN s (annotate a)"
| "annotate (Tobool t s a) = Tobool EXPR_TYPE_BOOLEAN s (annotate a)"
| "annotate (Logical_and t s a b) = Logical_and EXPR_TYPE_BOOLEAN s (annotate a) (annotate b)"
| "annotate (Logical_or t s a b) = Logical_or EXPR_TYPE_BOOLEAN s (annotate a) (annotate b)"
| "annotate (Equal t s a b) = Equal EXPR_TYPE_BOOLEAN s (annotate a) (annotate b)"
| "annotate (Unequal t s a b) = Unequal EXPR_TYPE_BOOLEAN s (annotate a) (annotate b)"
| "annotate (Match t s a b) = Match EXPR_TYPE_BOOLEAN s (annotate a) (annotate b)"

fun expr_args :: "expr_t \<Rightarrow> expr_t list" where
  "expr_args (Literal l) = []"
| "expr_args (Variable t s v) = []"
| "expr_args (Logical_not t s a) = [a]"
| "expr_args (Tobool t s a) = [a]"
| "expr_args (Logical_and t s a b) = [a, b]"
| "expr_args (Logical_or t s a b) = [a, b]"
| "expr_args (Equal t s a b) = [a, b]"
| "expr_args (Unequal t s a b) = [a, b]"
| "expr_args (Match t s a b) = [a, b]"

inductive subexpr :: "expr_t \<Rightarrow> expr_t \<Rightarrow> bool" where
  subexpr_refl: "subexpr e e"
| subexpr_arg: "subexpr e a \<Longrightarrow> a \<in> set (expr_args f) \<Longrightarrow> subexpr e f"

definition ill_typed_node :: "expr_t \<Rightarrow> bool" where
  "ill_typed_node e \<longleftrightarrow> (\<nexists>t. has_type e t) \<and> (\<forall>a \<in> set (expr_args e). \<exists>t. has_type a t)"

lemma annotate_has_type: "has_type (annotate e) t \<longleftrightarrow> has_type e t"
  by (induction e arbitrary: t) auto

lemma annotate_type: "has_type e t \<Longrightarrow> expr_get_type (annotate e) = t"
  by (cases e) auto

lemma annotate_idem: "annotate (annotate e) = annotate e"
  by (induction e) auto

lemmas tc_handler_defs = tc_visitor_def expr_visitor_init_def tc_handle_literal_def tc_handle_logical_not_def
  tc_handle_logical_and_def tc_handle_logical_or_def tc_handle_variable_def tc_handle_equal_def
  tc_handle_unequal_def tc_handle_match_def tc_handle_tobool_def

lemma tc_accept_ok: "has_type e t \<Longrightarrow> expr_accept tc_visitor e st = Done (True, annotate e) st"
proof (induction rule: has_type.induct)
  case (type_not a t t' s)
  then show ?case using annotate_type [of a t] by (simp add: tc_handler_defs)
next
  case (type_tobool a t t' s)
  then show ?case using annotate_type [of a t] by (simp add: tc_handler_defs)
next
  case (type_and a t b u t' s)
  then show ?case using annotate_type [of a t] annotate_type [of b u] by (simp add: tc_handler_defs)
next
  case (type_or a t b u t' s)
  then show ?case using annotate_type [of a t] annotate_type [of b u] by (simp add: tc_handler_defs)
next
  case (type_equal a t b u t' s)
  then show ?case using annotate_type [of a t] annotate_type [of b u] by (simp add: tc_handler_defs)
next
  case (type_unequal a t b u t' s)
  then show ?case using annotate_type [of a t] annotate_type [of b u] by (simp add: tc_handler_defs)
next
  case (type_match a t b u t' s)
  then show ?case by (simp add: tc_handler_defs)
qed (simp_all add: tc_handler_defs)

text \<open>When the checker rejects an expression it reports a node of the tree it leaves behind, which has no
  type although its arguments have one.\<close>

definition rejected :: "expr_t \<Rightarrow> 'g \<Rightarrow> (bool \<times> expr_t, 'g \<times> expr_t option) outcome \<Rightarrow> bool" where
  "rejected e g r \<longleftrightarrow> (\<exists>e' bad. r = Done (False, e') (g, Some bad) \<and> ill_typed_node bad \<and> subexpr bad e')"

lemma subexpr_self_rejected:
  "ill_typed_node e' \<Longrightarrow> rejected e g (Done (False, e') (g, Some e'))"
  by (auto simp: rejected_def intro: subexpr_refl)

lemma rejected_arg:
  assumes "rejected a g (Done (False, a') st)" and "a' \<in> set (expr_args e')"
  shows "rejected e g (Done (False, e') st)"
  using assms by (auto simp: rejected_def intro: subexpr_arg)

text \<open>The common shape of the handlers of the checker, for the proofs about rejection.\<close>

definition tc_unary :: "(expr_t \<Rightarrow> expr_t) \<Rightarrow> (expr_t \<Rightarrow> expr_t) \<Rightarrow> ('g, expr_t) visit \<Rightarrow> ('g, expr_t) visit" where
  "tc_unary K K' visit_arg =
     andthen visit_arg (\<lambda>(ok, arg).
       if \<not> ok then ret (False, K arg)
       else if expr_is_assignable_to (expr_get_type arg) EXPR_TYPE_BOOLEAN then ret (True, K' arg)
       else andthen (set_error (K arg)) (\<lambda>_. ret (False, K arg)))"

definition tc_binary ::
  "(expr_t \<Rightarrow> expr_t \<Rightarrow> expr_t) \<Rightarrow> (expr_t \<Rightarrow> expr_t \<Rightarrow> expr_t) \<Rightarrow> (expr_type \<Rightarrow> expr_type \<Rightarrow> bool) \<Rightarrow>
   ('g, expr_t) visit \<Rightarrow> expr_t \<Rightarrow> ('g, expr_t) visit \<Rightarrow> ('g, expr_t) visit" where
  "tc_binary K K' C visit_left right visit_right =
     andthen visit_left (\<lambda>(ok, left).
       if \<not> ok then ret (False, K left right)
       else andthen visit_right (\<lambda>(ok, right).
         if \<not> ok then ret (False, K left right)
         else if C (expr_get_type left) (expr_get_type right) then ret (True, K' left right)
         else andthen (set_error (K left right)) (\<lambda>_. ret (False, K left right))))"

lemma tc_accept_unary:
  "expr_accept tc_visitor (Logical_not t s a) =
     tc_unary (Logical_not t s) (Logical_not EXPR_TYPE_BOOLEAN s) (expr_accept tc_visitor a)"
  "expr_accept tc_visitor (Tobool t s a) =
     tc_unary (Tobool t s) (Tobool EXPR_TYPE_BOOLEAN s) (expr_accept tc_visitor a)"
  by (simp_all add: tc_handler_defs tc_unary_def) (intro andthen_cong refl; auto)+

lemma tc_accept_binary:
  "expr_accept tc_visitor (Logical_and t s a b) =
     tc_binary (Logical_and t s) (Logical_and EXPR_TYPE_BOOLEAN s) (\<lambda>t u. expr_is_assignable_to t EXPR_TYPE_BOOLEAN \<and> expr_is_assignable_to u EXPR_TYPE_BOOLEAN)
       (expr_accept tc_visitor a) b (expr_accept tc_visitor b)"
  "expr_accept tc_visitor (Logical_or t s a b) =
     tc_binary (Logical_or t s) (Logical_or EXPR_TYPE_BOOLEAN s) (\<lambda>t u. expr_is_assignable_to t EXPR_TYPE_BOOLEAN \<and> expr_is_assignable_to u EXPR_TYPE_BOOLEAN)
       (expr_accept tc_visitor a) b (expr_accept tc_visitor b)"
  "expr_accept tc_visitor (Equal t s a b) =
     tc_binary (Equal t s) (Equal EXPR_TYPE_BOOLEAN s) (\<lambda>t u. expr_is_assignable_to t u \<or> expr_is_assignable_to u t)
       (expr_accept tc_visitor a) b (expr_accept tc_visitor b)"
  "expr_accept tc_visitor (Unequal t s a b) =
     tc_binary (Unequal t s) (Unequal EXPR_TYPE_BOOLEAN s) (\<lambda>t u. expr_is_assignable_to t u \<or> expr_is_assignable_to u t)
       (expr_accept tc_visitor a) b (expr_accept tc_visitor b)"
  "expr_accept tc_visitor (Match t s a b) =
     tc_binary (Match t s) (Match EXPR_TYPE_BOOLEAN s) (\<lambda>t u. True)
       (expr_accept tc_visitor a) b (expr_accept tc_visitor b)"
  by (simp_all add: tc_handler_defs tc_binary_def) (intro andthen_cong refl; auto simp: ret_def intro!: andthen_cong)+

lemma tc_unary_rejects:
  assumes IH: "(\<nexists>t. has_type a t) \<Longrightarrow> rejected a g (expr_accept tc_visitor a (g, x))"
    and args: "\<And>a. expr_args (K a) = [a]"
    and typing: "\<And>a. (\<exists>t. has_type (K a) t) \<longleftrightarrow> (\<exists>t. has_type a t \<and> expr_is_assignable_to t EXPR_TYPE_BOOLEAN)"
    and ill: "\<nexists>t. has_type (K a) t"
  shows "rejected (K a) g (tc_unary K K' (expr_accept tc_visitor a) (g, x))"
proof (cases "\<exists>t. has_type a t")
  case True
  then obtain t where t: "has_type a t" by blast
  have "\<not> expr_is_assignable_to t EXPR_TYPE_BOOLEAN" using ill t typing by blast
  moreover have "ill_typed_node (K (annotate a))"
    using ill t typing args by (simp add: ill_typed_node_def annotate_has_type) blast
  ultimately show ?thesis
    using subexpr_self_rejected annotate_type [OF t]
    by (simp add: tc_unary_def tc_accept_ok [OF t] set_error_def)
next
  case False
  then obtain a' bad where r: "expr_accept tc_visitor a (g, x) = Done (False, a') (g, Some bad)"
    "rejected a g (Done (False, a') (g, Some bad))"
    using IH by (auto simp: rejected_def)
  then show ?thesis using rejected_arg [OF r(2), of "K a'"] by (simp add: tc_unary_def args)
qed

lemma tc_binary_rejects:
  assumes IH: "\<And>x. (\<nexists>t. has_type a t) \<Longrightarrow> rejected a g (expr_accept tc_visitor a (g, x))"
      "\<And>x. (\<nexists>t. has_type b t) \<Longrightarrow> rejected b g (expr_accept tc_visitor b (g, x))"
    and args: "\<And>a b. expr_args (K a b) = [a, b]"
    and typing: "\<And>a b. (\<exists>t. has_type (K a b) t) \<longleftrightarrow> (\<exists>t u. has_type a t \<and> has_type b u \<and> C t u)"
    and ill: "\<nexists>t. has_type (K a b) t"
  shows "rejected (K a b) g (tc_binary K K' C (expr_accept tc_visitor a) b (expr_accept tc_visitor b) (g, x))"
proof (cases "\<exists>t. has_type a t")
  case False
  then obtain a' bad where r: "expr_accept tc_visitor a (g, x) = Done (False, a') (g, Some bad)"
    "rejected a g (Done (False, a') (g, Some bad))"
    using IH(1) [of x] by (auto simp: rejected_def)
  then show ?thesis using rejected_arg [OF r(2), of "K a' b"] by (simp add: tc_binary_def args)
next
  case True
  then obtain t where t: "has_type a t" by blast
  show ?thesis
  proof (cases "\<exists>u. has_type b u")
    case False
    then obtain b' bad where r: "expr_accept tc_visitor b (g, x) = Done (False, b') (g, Some bad)"
      "rejected b g (Done (False, b') (g, Some bad))"
      using IH(2) [of x] by (auto simp: rejected_def)
    then show ?thesis
      using rejected_arg [OF r(2), of "K (annotate a) b'"] by (simp add: tc_binary_def args tc_accept_ok [OF t])
  next
    case True
    then obtain u where u: "has_type b u" by blast
    have "\<not> C t u" using ill t u typing by blast
    moreover have "\<nexists>v. has_type (K (annotate a) (annotate b)) v"
      using ill typing by (simp add: annotate_has_type)
    then have "ill_typed_node (K (annotate a) (annotate b))"
      using t u args by (auto simp: ill_typed_node_def annotate_has_type)
    ultimately show ?thesis
      using subexpr_self_rejected annotate_type [OF t] annotate_type [OF u]
      by (simp add: tc_binary_def tc_accept_ok [OF t] tc_accept_ok [OF u] set_error_def)
  qed
qed

lemma tc_accept_rejects: "\<nexists>t. has_type e t \<Longrightarrow> rejected e g (expr_accept tc_visitor e (g, x))"
proof (induction e arbitrary: x)
  case (Literal l)
  then show ?case by auto
next
  case (Variable t s v)
  then have "expr_accept tc_visitor (Variable t s v) (g, x) = Done (False, Variable t s v) (g, Some (Variable t s v))"
    by (auto simp: tc_handler_defs set_error_def)
  moreover have "ill_typed_node (Variable t s v)"
    using Variable by (simp add: ill_typed_node_def)
  ultimately show ?case using subexpr_self_rejected by metis
next
  case (Logical_not t s a)
  show ?case unfolding tc_accept_unary
    by (rule tc_unary_rejects [OF Logical_not.IH]) (use Logical_not.prems in auto)
next
  case (Tobool t s a)
  show ?case unfolding tc_accept_unary
    by (rule tc_unary_rejects [OF Tobool.IH]) (use Tobool.prems in auto)
next
  case (Logical_and t s a b)
  show ?case unfolding tc_accept_binary
    by (rule tc_binary_rejects [OF Logical_and.IH]) (use Logical_and.prems in auto)
next
  case (Logical_or t s a b)
  show ?case unfolding tc_accept_binary
    by (rule tc_binary_rejects [OF Logical_or.IH]) (use Logical_or.prems in auto)
next
  case (Equal t s a b)
  show ?case unfolding tc_accept_binary
    by (rule tc_binary_rejects [OF Equal.IH]) (use Equal.prems in auto)
next
  case (Unequal t s a b)
  show ?case unfolding tc_accept_binary
    by (rule tc_binary_rejects [OF Unequal.IH]) (use Unequal.prems in auto)
next
  case (Match t s a b)
  show ?case unfolding tc_accept_binary
    by (rule tc_binary_rejects [OF Match.IH]) (use Match.prems in auto)
qed

section \<open>Resolved expressions\<close>

primrec all_resolved :: "expr_t \<Rightarrow> bool" where
  "all_resolved (Literal l) = True"
| "all_resolved (Variable t s v) = (case v of EXPR_VARIABLE_STATE_RESOLVED _ \<Rightarrow> True | EXPR_VARIABLE_STATE_UNRESOLVED _ \<Rightarrow> False)"
| "all_resolved (Logical_not t s a) = all_resolved a"
| "all_resolved (Tobool t s a) = all_resolved a"
| "all_resolved (Logical_and t s a b) = (all_resolved a \<and> all_resolved b)"
| "all_resolved (Logical_or t s a b) = (all_resolved a \<and> all_resolved b)"
| "all_resolved (Equal t s a b) = (all_resolved a \<and> all_resolved b)"
| "all_resolved (Unequal t s a b) = (all_resolved a \<and> all_resolved b)"
| "all_resolved (Match t s a b) = (all_resolved a \<and> all_resolved b)"

text \<open>The variables of an expression from left to right, with the scopes their names are looked up in.\<close>

primrec variables :: "expr_t \<Rightarrow> (scope_id \<times> expr_variable_state_t) list" where
  "variables (Literal l) = []"
| "variables (Variable t s v) = [(s, v)]"
| "variables (Logical_not t s a) = variables a"
| "variables (Tobool t s a) = variables a"
| "variables (Logical_and t s a b) = variables a @ variables b"
| "variables (Logical_or t s a b) = variables a @ variables b"
| "variables (Equal t s a b) = variables a @ variables b"
| "variables (Unequal t s a b) = variables a @ variables b"
| "variables (Match t s a b) = variables a @ variables b"

text \<open>Looking up the names among them one after the other, up to the first that is not found.\<close>

fun look_up_all ::
  "(scope_id \<Rightarrow> c_string \<Rightarrow> ('g, var_instance_t option) action) \<Rightarrow> (scope_id \<times> expr_variable_state_t) list \<Rightarrow>
   ('g, c_string option \<times> var_instance_t list) action" where
  "look_up_all create [] = ret (None, [])"
| "look_up_all create ((sc, EXPR_VARIABLE_STATE_RESOLVED i) # vs) =
     andthen (look_up_all create vs) (\<lambda>(missing, is). ret (missing, i # is))"
| "look_up_all create ((sc, EXPR_VARIABLE_STATE_UNRESOLVED n) # vs) =
     andthen (create sc n) (\<lambda>r.
       case r of
         None \<Rightarrow> ret (Some n, [])
       | Some i \<Rightarrow> andthen (look_up_all create vs) (\<lambda>(missing, is). ret (missing, i # is)))"

lemma look_up_all_append:
  "look_up_all create (xs @ ys) g =
     (case look_up_all create xs g of
        Failed f \<Rightarrow> Failed f
      | Done (Some n, is) g' \<Rightarrow> Done (Some n, is) g'
      | Done (None, is) g' \<Rightarrow>
          (case look_up_all create ys g' of Failed f \<Rightarrow> Failed f | Done (missing, js) h \<Rightarrow> Done (missing, is @ js) h))"
  by (induction create xs arbitrary: g rule: look_up_all.induct)
     (auto simp: andthen_def split: outcome.splits option.splits prod.splits)

text \<open>The structure of an expression without what its variables refer to.\<close>

primrec skeleton :: "expr_t \<Rightarrow> expr_t" where
  "skeleton (Literal l) = Literal l"
| "skeleton (Variable t s v) = Variable EXPR_TYPE_UNKNOWN s (EXPR_VARIABLE_STATE_UNRESOLVED [])"
| "skeleton (Logical_not t s a) = Logical_not t s (skeleton a)"
| "skeleton (Tobool t s a) = Tobool t s (skeleton a)"
| "skeleton (Logical_and t s a b) = Logical_and t s (skeleton a) (skeleton b)"
| "skeleton (Logical_or t s a b) = Logical_or t s (skeleton a) (skeleton b)"
| "skeleton (Equal t s a b) = Equal t s (skeleton a) (skeleton b)"
| "skeleton (Unequal t s a b) = Unequal t s (skeleton a) (skeleton b)"
| "skeleton (Match t s a b) = Match t s (skeleton a) (skeleton b)"

lemmas rf_handler_defs = rf_visitor_def expr_visitor_init_def rf_handle_literal_def rf_handle_logical_not_def
  rf_handle_logical_and_def rf_handle_logical_or_def rf_handle_variable_def rf_handle_equal_def
  rf_handle_unequal_def rf_handle_match_def rf_handle_tobool_def

lemma rf_accept_resolved: "all_resolved e \<Longrightarrow> expr_accept (rf_visitor create ty) e st = Done (True, e) st"
  by (induction e arbitrary: st)
     (auto simp: rf_handler_defs expr_variable_resolve_def on_global_def
       split: expr_variable_state_t.splits prod.splits)

text \<open>What a pass of the referencer over a part of an expression does: the look-ups of its variables.\<close>

definition rf_looks_up ::
  "(scope_id \<Rightarrow> c_string \<Rightarrow> ('g, var_instance_t option) action) \<Rightarrow> expr_t \<Rightarrow> ('g, c_string) visit \<Rightarrow> bool" where
  "rf_looks_up create e visit \<longleftrightarrow> (\<forall>g x.
     case look_up_all create (variables e) g of
       Failed f \<Rightarrow> visit (g, x) = Failed f
     | Done (Some n, _) g' \<Rightarrow> \<exists>e'. visit (g, x) = Done (False, e') (g', Some n) \<and> skeleton e' = skeleton e
     | Done (None, is) g' \<Rightarrow> \<exists>e'. visit (g, x) = Done (True, e') (g', x) \<and> skeleton e' = skeleton e
         \<and> map snd (variables e') = map EXPR_VARIABLE_STATE_RESOLVED is)"

definition rf_binary where
  "rf_binary K visit_left right visit_right =
     andthen visit_left (\<lambda>(ok, left).
       if ok then andthen visit_right (\<lambda>(ok, right). ret (ok, K left right))
       else ret (False, K left right))"

definition rf_unary where
  "rf_unary K visit_arg = andthen visit_arg (\<lambda>(ok, arg). ret (ok, K arg))"

lemma rf_accept_unary:
  "expr_accept (rf_visitor create ty) (Logical_not t s a) =
     rf_unary (Logical_not t s) (expr_accept (rf_visitor create ty) a)"
  "expr_accept (rf_visitor create ty) (Tobool t s a) =
     rf_unary (Tobool t s) (expr_accept (rf_visitor create ty) a)"
  by (simp_all add: rf_handler_defs rf_unary_def)

lemma rf_accept_binary:
  "expr_accept (rf_visitor create ty) (Logical_and t s a b) =
     rf_binary (Logical_and t s) (expr_accept (rf_visitor create ty) a) b (expr_accept (rf_visitor create ty) b)"
  "expr_accept (rf_visitor create ty) (Logical_or t s a b) =
     rf_binary (Logical_or t s) (expr_accept (rf_visitor create ty) a) b (expr_accept (rf_visitor create ty) b)"
  "expr_accept (rf_visitor create ty) (Equal t s a b) =
     rf_binary (Equal t s) (expr_accept (rf_visitor create ty) a) b (expr_accept (rf_visitor create ty) b)"
  "expr_accept (rf_visitor create ty) (Unequal t s a b) =
     rf_binary (Unequal t s) (expr_accept (rf_visitor create ty) a) b (expr_accept (rf_visitor create ty) b)"
  "expr_accept (rf_visitor create ty) (Match t s a b) =
     rf_binary (Match t s) (expr_accept (rf_visitor create ty) a) b (expr_accept (rf_visitor create ty) b)"
  by (simp_all add: rf_handler_defs rf_binary_def)

lemma rf_unary_looks_up:
  assumes "rf_looks_up create a va" and "\<And>a. skeleton (K a) = K (skeleton a)" "\<And>a. variables (K a) = variables a"
  shows "rf_looks_up create (K a) (rf_unary K va)"
  unfolding rf_looks_up_def
proof (intro allI)
  fix g x
  show "case look_up_all create (variables (K a)) g of
      Failed f \<Rightarrow> rf_unary K va (g, x) = Failed f
    | Done (Some n, _) g' \<Rightarrow> \<exists>e'. rf_unary K va (g, x) = Done (False, e') (g', Some n) \<and> skeleton e' = skeleton (K a)
    | Done (None, is) g' \<Rightarrow> \<exists>e'. rf_unary K va (g, x) = Done (True, e') (g', x) \<and> skeleton e' = skeleton (K a)
        \<and> map snd (variables e') = map EXPR_VARIABLE_STATE_RESOLVED is"
    using spec [OF spec [OF assms(1) [unfolded rf_looks_up_def]], of g x] assms(2,3)
    by (auto simp: rf_unary_def andthen_def split: outcome.splits option.splits prod.splits)
qed

lemma rf_binary_looks_up:
  assumes va: "rf_looks_up create a va" and vb: "rf_looks_up create b vb"
    and K: "\<And>a b. skeleton (K a b) = K (skeleton a) (skeleton b)" "\<And>a b. variables (K a b) = variables a @ variables b"
  shows "rf_looks_up create (K a b) (rf_binary K va b vb)"
  unfolding rf_looks_up_def
proof (intro allI)
  fix g x
  note a = spec [OF spec [OF va [unfolded rf_looks_up_def]], of g x]
  note b = spec [OF spec [OF vb [unfolded rf_looks_up_def]], where x = x]
  show "case look_up_all create (variables (K a b)) g of
      Failed f \<Rightarrow> rf_binary K va b vb (g, x) = Failed f
    | Done (Some n, _) g' \<Rightarrow> \<exists>e'. rf_binary K va b vb (g, x) = Done (False, e') (g', Some n) \<and> skeleton e' = skeleton (K a b)
    | Done (None, is) g' \<Rightarrow> \<exists>e'. rf_binary K va b vb (g, x) = Done (True, e') (g', x) \<and> skeleton e' = skeleton (K a b)
        \<and> map snd (variables e') = map EXPR_VARIABLE_STATE_RESOLVED is"
  proof (cases "look_up_all create (variables a) g")
    case (Failed f)
    then show ?thesis using a K by (simp add: look_up_all_append rf_binary_def)
  next
    case (Done r g1)
    obtain m "is" where r: "r = (m, is)" by fastforce
    show ?thesis
    proof (cases m)
      case (Some n)
      then show ?thesis using a K Done r by (auto simp: look_up_all_append rf_binary_def)
    next
      case None
      then obtain a' where a': "va (g, x) = Done (True, a') (g1, x)" "skeleton a' = skeleton a"
        "map snd (variables a') = map EXPR_VARIABLE_STATE_RESOLVED is"
        using a Done r by auto
      then show ?thesis using b [of g1] K Done r None
        by (auto simp: look_up_all_append rf_binary_def andthen_def split: outcome.splits option.splits prod.splits)
    qed
  qed
qed

lemma rf_variable_looks_up: "rf_looks_up create (Variable t s v) (expr_accept (rf_visitor create ty) (Variable t s v))"
  by (cases v)
    (auto simp: rf_looks_up_def rf_handler_defs expr_variable_resolve_def on_global_def set_error_def andthen_def
      split: outcome.splits option.splits)

lemma rf_accept_looks_up: "rf_looks_up create e (expr_accept (rf_visitor create ty) e)"
proof (induction e)
  case (Literal l)
  then show ?case by (auto simp: rf_looks_up_def rf_handler_defs)
next
  case (Variable t s v)
  show ?case by (rule rf_variable_looks_up)
qed (unfold rf_accept_unary rf_accept_binary, auto intro!: rf_unary_looks_up rf_binary_looks_up)

lemma variables_resolved: "map snd (variables e) = map EXPR_VARIABLE_STATE_RESOLVED is \<Longrightarrow> all_resolved e"
proof -
  assume eq: "map snd (variables e) = map EXPR_VARIABLE_STATE_RESOLVED is"
  have "\<exists>i. snd v = EXPR_VARIABLE_STATE_RESOLVED i" if "v \<in> set (variables e)" for v
  proof -
    have "snd v \<in> set (map snd (variables e))" using that by simp
    then show ?thesis unfolding eq by auto
  qed
  then show "all_resolved e" by (induction e) (auto split: expr_variable_state_t.splits)
qed

section \<open>Properties\<close>

text \<open>C2: the type checker decides the typing rules. It never runs into its assertion and leaves the
  program state alone; it accepts exactly the expressions the rules give a type and then leaves the
  tree fully annotated with that type at the root; otherwise it reports a node that has no type
  although its arguments have one.\<close>

theorem typecheck_decides_typing:
  "(if \<exists>t. has_type e t
    then expr_typecheck_expression e g = Done (True, None, annotate e) g \<and> has_type e (expr_get_type (annotate e))
    else \<exists>e' bad. expr_typecheck_expression e g = Done (False, Some bad, e') g
           \<and> ill_typed_node bad \<and> subexpr bad e')"
proof (cases "\<exists>t. has_type e t")
  case True
  then obtain t where t: "has_type e t" by blast
  then show ?thesis
    using annotate_type [OF t] True by (simp add: expr_typecheck_expression_def tc_accept_ok [OF t])
next
  case False
  then show ?thesis
    using tc_accept_rejects [OF False, of g None] by (auto simp: expr_typecheck_expression_def rejected_def)
qed

text \<open>Type checking is idempotent: an accepted expression is accepted again and does not change.\<close>

lemma typecheck_idempotent:
  assumes "expr_typecheck_expression e g = Done (True, err, e') g'"
  shows "expr_typecheck_expression e' h = Done (True, None, e') h"
proof (cases "\<exists>t. has_type e t")
  case True
  then obtain t where t: "has_type e t" by blast
  then have "e' = annotate e" using assms by (simp add: expr_typecheck_expression_def tc_accept_ok [OF t])
  then show ?thesis
    by (simp add: expr_typecheck_expression_def annotate_idem tc_accept_ok [OF iffD2 [OF annotate_has_type t]])
next
  case False
  then show ?thesis
    using tc_accept_rejects [OF False, of g None] assms by (auto simp: expr_typecheck_expression_def rejected_def)
qed

text \<open>C32: resolving an expression is looking up the names of its variables in their scopes, from left to right, up to the
  first that is not found, for any look-up: it fails or comes back as the look-ups do and leaves the state they leave. If
  all names are found the variables refer to what was found, in this order, and otherwise the name that was not
  found is reported; the rest of the expression does not change. An expression that was resolved is accepted again
  without any look-up.\<close>

theorem resolve_expression_spec:
  "case look_up_all create (variables e) g of
     Failed f \<Rightarrow> expr_resolve_variable_expressions create ty e g = Failed f
   | Done (Some n, _) g' \<Rightarrow> \<exists>e'. expr_resolve_variable_expressions create ty e g = Done (False, Some n, e') g'
       \<and> skeleton e' = skeleton e
   | Done (None, is) g' \<Rightarrow> \<exists>e'. expr_resolve_variable_expressions create ty e g = Done (True, None, e') g'
       \<and> skeleton e' = skeleton e \<and> map snd (variables e') = map EXPR_VARIABLE_STATE_RESOLVED is
       \<and> (\<forall>create' h. expr_resolve_variable_expressions create' ty e' h = Done (True, None, e') h)"
proof -
  have again: "expr_resolve_variable_expressions create' ty e' h = Done (True, None, e') h"
    if "map snd (variables e') = map EXPR_VARIABLE_STATE_RESOLVED is" for create' e' "is" h
    using rf_accept_resolved [OF variables_resolved [OF that], of create' ty "(h, None)"] by (simp add: expr_resolve_variable_expressions_def)
  have run: "expr_accept (rf_visitor create ty) e (g, None) = Done (ok, e') (g', x) \<Longrightarrow>
      expr_resolve_variable_expressions create ty e g = Done (ok, if ok then None else x, e') g'"
    "expr_accept (rf_visitor create ty) e (g, None) = Failed f \<Longrightarrow> expr_resolve_variable_expressions create ty e g = Failed f"
    for ok e' g' x f by (simp_all add: expr_resolve_variable_expressions_def)
  note looks_up = spec [OF spec [OF rf_accept_looks_up [of create e ty, unfolded rf_looks_up_def]], of g None]
  show ?thesis
  proof (cases "look_up_all create (variables e) g")
    case (Failed f)
    then show ?thesis using looks_up run(2) by simp
  next
    case (Done r g')
    then show ?thesis
    proof (cases r)
      case (Pair missing "is")
      then show ?thesis using Done looks_up again by (cases missing) (auto dest!: run(1))
    qed
  qed
qed

end
