(* ===== verification/Var_Value.thy ===== *)
theory Var_Value
  imports C_Strings
begin

text \<open>
  Values, priorities and access modes of variables (\<open>var.h\<close>, \<open>var/value.c\<close>) and the
  conversion of a value to an integer or a boolean.
\<close>

section \<open>Data\<close>

datatype var_priority_t = VAR_PRIORITY_UNDEFINED | VAR_PRIORITY_ARRAY_BOUND | VAR_PRIORITY_SCRIPT_TRANSIENT
  | VAR_PRIORITY_CONFIGURATION | VAR_PRIORITY_SUPERSEDE | VAR_PRIORITY_SCRIPT_PERSISTENT

datatype var_access_mode_t = VAR_ACCESS_TENTATIVE | VAR_ACCESS_WEAK | VAR_ACCESS_STRONG

datatype var_value_kind_t = VAR_VALUE_KIND_NONE | VAR_VALUE_KIND_NORMAL | VAR_VALUE_KIND_DEFAULT | VAR_VALUE_KIND_DISABLED

primrec priority_rank :: "var_priority_t \<Rightarrow> int" where
  "priority_rank VAR_PRIORITY_UNDEFINED = -1"
| "priority_rank VAR_PRIORITY_ARRAY_BOUND = 0"
| "priority_rank VAR_PRIORITY_SCRIPT_TRANSIENT = 1"
| "priority_rank VAR_PRIORITY_CONFIGURATION = 2"
| "priority_rank VAR_PRIORITY_SUPERSEDE = 3"
| "priority_rank VAR_PRIORITY_SCRIPT_PERSISTENT = 4"

text \<open>The enumeration is ordered by the numbers of its members.\<close>

instantiation var_priority_t :: linorder
begin

definition less_eq_var_priority_t :: "var_priority_t \<Rightarrow> var_priority_t \<Rightarrow> bool" where
  "less_eq_var_priority_t p q = (priority_rank p \<le> priority_rank q)"

definition less_var_priority_t :: "var_priority_t \<Rightarrow> var_priority_t \<Rightarrow> bool" where
  "less_var_priority_t p q = (priority_rank p < priority_rank q)"

instance
proof
  fix p q r :: var_priority_t
  show "p < q \<longleftrightarrow> p \<le> q \<and> \<not> q \<le> p"
    by (auto simp: less_eq_var_priority_t_def less_var_priority_t_def)
  show "p \<le> p"
    by (simp add: less_eq_var_priority_t_def)
  show "p \<le> q \<Longrightarrow> q \<le> r \<Longrightarrow> p \<le> r"
    by (simp add: less_eq_var_priority_t_def)
  show "p \<le> q \<Longrightarrow> q \<le> p \<Longrightarrow> p = q"
    by (cases p; cases q) (simp_all add: less_eq_var_priority_t_def)
  show "p \<le> q \<or> q \<le> p"
    by (auto simp: less_eq_var_priority_t_def)
qed

end

lemma priority_undefined_least [simp]: "VAR_PRIORITY_UNDEFINED \<le> p"
  by (cases p) (simp_all add: less_eq_var_priority_t_def)

record 'x var_value_t =
  val_value :: "c_string option"
  val_kind :: var_value_kind_t
  val_extra :: "'x option"
  val_priority :: var_priority_t

definition var_value_create ::
  "c_string option \<Rightarrow> var_value_kind_t \<Rightarrow> 'x option \<Rightarrow> var_priority_t \<Rightarrow> 'x var_value_t" where
  "var_value_create value kind extra priority =
     \<lparr>val_value = value, val_kind = kind, val_extra = extra, val_priority = priority\<rparr>"

section \<open>Conversions\<close>

text \<open>
  \<open>strtol\<close> with base 0 accepts decimal, octal and hexadecimal numbers; its result, a
  \<open>long\<close>, is assigned to an \<open>int\<close>, which keeps the low 32 bits.
\<close>

definition var_value_convert_to_integer :: "c_string \<Rightarrow> u32 option" where
  "var_value_convert_to_integer value =
     (let (v, p, erange) = strtol 0 value in
      if \<not> erange \<and> p = [] then Some (word_of_int v) else None)"

definition var_value_convert_to_boolean :: "c_string \<Rightarrow> bool option" where
  "var_value_convert_to_boolean value =
     (if value = ''yes'' then Some True
      else if value = ''no'' then Some False
      else None)"

text \<open>A printed number has no leading zero, so that it is read back with base 10.\<close>

lemma digit_char_zero:
  assumes "d < 10"
  shows "digit_char d = CHR ''0'' \<longleftrightarrow> d = 0"
proof -
  have "digit_char d = CHR ''0'' \<longleftrightarrow> (of_char (digit_char d) :: nat) = of_char CHR ''0''"
    by (simp only: of_char_eq_iff)
  also have "\<dots> \<longleftrightarrow> d = 0"
    unfolding of_char_digit_char [OF assms] by simp
  finally show ?thesis .
qed

lemma nat_to_dec_hd_zero: "0 < n \<Longrightarrow> hd (nat_to_dec n) \<noteq> CHR ''0''"
proof (induction n rule: nat_to_dec.induct)
  case (1 n)
  show ?case
  proof (cases "n < 10")
    case True
    then show ?thesis using 1(2) by (simp add: nat_to_dec.simps [of n] digit_char_zero)
  next
    case False
    then have "0 < n div 10" by (simp add: div_greater_zero_iff)
    then show ?thesis using 1(1) [OF False] False by (simp add: nat_to_dec.simps [of n])
  qed
qed

lemma strtol_base_nat_to_dec: "0 < n \<Longrightarrow> strtol_base 0 (nat_to_dec n) = (10, nat_to_dec n)"
  using nat_to_dec_hd_zero [of n]
  by (cases "nat_to_dec n") (auto simp: strtol_base_def split: list.splits)

lemma strtol_sign_minus: "strtol_sign (dropWhile isspace (CHR ''-'' # ds)) = (True, ds)"
  by (simp add: isspace_def strtol_sign_def)

lemma strtol_int_to_dec:
  assumes "long_min \<le> v" and "v \<le> long_max"
  shows "strtol 0 (int_to_dec v) = (v, [], False)"
proof (cases "v = 0")
  case True
  then show ?thesis by simp code_simp
next
  case False
  define n where "n = nat \<bar>v\<bar>"
  have n: "0 < n" "v = (if v < 0 then - int n else int n)" using False by (simp_all add: n_def)
  have sign: "strtol_sign (dropWhile isspace (int_to_dec v)) = (v < 0, nat_to_dec n)"
  proof (cases "v < 0")
    case True
    then have "int_to_dec v = CHR ''-'' # nat_to_dec n" by (simp add: int_to_dec_def n_def)
    then show ?thesis using strtol_sign_minus [of "nat_to_dec n"] True by (simp only:)
  next
    case False
    then have "int_to_dec v = nat_to_dec n" by (simp add: int_to_dec_def n_def)
    then show ?thesis using strtol_sign_digits [OF nat_to_dec_digits [of n]] False by (simp only:)
  qed
  have "[] \<noteq> nat_to_dec n" by (metis nat_to_dec_not_Nil)
  then show ?thesis
    using n assms by (simp add: strtol_def sign strtol_base_nat_to_dec scan_digits_nat_to_dec)
qed

section \<open>Properties\<close>

text \<open>Every \<open>int\<close> printed in decimal is converted back to itself, and the boolean conversion
  accepts exactly the two words the literals print as.\<close>

lemma var_value_conversion_roundtrip:
  "var_value_convert_to_integer (int_to_dec (sint i)) = Some i
   \<and> var_value_convert_to_boolean (if b then ''yes'' else ''no'') = Some b
   \<and> (var_value_convert_to_boolean v \<noteq> None \<longleftrightarrow> v = ''yes'' \<or> v = ''no'')"
proof -
  have "long_min \<le> sint i" "sint i \<le> long_max"
    using sint_range_size [of i] by (simp_all add: long_min_def long_max_def word_size)
  then show ?thesis
    by (auto simp: var_value_convert_to_integer_def strtol_int_to_dec var_value_convert_to_boolean_def)
qed

text \<open>The integer conversion also accepts texts that denote no \<open>int\<close>: the empty value counts as
  zero, and a number beyond 32 bits is cut down without an error.\<close>

lemma var_value_convert_to_integer_lenient:
  "var_value_convert_to_integer [] = Some 0
   \<and> var_value_convert_to_integer (int_to_dec (2 ^ 32 + 1)) = Some 1
   \<and> var_value_convert_to_integer (int_to_dec (2 ^ 31)) = Some (- (2 ^ 31))"
proof -
  have "var_value_convert_to_integer [] = Some 0" by code_simp
  then show ?thesis
    by (simp add: var_value_convert_to_integer_def strtol_int_to_dec long_min_def long_max_def)
qed

end
