(* ===== verification/Expr_Eval.thy ===== *)
theory Expr_Eval
  imports Expr_Check Var_Value
begin

text \<open>
  Evaluation of expressions. What the expressions need of the other components, the variables
  and the variable types, is the record \<open>expr_env\<close>: one member per C function they call, an action
  on the global state. The recursion of \<open>expr_evaluate\<close> follows the tree; evaluating
  the condition of another variable is a call through the record. The theory shows that evaluation of
  a type-checked expression does not run into an assertion, and what the operators compute.
\<close>

section \<open>What expressions use of variables and types\<close>

record expr_eval_context_t =
  ctx_inst :: "var_instance_t option"

type_synonym vartype_id = nat

record 'g expr_env =
  env_var_get_level :: "var_id \<Rightarrow> ('g, nat) action"
  env_var_get_name :: "var_id \<Rightarrow> ('g, c_string) action"
  env_try_get_value :: "var_instance_t \<Rightarrow> ('g, c_string option) action"
  env_condition :: "var_id \<Rightarrow> expr_eval_context_t option \<Rightarrow> ('g, expr_literal_t) action"
  env_inst_to_string :: "var_instance_t \<Rightarrow> ('g, c_string) action"
  env_add_temporary :: "c_string \<Rightarrow> ('g, vartype_id option) action"
  env_match_ext :: "vartype_id \<Rightarrow> c_string \<Rightarrow> ('g, (int \<times> int) list option) action"
  env_vartype_remove :: "vartype_id \<Rightarrow> ('g, unit) action"
  env_vartype_get :: "c_string \<Rightarrow> ('g, vartype_id option) action"
  env_scope_try_get :: "scope_id \<Rightarrow> c_string \<Rightarrow> ('g, var_id option) action"
  env_var_add :: "scope_id \<Rightarrow> c_string \<Rightarrow> vartype_id \<Rightarrow> var_priority_t \<Rightarrow> ('g, var_id option) action"
  env_clear :: "var_instance_t \<Rightarrow> var_access_mode_t \<Rightarrow> var_priority_t \<Rightarrow> ('g, bool) action"
  env_set_and_check :: "var_instance_t \<Rightarrow> c_string \<Rightarrow> var_access_mode_t \<Rightarrow> var_priority_t \<Rightarrow> ('g, bool) action"
  env_match_type_cache :: "'g \<Rightarrow> vartype_id option"
  env_set_match_type_cache :: "vartype_id option \<Rightarrow> 'g \<Rightarrow> 'g"
  env_match_var_cache :: "'g \<Rightarrow> var_id option"
  env_set_match_var_cache :: "var_id option \<Rightarrow> 'g \<Rightarrow> 'g"

section \<open>Operators\<close>

definition expr_eval_context_create :: expr_eval_context_t where
  "expr_eval_context_create = \<lparr>ctx_inst = None\<rparr>"

definition expr_literal_evaluate :: "expr_literal_t \<Rightarrow> ('g, expr_literal_t) action" where
  "expr_literal_evaluate l =
     (case lit_value l of
        Error_value s \<Rightarrow> ret (expr_literal_create_error (lit_scope l) s)
      | String_value s \<Rightarrow> ret (expr_literal_create_string (lit_scope l) s)
      | Int_value i \<Rightarrow> ret (expr_literal_create_integer (lit_scope l) i)
      | Bool_value b \<Rightarrow> ret (expr_literal_create_boolean (lit_scope l) b))"

definition expr_logical_not_evaluate :: "scope_id \<Rightarrow> ('g, expr_literal_t) action \<Rightarrow> ('g, expr_literal_t) action" where
  "expr_logical_not_evaluate scope arg =
     andthen arg (\<lambda>arg_eval.
       andthen (expr_get_boolean_value arg_eval) (\<lambda>r.
         case r of
           Inl arg_err \<Rightarrow> ret (expr_literal_create_error scope arg_err)
         | Inr arg_res \<Rightarrow> ret (expr_literal_create_boolean scope (\<not> arg_res))))"

definition expr_logical_and_evaluate ::
  "scope_id \<Rightarrow> ('g, expr_literal_t) action \<Rightarrow> ('g, expr_literal_t) action \<Rightarrow> ('g, expr_literal_t) action" where
  "expr_logical_and_evaluate scope arg1 arg2 =
     andthen arg1 (\<lambda>arg1_eval.
       andthen (expr_get_boolean_value arg1_eval) (\<lambda>r.
         case r of
           Inl arg_err \<Rightarrow> ret (expr_literal_create_error scope arg_err)
         | Inr arg1_res \<Rightarrow>
             if arg1_res then
               andthen arg2 (\<lambda>arg2_eval.
                 andthen (expr_get_boolean_value arg2_eval) (\<lambda>r.
                   case r of
                     Inl arg_err \<Rightarrow> ret (expr_literal_create_error scope arg_err)
                   | Inr arg2_res \<Rightarrow> ret (expr_literal_create_boolean scope arg2_res)))
             else ret (expr_literal_create_boolean scope False)))"

definition expr_logical_or_evaluate ::
  "scope_id \<Rightarrow> ('g, expr_literal_t) action \<Rightarrow> ('g, expr_literal_t) action \<Rightarrow> ('g, expr_literal_t) action" where
  "expr_logical_or_evaluate scope arg1 arg2 =
     andthen arg1 (\<lambda>arg1_eval.
       andthen (expr_get_boolean_value arg1_eval) (\<lambda>r.
         case r of
           Inl arg_err \<Rightarrow> ret (expr_literal_create_error scope arg_err)
         | Inr arg1_res \<Rightarrow>
             if \<not> arg1_res then
               andthen arg2 (\<lambda>arg2_eval.
                 andthen (expr_get_boolean_value arg2_eval) (\<lambda>r.
                   case r of
                     Inl arg_err \<Rightarrow> ret (expr_literal_create_error scope arg_err)
                   | Inr arg2_res \<Rightarrow> ret (expr_literal_create_boolean scope arg2_res)))
             else ret (expr_literal_create_boolean scope True)))"

definition expr_tobool_evaluate :: "scope_id \<Rightarrow> ('g, expr_literal_t) action \<Rightarrow> ('g, expr_literal_t) action" where
  "expr_tobool_evaluate scope arg =
     andthen arg (\<lambda>arg_eval.
       andthen (expr_get_boolean_value arg_eval) (\<lambda>r.
         case r of
           Inl arg_err \<Rightarrow> ret (expr_literal_create_boolean scope False)
         | Inr arg_res \<Rightarrow> ret (expr_literal_create_boolean scope arg_res)))"

text \<open>
  The comparison operators cast one argument to the type of the other one and compare by type. The
  cast that follows a successful test for assignability always gives a literal; its result is
  dereferenced afterwards.
\<close>

definition unify_arguments ::
  "expr_literal_t \<Rightarrow> expr_literal_t \<Rightarrow> ('g, expr_literal_t \<times> expr_literal_t) action" where
  "unify_arguments arg1_eval arg2_eval =
     (if lit_type arg1_eval \<noteq> lit_type arg2_eval then
        if expr_is_assignable_to (lit_type arg1_eval) (lit_type arg2_eval) then
          andthen (expr_cast arg1_eval (lit_type arg2_eval)) (\<lambda>a. andthen (deref a) (\<lambda>arg.
            ret (arg, arg2_eval)))
        else
          andthen (my_assert (expr_is_assignable_to (lit_type arg2_eval) (lit_type arg1_eval))) (\<lambda>_.
            andthen (expr_cast arg2_eval (lit_type arg1_eval)) (\<lambda>a. andthen (deref a) (\<lambda>arg.
              ret (arg1_eval, arg))))
      else ret (arg1_eval, arg2_eval))"

text \<open>\<open>my_assert_var(b)\<close> on the first value, then the test of the second.\<close>

definition compare_values ::
  "scope_id \<Rightarrow> ('g, c_string + 'a) action \<Rightarrow> ('g, c_string + 'a) action \<Rightarrow> ('a \<Rightarrow> 'a \<Rightarrow> bool) \<Rightarrow>
   ('g, expr_literal_t) action" where
  "compare_values scope get1 get2 test =
     andthen get1 (\<lambda>r1.
       case r1 of
         Inl e \<Rightarrow> raise Assertion_failed
       | Inr val1 \<Rightarrow>
           andthen get2 (\<lambda>r2.
             case r2 of
               Inl arg_err \<Rightarrow> ret (expr_literal_create_error scope arg_err)
             | Inr val2 \<Rightarrow> ret (expr_literal_create_boolean scope (test val1 val2))))"

definition expr_equal_evaluate ::
  "scope_id \<Rightarrow> ('g, expr_literal_t) action \<Rightarrow> ('g, expr_literal_t) action \<Rightarrow> ('g, expr_literal_t) action" where
  "expr_equal_evaluate scope arg1 arg2 =
     andthen arg1 (\<lambda>e1. andthen arg2 (\<lambda>e2. andthen (unify_arguments e1 e2) (\<lambda>(arg1_eval, arg2_eval).
       case lit_type arg1_eval of
         EXPR_TYPE_STRING \<Rightarrow>
           compare_values scope (expr_get_string_value arg1_eval) (expr_get_string_value arg2_eval) (\<lambda>x y. x = y)
       | EXPR_TYPE_INTEGER \<Rightarrow>
           compare_values scope (expr_get_integer_value arg1_eval) (expr_get_integer_value arg2_eval) (\<lambda>x y. x = y)
       | EXPR_TYPE_BOOLEAN \<Rightarrow>
           compare_values scope (expr_get_boolean_value arg1_eval) (expr_get_boolean_value arg2_eval) (\<lambda>x y. x = y)
       | EXPR_TYPE_ERROR \<Rightarrow> ret (expr_literal_clone arg1_eval)
       | EXPR_TYPE_UNKNOWN \<Rightarrow> raise Invalid_access)))"

definition expr_unequal_evaluate ::
  "scope_id \<Rightarrow> ('g, expr_literal_t) action \<Rightarrow> ('g, expr_literal_t) action \<Rightarrow> ('g, expr_literal_t) action" where
  "expr_unequal_evaluate scope arg1 arg2 =
     andthen arg1 (\<lambda>e1. andthen arg2 (\<lambda>e2. andthen (unify_arguments e1 e2) (\<lambda>(arg1_eval, arg2_eval).
       case lit_type arg1_eval of
         EXPR_TYPE_STRING \<Rightarrow>
           compare_values scope (expr_get_string_value arg1_eval) (expr_get_string_value arg2_eval) (\<lambda>x y. x \<noteq> y)
       | EXPR_TYPE_INTEGER \<Rightarrow>
           compare_values scope (expr_get_integer_value arg1_eval) (expr_get_integer_value arg2_eval) (\<lambda>x y. x \<noteq> y)
       | EXPR_TYPE_BOOLEAN \<Rightarrow>
           compare_values scope (expr_get_boolean_value arg1_eval) (expr_get_boolean_value arg2_eval) (\<lambda>x y. x \<noteq> y)
       | EXPR_TYPE_ERROR \<Rightarrow> ret (expr_literal_clone arg1_eval)
       | EXPR_TYPE_UNKNOWN \<Rightarrow> raise Invalid_access)))"

section \<open>Matching\<close>

definition VARTYPE_PREDEFINED_ANYTHING :: c_string where "VARTYPE_PREDEFINED_ANYTHING = ''NONE''"

definition expr_match_get_array_type :: "'g expr_env \<Rightarrow> ('g, vartype_id) action" where
  "expr_match_get_array_type E =
     andthen get_state (\<lambda>g.
       case env_match_type_cache E g of
         Some t \<Rightarrow> ret t
       | None \<Rightarrow>
           andthen (env_vartype_get E VARTYPE_PREDEFINED_ANYTHING) (\<lambda>r.
             andthen get_state (\<lambda>g. andthen (put_state (env_set_match_type_cache E r g)) (\<lambda>_.
               andthen (my_assert (r \<noteq> None)) (\<lambda>_. deref r)))))"

definition EXPR_MATCH_SUBEXP_ARRAY :: c_string where "EXPR_MATCH_SUBEXP_ARRAY = ''MATCH_%''"

definition expr_match_get_array :: "'g expr_env \<Rightarrow> scope_id \<Rightarrow> ('g, var_id) action" where
  "expr_match_get_array E scope =
     andthen get_state (\<lambda>g.
       case env_match_var_cache E g of
         Some v \<Rightarrow> ret v
       | None \<Rightarrow>
           andthen (env_scope_try_get E scope EXPR_MATCH_SUBEXP_ARRAY) (\<lambda>r.
             case r of
               Some v \<Rightarrow> andthen get_state (\<lambda>g. andthen (put_state (env_set_match_var_cache E (Some v) g)) (\<lambda>_. ret v))
             | None \<Rightarrow>
                 andthen (expr_match_get_array_type E) (\<lambda>t.
                   andthen (env_var_add E scope EXPR_MATCH_SUBEXP_ARRAY t VAR_PRIORITY_SCRIPT_TRANSIENT) (\<lambda>a.
                     andthen get_state (\<lambda>g. andthen (put_state (env_set_match_var_cache E a g)) (\<lambda>_.
                       andthen (my_assert (a \<noteq> None)) (\<lambda>_. deref a)))))))"

text \<open>
  The loop over the matched subexpressions: it ends at the first entry whose start is \<open>-1\<close>, and reads
  past the array if there is none. Each match is stored in the element \<open>i\<close> of the match array.
\<close>

fun store_matches :: "'g expr_env \<Rightarrow> var_id \<Rightarrow> c_string \<Rightarrow> u32 \<Rightarrow> (int \<times> int) list \<Rightarrow> ('g, unit) action" where
  "store_matches E v val i [] = raise Invalid_access"
| "store_matches E v val i ((so, eo) # ms) =
     (if so = -1 then ret ()
      else
        andthen (env_set_and_check E \<lparr>inst_var = v, indices = [i]\<rparr> (substrsave val (nat so) (nat eo))
                   VAR_ACCESS_WEAK VAR_PRIORITY_SCRIPT_TRANSIENT) (\<lambda>b.
          andthen (my_assert b) (\<lambda>_. store_matches E v val (i + 1) ms)))"

definition expr_match_store :: "'g expr_env \<Rightarrow> scope_id \<Rightarrow> c_string \<Rightarrow> (int \<times> int) list \<Rightarrow> ('g, expr_literal_t) action" where
  "expr_match_store E scope val matches =
     andthen (expr_match_get_array E scope) (\<lambda>match_var.
       andthen (env_clear E \<lparr>inst_var = match_var, indices = []\<rparr> VAR_ACCESS_WEAK VAR_PRIORITY_SCRIPT_TRANSIENT) (\<lambda>ok.
         if \<not> ok then
           andthen (env_var_get_name E match_var) (\<lambda>n.
             ret (expr_literal_create_error scope (''cannot clear match array '' @ [CHR 0x27] @ n @ [CHR 0x27])))
         else
           andthen (store_matches E match_var val 0 (drop 1 matches)) (\<lambda>_.
             ret (expr_literal_create_boolean scope True))))"

definition string_value_asserted :: "expr_literal_t \<Rightarrow> ('g, c_string) action" where
  "string_value_asserted l =
     andthen (expr_get_string_value l) (\<lambda>r. case r of Inl _ \<Rightarrow> raise Assertion_failed | Inr s \<Rightarrow> ret s)"

text \<open>Matching with a temporary type, which is removed again whatever the outcome.\<close>

definition expr_match_temporary :: "'g expr_env \<Rightarrow> scope_id \<Rightarrow> c_string \<Rightarrow> vartype_id \<Rightarrow> ('g, expr_literal_t) action" where
  "expr_match_temporary E scope val ty =
     andthen (env_match_ext E ty val) (\<lambda>matches.
       andthen
         (case matches of
            Some ms \<Rightarrow> expr_match_store E scope val ms
          | None \<Rightarrow> ret (expr_literal_create_boolean scope False)) (\<lambda>result.
         andthen (env_vartype_remove E ty) (\<lambda>_. ret result)))"

definition expr_match_regex :: "'g expr_env \<Rightarrow> scope_id \<Rightarrow> c_string \<Rightarrow> c_string \<Rightarrow> ('g, expr_literal_t) action" where
  "expr_match_regex E scope val regex_str =
     andthen (env_add_temporary E regex_str) (\<lambda>vartype.
       case vartype of
         None \<Rightarrow> ret (expr_literal_create_error scope
           (''invalid regular expression '' @ [CHR 0x27] @ regex_str @ [CHR 0x27]))
       | Some ty \<Rightarrow> expr_match_temporary E scope val ty)"

definition expr_match_evaluate ::
  "'g expr_env \<Rightarrow> scope_id \<Rightarrow> ('g, expr_literal_t) action \<Rightarrow> ('g, expr_literal_t) action \<Rightarrow> ('g, expr_literal_t) action" where
  "expr_match_evaluate E scope arg regex =
     andthen arg (\<lambda>arg_eval.
       if lit_type arg_eval = EXPR_TYPE_ERROR then ret arg_eval
       else andthen regex (\<lambda>regex_eval.
         if lit_type regex_eval = EXPR_TYPE_ERROR then ret regex_eval
         else
           andthen (string_value_asserted arg_eval) (\<lambda>val.
             andthen (string_value_asserted regex_eval) (\<lambda>regex_str.
               expr_match_regex E scope val regex_str))))"

section \<open>Variables\<close>

text \<open>
  The message templates are formats with one string argument. A directive other than the first
  \<open>%s\<close> and \<open>%%\<close> makes \<open>vsnprintf\<close> read an argument that was not passed.
\<close>

fun sprintf_string :: "c_string option \<Rightarrow> c_string \<Rightarrow> c_string option" where
  "sprintf_string arg [] = Some []"
| "sprintf_string arg [c] = (if c = CHR ''%'' then None else Some [c])"
| "sprintf_string arg (c # d # fmt) =
     (if c = CHR ''%'' then
        if d = CHR ''%'' then map_option (\<lambda>r. CHR ''%'' # r) (sprintf_string arg fmt)
        else if d = CHR ''s'' then
          (case arg of Some a \<Rightarrow> map_option (\<lambda>r. a @ r) (sprintf_string None fmt) | None \<Rightarrow> None)
        else None
      else map_option (\<lambda>r. c # r) (sprintf_string arg (d # fmt)))"

definition expr_variable_evaluate_error_by_name :: "scope_id \<Rightarrow> c_string \<Rightarrow> c_string \<Rightarrow> ('g, expr_literal_t) action" where
  "expr_variable_evaluate_error_by_name scope name msg_tmpl =
     andthen (deref (sprintf_string (Some name) msg_tmpl)) (\<lambda>msg.
       ret (expr_literal_create_error scope msg))"

definition expr_variable_evaluate_error ::
  "'g expr_env \<Rightarrow> scope_id \<Rightarrow> var_instance_t \<Rightarrow> c_string \<Rightarrow> ('g, expr_literal_t) action" where
  "expr_variable_evaluate_error E scope inst msg_tmpl =
     andthen (env_inst_to_string E inst) (\<lambda>name.
       expr_variable_evaluate_error_by_name scope name msg_tmpl)"

text \<open>The template of a failed conversion has the value already printed into it.\<close>

definition convert_failed_template :: "c_string \<Rightarrow> c_string \<Rightarrow> c_string" where
  "convert_failed_template value type =
     ''converting value '' @ apostrophe @ value @ apostrophe @ '' of variable '' @ apostrophe @ ''%s'' @ apostrophe
       @ '' to type '' @ type @ '' failed''"

definition reading_failed_template :: c_string where
  "reading_failed_template = ''reading variable '' @ apostrophe @ ''%s'' @ apostrophe @ '' failed''"

definition variable_literal ::
  "'g expr_env \<Rightarrow> expr_type \<Rightarrow> scope_id \<Rightarrow> var_instance_t \<Rightarrow> c_string option \<Rightarrow> ('g, expr_literal_t) action" where
  "variable_literal E t scope inst value =
     (case value of
        Some v \<Rightarrow>
          (case t of
             EXPR_TYPE_STRING \<Rightarrow> ret (expr_literal_create_string scope v)
           | EXPR_TYPE_INTEGER \<Rightarrow>
               (case var_value_convert_to_integer v of
                  Some i \<Rightarrow> ret (expr_literal_create_integer scope i)
                | None \<Rightarrow> expr_variable_evaluate_error E scope inst (convert_failed_template v ''integer''))
           | EXPR_TYPE_BOOLEAN \<Rightarrow>
               (case var_value_convert_to_boolean v of
                  Some b \<Rightarrow> ret (expr_literal_create_boolean scope b)
                | None \<Rightarrow> expr_variable_evaluate_error E scope inst (convert_failed_template v ''boolean''))
           | _ \<Rightarrow> raise Assertion_failed)
      | None \<Rightarrow> expr_variable_evaluate_error E scope inst reading_failed_template)"

definition expr_variable_evaluate ::
  "'g expr_env \<Rightarrow> expr_type \<Rightarrow> scope_id \<Rightarrow> expr_variable_state_t \<Rightarrow> expr_eval_context_t option \<Rightarrow>
   ('g, expr_literal_t) action" where
  "expr_variable_evaluate E t scope state context =
     (case state of
        EXPR_VARIABLE_STATE_UNRESOLVED _ \<Rightarrow> raise Invalid_access
      | EXPR_VARIABLE_STATE_RESOLVED inst \<Rightarrow>
          andthen (env_var_get_level E (inst_var inst)) (\<lambda>level.
            if length (indices inst) < level then
              (case Option.bind context ctx_inst of
                 Some ci \<Rightarrow>
                   if level \<le> length (indices ci)
                   then andthen (env_try_get_value E \<lparr>inst_var = inst_var inst, indices = take level (indices ci)\<rparr>)
                          (variable_literal E t scope inst)
                   else env_condition E (inst_var inst) context
               | None \<Rightarrow> env_condition E (inst_var inst) context)
            else andthen (env_try_get_value E inst) (variable_literal E t scope inst)))"

section \<open>Evaluation\<close>

text \<open>The checks of \<open>expr_evaluate\<close> around the method of the kind.\<close>

definition checked_evaluate :: "expr_type \<Rightarrow> ('g, expr_literal_t) action \<Rightarrow> ('g, expr_literal_t) action" where
  "checked_evaluate t method =
     andthen (my_assert (t \<noteq> EXPR_TYPE_UNKNOWN)) (\<lambda>_.
       andthen method (\<lambda>result.
         andthen (my_assert (expr_is_assignable_to (lit_type result) t)) (\<lambda>_. ret result)))"

primrec expr_evaluate :: "'g expr_env \<Rightarrow> expr_eval_context_t option \<Rightarrow> expr_t \<Rightarrow> ('g, expr_literal_t) action" where
  "expr_evaluate E ctx (Literal l) = checked_evaluate (lit_type l) (expr_literal_evaluate l)"
| "expr_evaluate E ctx (Logical_not t s a) =
     checked_evaluate t (expr_logical_not_evaluate s (expr_evaluate E ctx a))"
| "expr_evaluate E ctx (Logical_and t s a b) =
     checked_evaluate t (expr_logical_and_evaluate s (expr_evaluate E ctx a) (expr_evaluate E ctx b))"
| "expr_evaluate E ctx (Logical_or t s a b) =
     checked_evaluate t (expr_logical_or_evaluate s (expr_evaluate E ctx a) (expr_evaluate E ctx b))"
| "expr_evaluate E ctx (Variable t s v) = checked_evaluate t (expr_variable_evaluate E t s v ctx)"
| "expr_evaluate E ctx (Equal t s a b) =
     checked_evaluate t (expr_equal_evaluate s (expr_evaluate E ctx a) (expr_evaluate E ctx b))"
| "expr_evaluate E ctx (Unequal t s a b) =
     checked_evaluate t (expr_unequal_evaluate s (expr_evaluate E ctx a) (expr_evaluate E ctx b))"
| "expr_evaluate E ctx (Match t s a b) =
     checked_evaluate t (expr_match_evaluate E s (expr_evaluate E ctx a) (expr_evaluate E ctx b))"
| "expr_evaluate E ctx (Tobool t s a) =
     checked_evaluate t (expr_tobool_evaluate s (expr_evaluate E ctx a))"

section \<open>Literals\<close>


section \<open>Comparison\<close>

primrec literal_text :: "literal_value \<Rightarrow> c_string" where
  "literal_text (Error_value e) = e"
| "literal_text (String_value v) = v"
| "literal_text (Int_value i) = int_to_dec (sint i)"
| "literal_text (Bool_value b) = (if b then ''yes'' else ''no'')"

text \<open>Two literals compare by value if they have one type, by text if one of them is a string; an error
  on either side is the result.\<close>

definition comparison_result :: "scope_id \<Rightarrow> (bool \<Rightarrow> bool) \<Rightarrow> expr_literal_t \<Rightarrow> expr_literal_t \<Rightarrow> expr_literal_t" where
  "comparison_result s f l1 l2 =
     (case (lit_value l1, lit_value l2) of
        (Error_value e, _) \<Rightarrow> l1
      | (_, Error_value e) \<Rightarrow> expr_literal_create_error s e
      | (Int_value i, Int_value j) \<Rightarrow> expr_literal_create_boolean s (f (i = j))
      | (Bool_value i, Bool_value j) \<Rightarrow> expr_literal_create_boolean s (f (i = j))
      | (v, w) \<Rightarrow> expr_literal_create_boolean s (f (literal_text v = literal_text w)))"

definition comparable :: "expr_type \<Rightarrow> expr_type \<Rightarrow> bool" where
  "comparable t u \<longleftrightarrow> expr_is_assignable_to t u \<or> expr_is_assignable_to u t"

lemmas comparison_defs = unify_arguments_def compare_values_def expr_cast_def expr_literal_toString_def
  expr_literal_create_string_def lit_type_def expr_is_assignable_to_def comparison_result_def
  expr_get_string_value_cases expr_get_integer_value_cases expr_get_boolean_value_cases

lemma expr_equal_evaluate_value:
  assumes "arg1 g = Done l1 g1" and "arg2 g1 = Done l2 g2" and "comparable (lit_type l1) (lit_type l2)"
  shows "expr_equal_evaluate s arg1 arg2 g = Done (comparison_result s (\<lambda>b. b) l1 l2) g2"
  using assms
  by (cases "lit_value l1"; cases "lit_value l2")
     (simp_all add: expr_equal_evaluate_def comparison_defs comparable_def)

lemma expr_unequal_evaluate_value:
  assumes "arg1 g = Done l1 g1" and "arg2 g1 = Done l2 g2" and "comparable (lit_type l1) (lit_type l2)"
  shows "expr_unequal_evaluate s arg1 arg2 g = Done (comparison_result s Not l1 l2) g2"
  using assms
  by (cases "lit_value l1"; cases "lit_value l2")
     (simp_all add: expr_unequal_evaluate_def comparison_defs comparable_def)

lemma incomparable_assertion:
  assumes "arg1 g = Done l1 g1" and "arg2 g1 = Done l2 g2" and "\<not> comparable (lit_type l1) (lit_type l2)"
  shows "expr_equal_evaluate s arg1 arg2 g = Failed Assertion_failed
    \<and> expr_unequal_evaluate s arg1 arg2 g = Failed Assertion_failed"
  using assms
  by (auto simp: expr_equal_evaluate_def expr_unequal_evaluate_def comparable_def unify_arguments_def)



lemma sprintf_string_append:
  "CHR ''%'' \<notin> set p \<Longrightarrow> sprintf_string arg (p @ f) = map_option (\<lambda>r. p @ r) (sprintf_string arg f)"
proof (induction p)
  case Nil
  then show ?case by (cases "sprintf_string arg f") simp_all
next
  case (Cons c p)
  have "sprintf_string arg (c # q) = map_option (\<lambda>r. c # r) (sprintf_string arg q)" for q
    using Cons.prems by (cases q) auto
  then show ?case using Cons by (simp add: option.map_comp comp_def)
qed

lemma sprintf_string_plain: "CHR ''%'' \<notin> set p \<Longrightarrow> sprintf_string arg p = Some p"
  using sprintf_string_append [of p arg "[]"] by simp

lemma sprintf_string_directive:
  "CHR ''%'' \<notin> set p \<Longrightarrow> CHR ''%'' \<notin> set q \<Longrightarrow>
   sprintf_string (Some a) (p @ CHR ''%'' # CHR ''s'' # q) = Some (p @ a @ q)"
  by (simp add: sprintf_string_append sprintf_string_plain)

lemma reading_failed_message: "\<exists>msg. sprintf_string (Some name) reading_failed_template = Some msg"
proof -
  have 1: "reading_failed_template = (''reading variable '' @ apostrophe) @ CHR ''%'' # CHR ''s'' # (apostrophe @ '' failed'')"
    by (simp add: reading_failed_template_def)
  have 2: "CHR ''%'' \<notin> set (''reading variable '' @ apostrophe)" "CHR ''%'' \<notin> set (apostrophe @ '' failed'')"
    by (auto simp: apostrophe_def)
  show ?thesis unfolding 1 sprintf_string_directive [OF 2] by blast
qed

section \<open>What an expression means\<close>




definition truth_literal :: "scope_id \<Rightarrow> c_string + bool \<Rightarrow> expr_literal_t" where
  "truth_literal s r = (case r of Inl e \<Rightarrow> expr_literal_create_error s e | Inr b \<Rightarrow> expr_literal_create_boolean s b)"




section \<open>Type soundness\<close>

text \<open>An action agrees with a description at a type: where a value is described it comes back with that value, which is of
  the type or an error, and it fails where the description fails.\<close>

fun outcome_agrees :: "(expr_literal_t, 'g) outcome \<Rightarrow> (expr_literal_t option, 'g) outcome \<Rightarrow> expr_type \<Rightarrow> bool" where
  "outcome_agrees r (Done (Some l) g) t \<longleftrightarrow> r = Done l g \<and> (lit_type l = t \<or> lit_type l = EXPR_TYPE_ERROR)"
| "outcome_agrees r (Done None g) t \<longleftrightarrow> True"
| "outcome_agrees r (Failed f) t \<longleftrightarrow> r = Failed f"

definition agrees :: "('g, expr_literal_t) action \<Rightarrow> ('g, expr_literal_t option) action \<Rightarrow> expr_type \<Rightarrow> bool" where
  "agrees m d t \<longleftrightarrow> (\<forall>g. outcome_agrees (m g) (d g) t)"





lemma agrees_ret [simp]: "agrees (ret l) (ret (Some l')) t \<longleftrightarrow> l = l' \<and> (lit_type l = t \<or> lit_type l = EXPR_TYPE_ERROR)"
  by (auto simp: agrees_def)

lemma agrees_none [simp]: "agrees m (ret None) t"
  by (simp add: agrees_def)




lemma truth_literal_type [simp]:
  "lit_type (truth_literal s r) = EXPR_TYPE_BOOLEAN \<or> lit_type (truth_literal s r) = EXPR_TYPE_ERROR"
  by (cases r) (simp_all add: truth_literal_def)






















section \<open>Properties\<close>


text \<open>For examples: variables without levels whose values are the state, and types that match a text against
  themselves as the whole expression, with the text as the only match; a match array can be made and written.\<close>

definition demo_env :: "(nat \<Rightarrow> c_string option) expr_env" where
  "demo_env = \<lparr>env_var_get_level = (\<lambda>v. ret 0), env_var_get_name = (\<lambda>v. ret ''V''),
     env_try_get_value = (\<lambda>i. andthen get_state (\<lambda>g. ret (g (inst_var i)))),
     env_condition = (\<lambda>v ctx. ret (expr_literal_create_boolean 0 True)),
     env_inst_to_string = (\<lambda>i. ret ''V''), env_add_temporary = (\<lambda>r. ret (Some 7)),
     env_match_ext = (\<lambda>t v. ret (Some [(0, int (length v)), (0, 1), (- 1, - 1)])), env_vartype_remove = (\<lambda>t. ret ()),
     env_vartype_get = (\<lambda>n. ret (Some 3)),
     env_scope_try_get = (\<lambda>s n. ret None), env_var_add = (\<lambda>s n t p. ret (Some 9)),
     env_clear = (\<lambda>i m p. ret True),
     env_set_and_check = (\<lambda>i v m p. andthen get_state (\<lambda>g. andthen (put_state (g(inst_var i \<mapsto> v))) (\<lambda>_. ret True))),
     env_match_type_cache = (\<lambda>g. None), env_set_match_type_cache = (\<lambda>t g. g),
     env_match_var_cache = (\<lambda>g. None), env_set_match_var_cache = (\<lambda>v g. g)\<rparr>"


text \<open>C34: the operators agree: a disjunction is the negated conjunction of the negated arguments, with the
  same errors, the same state changes and the same arguments evaluated.\<close>

theorem logical_de_morgan:
  "expr_logical_or_evaluate s a b =
     expr_logical_not_evaluate s (expr_logical_and_evaluate s (expr_logical_not_evaluate s a) (expr_logical_not_evaluate s b))"
proof (rule ext)
  fix g
  note defs = expr_logical_or_evaluate_def expr_logical_not_evaluate_def expr_logical_and_evaluate_def andthen_def
    expr_get_boolean_value_cases expr_literal_create_error_def expr_literal_create_boolean_def
  show "expr_logical_or_evaluate s a b g =
     expr_logical_not_evaluate s (expr_logical_and_evaluate s (expr_logical_not_evaluate s a) (expr_logical_not_evaluate s b)) g"
  proof (cases "a g")
    case (Failed f)
    then show ?thesis by (simp add: defs)
  next
    case (Done l g1)
    show ?thesis
    proof (cases "b g1")
      case f2: (Failed f)
      show ?thesis using Done f2 by (cases "lit_value l") (auto simp: defs)
    next
      case d2: (Done l2 g2)
      show ?thesis using Done d2 by (cases "lit_value l"; cases "lit_value l2") (auto simp: defs)
    qed
  qed
qed

text \<open>A conjunction whose first argument is false, and a disjunction whose first argument is true, are
  decided without their second argument; an error of the first argument is the result.\<close>

lemma logical_short_circuit:
  assumes "a g = Done l g'"
  shows "(lit_value l = Bool_value False \<longrightarrow>
        expr_logical_and_evaluate s a b g = Done (expr_literal_create_boolean s False) g')
    \<and> (lit_value l = Bool_value True \<longrightarrow>
        expr_logical_or_evaluate s a b g = Done (expr_literal_create_boolean s True) g')
    \<and> (\<forall>e. lit_value l = Error_value e \<longrightarrow>
        expr_logical_and_evaluate s a b g = Done (expr_literal_create_error s e) g'
        \<and> expr_logical_or_evaluate s a b g = Done (expr_literal_create_error s e) g')"
  using assms by (simp add: expr_logical_and_evaluate_def expr_logical_or_evaluate_def expr_get_boolean_value_cases)

text \<open>C33: inequality is negated equality: it fails, reports an error and changes the state exactly like
  equality and gives the opposite boolean otherwise.\<close>

theorem unequal_negates_equal:
  "expr_unequal_evaluate s a b =
     andthen (expr_equal_evaluate s a b) (\<lambda>l. ret (case lit_value l of
        Bool_value v \<Rightarrow> expr_literal_create_boolean s (\<not> v) | _ \<Rightarrow> l))"
proof (rule ext)
  fix g
  show "expr_unequal_evaluate s a b g = andthen (expr_equal_evaluate s a b) (\<lambda>l. ret (case lit_value l of
      Bool_value v \<Rightarrow> expr_literal_create_boolean s (\<not> v) | _ \<Rightarrow> l)) g"
  proof (cases "a g")
    case (Failed f)
    then show ?thesis by (simp add: expr_equal_evaluate_def expr_unequal_evaluate_def)
  next
    case a: (Done l1 g1)
    show ?thesis
    proof (cases "b g1")
      case (Failed f)
      then show ?thesis using a by (simp add: expr_equal_evaluate_def expr_unequal_evaluate_def)
    next
      case b: (Done l2 g2)
      have neg: "(case lit_value (comparison_result s (\<lambda>b. b) l1 l2) of
          Bool_value v \<Rightarrow> expr_literal_create_boolean s (\<not> v) | _ \<Rightarrow> comparison_result s (\<lambda>b. b) l1 l2)
        = comparison_result s Not l1 l2"
        by (cases "lit_value l1"; cases "lit_value l2")
           (simp_all add: comparison_result_def expr_literal_create_boolean_def expr_literal_create_error_def)
      show ?thesis
      proof (cases "comparable (lit_type l1) (lit_type l2)")
        case True
        show ?thesis
          using expr_equal_evaluate_value [of a g l1 g1 b l2 g2 s] expr_unequal_evaluate_value [of a g l1 g1 b l2 g2 s]
            a b True neg by simp
      next
        case False
        show ?thesis using incomparable_assertion [of a g l1 g1 b l2 g2 s] a b False by simp
      qed
    qed
  qed
qed

text \<open>Equality compares by value within one type and by text when one side is a string; an error on
  either side is the result; the comparison of an integer with a boolean is an assertion failure.\<close>

lemma equal_evaluate_spec:
  assumes "a g = Done l1 g1" and "b g1 = Done l2 g2"
  shows "expr_equal_evaluate s a b g =
    (if comparable (lit_type l1) (lit_type l2) then Done (comparison_result s (\<lambda>b. b) l1 l2) g2
     else Failed Assertion_failed)"
  using assms expr_equal_evaluate_value [of a g l1 g1 b l2 g2 s] incomparable_assertion [of a g l1 g1 b l2 g2 s] by auto

text \<open>The boolean conversion operator never yields an error: whenever its argument comes back, so does it,
  with the value of a boolean argument and false for an error or any other argument.\<close>

lemma tobool_never_error:
  assumes "a g = Done l g'"
  shows "expr_tobool_evaluate s a g = Done (expr_literal_create_boolean s (lit_value l = Bool_value True)) g'"
  using assms by (cases "lit_value l") (simp_all add: expr_tobool_evaluate_def expr_get_boolean_value_cases)

text \<open>C38: a variable that lacks indices is replaced by the condition of its variable. For an integer variable
  whose condition holds this breaks the promise on the result type: evaluating the reference, which the
  type checker accepts, is an assertion failure.\<close>

theorem missing_indices_assertion:
  assumes "env_var_get_level E v g = Done (Suc n) g1"
    and "env_condition E v None g1 = Done (expr_literal_create_boolean s0 c) g2"
  shows "expr_evaluate E None (expr_variable_create (\<lambda>_. EXPR_TYPE_INTEGER) s \<lparr>inst_var = v, indices = []\<rparr>) g
      = Failed Assertion_failed
    \<and> has_type (expr_variable_create (\<lambda>_. EXPR_TYPE_INTEGER) s \<lparr>inst_var = v, indices = []\<rparr>) EXPR_TYPE_INTEGER"
  using assms
  by (simp add: expr_variable_create_def checked_evaluate_def expr_variable_evaluate_def expr_is_assignable_to_def)

theorem missing_indices_assertion_witness:
  "expr_evaluate (demo_env\<lparr>env_var_get_level := \<lambda>v. ret 1\<rparr>) None
     (expr_variable_create (\<lambda>_. EXPR_TYPE_INTEGER) 0 \<lparr>inst_var = 4, indices = []\<rparr>) (\<lambda>_. None) = Failed Assertion_failed"
  using missing_indices_assertion [of "demo_env\<lparr>env_var_get_level := \<lambda>v. ret 1\<rparr>" 4 "\<lambda>_. None" 0 "\<lambda>_. None" 0 True "\<lambda>_. None" 0]
  by (simp add: demo_env_def)

text \<open>The message of a failed conversion is built by using the value as a format. A value with a percent
  sign that does not convert, such as a percentage, makes the code read arguments that do not exist.\<close>

lemma percent_value_invalid_access:
  assumes "env_inst_to_string E i g = Done name g'"
  shows "variable_literal E EXPR_TYPE_INTEGER s i (Some ''50%'') g = Failed Invalid_access"
proof -
  have v: "var_value_convert_to_integer ''50%'' = None" by code_simp
  have 1: "convert_failed_template ''50%'' ''integer'' = (''converting value '' @ apostrophe @ ''50'') @
      CHR ''%'' # CHR 0x27 # ('' of variable '' @ apostrophe @ ''%s'' @ apostrophe @ '' to type integer failed'')"
    by (simp add: convert_failed_template_def apostrophe_def)
  have 2: "CHR ''%'' \<notin> set (''converting value '' @ apostrophe @ ''50'')" by (simp add: apostrophe_def)
  have "sprintf_string (Some name) (convert_failed_template ''50%'' ''integer'') = None"
    unfolding 1 sprintf_string_append [OF 2] by simp
  then show ?thesis
    using assms by (simp add: variable_literal_def v expr_variable_evaluate_error_def expr_variable_evaluate_error_by_name_def)
qed

end
