(* ===== verification/Var_Part.thy ===== *)
theory Var_Part
  imports C_Strings
begin

text \<open>
  The parts of a variable name (\<open>var/part.c\<close>): a top-level name followed by structure
  members and array indices. The theory shows that the classic notation, in which parts are joined by
  underscores, can be read back.
\<close>

section \<open>Data and operations\<close>

datatype var_part_t =
    VAR_PART_TOP_LEVEL c_string
  | VAR_PART_STRUCTURE var_part_t c_string
  | VAR_PART_ARRAY var_part_t u32

definition var_part_create_top_level :: "c_string \<Rightarrow> var_part_t" where
  "var_part_create_top_level name = VAR_PART_TOP_LEVEL name"

definition var_part_create_struct :: "var_part_t \<Rightarrow> c_string \<Rightarrow> var_part_t" where
  "var_part_create_struct parent name = VAR_PART_STRUCTURE parent name"

definition var_part_create_array :: "var_part_t \<Rightarrow> u32 \<Rightarrow> var_part_t" where
  "var_part_create_array parent index = VAR_PART_ARRAY parent index"

primrec var_part_to_string :: "var_part_t \<Rightarrow> c_string" where
  "var_part_to_string (VAR_PART_TOP_LEVEL name) = name"
| "var_part_to_string (VAR_PART_STRUCTURE parent name) = (var_part_to_string parent @ ''.'') @ name"
| "var_part_to_string (VAR_PART_ARRAY parent index) =
     (if index = 0 then var_part_to_string parent @ ''[]''
      else ((var_part_to_string parent @ ''['') @ nat_to_dec (unat index)) @ '']'')"

primrec var_part_to_string_classic_style :: "var_part_t \<Rightarrow> c_string" where
  "var_part_to_string_classic_style (VAR_PART_TOP_LEVEL name) = name"
| "var_part_to_string_classic_style (VAR_PART_STRUCTURE parent name) =
     (var_part_to_string_classic_style parent @ ''_'') @ name"
| "var_part_to_string_classic_style (VAR_PART_ARRAY parent index) =
     (if index = 0 then (var_part_to_string_classic_style parent @ ''_'') @ ''%''
      else (var_part_to_string_classic_style parent @ ''_'') @ nat_to_dec (unat index))"

text \<open>
  Reading: an underscore is put at the end of a copy of the name, which is then cut at its underscores
  from left to right. An empty component makes the whole call fail.
\<close>

definition add_component :: "var_part_t option \<Rightarrow> c_string \<Rightarrow> var_part_t" where
  "add_component lst p =
     (case lst of
        None \<Rightarrow> var_part_create_top_level p
      | Some l \<Rightarrow>
          if isdigit (hd p) then var_part_create_array l (atoi p)
          else if p = ''%'' then var_part_create_array l 0
          else var_part_create_struct l p)"

lemma strchr_length: "strchr s c = Some (p, q) \<Longrightarrow> length q < length s"
  by (induction s c arbitrary: p rule: strchr.induct) (auto split: if_splits option.splits)

function parse_components :: "var_part_t option \<Rightarrow> c_string \<Rightarrow> var_part_t option" where
  "parse_components lst n =
     (case strchr n (CHR ''_'') of
        None \<Rightarrow> lst
      | Some (p, rest) \<Rightarrow> if p = [] then None else parse_components (Some (add_component lst p)) rest)"
  by pat_completeness auto
termination
  by (relation "measure (\<lambda>(l, n). length n)") (auto dest: strchr_length)

declare parse_components.simps [simp del]

definition var_part_create_from_string_classic_style :: "c_string \<Rightarrow> var_part_t option" where
  "var_part_create_from_string_classic_style name = parse_components None (name @ ''_'')"

section \<open>Reading back what was printed\<close>

text \<open>Names as the grammar of the configuration has them: no member name is empty or holds an underscore,
  and the name of a structure member does not look like an index.\<close>

definition component_name :: "c_string \<Rightarrow> bool" where
  "component_name n \<longleftrightarrow> n \<noteq> [] \<and> CHR ''_'' \<notin> set n"

primrec part_names_ok :: "var_part_t \<Rightarrow> bool" where
  "part_names_ok (VAR_PART_TOP_LEVEL n) = component_name n"
| "part_names_ok (VAR_PART_STRUCTURE p n) =
     (part_names_ok p \<and> component_name n \<and> \<not> isdigit (hd n) \<and> n \<noteq> ''%'')"
| "part_names_ok (VAR_PART_ARRAY p i) = part_names_ok p"

lemma parse_component:
  assumes "component_name n"
  shows "parse_components l (n @ CHR ''_'' # s) = parse_components (Some (add_component l n)) s"
  using assms by (subst parse_components.simps) (simp add: component_name_def strchr_append)

lemma nat_to_dec_component: "component_name (nat_to_dec k)"
proof -
  have "\<not> isdigit (CHR ''_'')" by (simp add: isdigit_def)
  then show ?thesis
    using nat_to_dec_digits [of k] by (auto simp: component_name_def list_all_iff)
qed

lemma parse_printed:
  "part_names_ok p \<Longrightarrow> parse_components None (var_part_to_string_classic_style p @ CHR ''_'' # s)
     = parse_components (Some p) s"
proof (induction p arbitrary: s)
  case (VAR_PART_TOP_LEVEL n)
  then show ?case by (simp add: parse_component add_component_def var_part_create_top_level_def)
next
  case (VAR_PART_STRUCTURE p n)
  then show ?case by (simp add: parse_component add_component_def var_part_create_struct_def)
next
  case (VAR_PART_ARRAY p i)
  show ?case
  proof (cases "i = 0")
    case True
    have "component_name ''%''" and "\<not> isdigit (CHR ''%'')" by (simp_all add: component_name_def isdigit_def)
    then show ?thesis
      using VAR_PART_ARRAY True parse_component [of "''%''" "Some p" s]
      by (simp add: add_component_def var_part_create_array_def)
  next
    case False
    then show ?thesis
      using VAR_PART_ARRAY nat_to_dec_hd [of "unat i"]
      by (simp add: parse_component nat_to_dec_component add_component_def var_part_create_array_def atoi_nat_to_dec)
  qed
qed

section \<open>Properties\<close>

text \<open>C27: a variable or instance name printed in classic style is read back to the same parts, for every
  depth of nesting and every index.\<close>

theorem var_part_classic_roundtrip:
  assumes "part_names_ok p"
  shows "var_part_create_from_string_classic_style (var_part_to_string_classic_style p) = Some p"
  using parse_printed [OF assms, of "[]"]
  by (simp add: var_part_create_from_string_classic_style_def parse_components.simps [of "Some p" "[]"])

theorem var_part_classic_roundtrip_witness:
  "part_names_ok (VAR_PART_STRUCTURE (VAR_PART_ARRAY (VAR_PART_TOP_LEVEL ''NET'') 12) ''DEV'')
   \<and> var_part_create_from_string_classic_style
       (var_part_to_string_classic_style (VAR_PART_STRUCTURE (VAR_PART_ARRAY (VAR_PART_TOP_LEVEL ''NET'') 12) ''DEV''))
     = Some (VAR_PART_STRUCTURE (VAR_PART_ARRAY (VAR_PART_TOP_LEVEL ''NET'') 12) ''DEV'')"
proof -
  have "part_names_ok (VAR_PART_STRUCTURE (VAR_PART_ARRAY (VAR_PART_TOP_LEVEL ''NET'') 12) ''DEV'')"
    by (simp add: component_name_def isdigit_def)
  from conjI [OF this var_part_classic_roundtrip [OF this]] show ?thesis .
qed

definition has_empty_component :: "c_string \<Rightarrow> bool" where
  "has_empty_component s \<longleftrightarrow> s = [] \<or> hd s = CHR ''_'' \<or> last s = CHR ''_''
     \<or> (\<exists>a b. s = a @ ''__'' @ b)"

lemma parse_components_None_iff:
  assumes "s = [] \<Longrightarrow> l \<noteq> None" and "s \<noteq> [] \<Longrightarrow> last s = CHR ''_''"
  shows "parse_components l s = None \<longleftrightarrow>
    s \<noteq> [] \<and> (hd s = CHR ''_'' \<or> (\<exists>a b. s = a @ ''__'' @ b))"
  using assms
proof (induction l s rule: parse_components.induct)
  case (1 l n)
  show ?case
  proof (cases "strchr n (CHR ''_'')")
    case None
    then have "n = []" using 1(3) by (metis last_in_set strchr_None)
    then show ?thesis using 1(2) by (simp add: parse_components.simps [of l "[]"])
  next
    case (Some pq)
    then obtain p q where pq: "strchr n (CHR ''_'') = Some (p, q)" by (cases pq) auto
    then have n: "n = p @ CHR ''_'' # q" "CHR ''_'' \<notin> set p" using strchr_split by auto
    show ?thesis
    proof (cases "p = []")
      case True
      then have "parse_components l n = None" using pq by (simp add: parse_components.simps [of l n])
      then show ?thesis using n True by simp
    next
      case False
      have hd: "hd n \<noteq> CHR ''_''" using n False by (cases p) auto
      have "parse_components l n = parse_components (Some (add_component l p)) q"
        using pq False by (simp add: parse_components.simps [of l n])
      also have "\<dots> = None \<longleftrightarrow> q \<noteq> [] \<and> (hd q = CHR ''_'' \<or> (\<exists>a b. q = a @ ''__'' @ b))"
        by (rule 1(1) [OF pq refl False]) (use 1(3) n in auto)
      also have "\<dots> \<longleftrightarrow> (\<exists>a b. n = a @ ''__'' @ b)"
      proof
        assume "q \<noteq> [] \<and> (hd q = CHR ''_'' \<or> (\<exists>a b. q = a @ ''__'' @ b))"
        then consider r where "q = CHR ''_'' # r" | a b where "q = a @ ''__'' @ b" by (cases q) auto
        then show "\<exists>a b. n = a @ ''__'' @ b"
        proof cases
          case 1
          then show ?thesis using n by (intro exI [of _ p] exI [of _ r]) simp
        next
          case 2
          then show ?thesis using n by (intro exI [of _ "p @ ''_'' @ a"] exI [of _ b]) simp
        qed
      next
        assume "\<exists>a b. n = a @ ''__'' @ b"
        then obtain a b where ab: "n = a @ ''__'' @ b" by blast
        then have "p @ CHR ''_'' # q = a @ CHR ''_'' # CHR ''_'' # b" using n by simp
        then consider "a = p" "q = CHR ''_'' # b" | r where "a = p @ CHR ''_'' # r" "q = r @ ''__'' @ b"
          using n(2) by (auto simp: append_eq_append_conv2 append_eq_Cons_conv Cons_eq_append_conv)
        then show "q \<noteq> [] \<and> (hd q = CHR ''_'' \<or> (\<exists>a b. q = a @ ''__'' @ b))"
          by cases auto
      qed
      finally show ?thesis using n hd by auto
    qed
  qed
qed

text \<open>A classic name is rejected exactly when one of its components is empty: it is empty itself,
  starts or ends with an underscore, or holds two of them in a row.\<close>

lemma var_part_from_string_fails_iff:
  "var_part_create_from_string_classic_style s = None \<longleftrightarrow> has_empty_component s"
proof -
  have "var_part_create_from_string_classic_style s = None \<longleftrightarrow>
      hd (s @ ''_'') = CHR ''_'' \<or> (\<exists>a b. s @ ''_'' = a @ ''__'' @ b)"
    unfolding var_part_create_from_string_classic_style_def by (subst parse_components_None_iff) auto
  also have "\<dots> \<longleftrightarrow> has_empty_component s"
  proof (cases "s = []")
    case False
    have "(\<exists>a b. s @ ''_'' = a @ ''__'' @ b) \<longleftrightarrow> last s = CHR ''_'' \<or> (\<exists>a b. s = a @ ''__'' @ b)"
    proof
      assume "\<exists>a b. s @ ''_'' = a @ ''__'' @ b"
      then obtain a b where ab: "s @ ''_'' = a @ ''__'' @ b" by blast
      show "last s = CHR ''_'' \<or> (\<exists>a b. s = a @ ''__'' @ b)"
      proof (cases b rule: rev_cases)
        case Nil
        then have "s @ ''_'' = (a @ ''_'') @ ''_''" using ab by simp
        then have "s = a @ ''_''" by (simp only: append_same_eq)
        then show ?thesis by simp
      next
        case (snoc c x)
        then have "s = a @ ''__'' @ c" using ab by simp
        then show ?thesis by blast
      qed
    next
      assume "last s = CHR ''_'' \<or> (\<exists>a b. s = a @ ''__'' @ b)"
      then show "\<exists>a b. s @ ''_'' = a @ ''__'' @ b"
      proof
        assume l: "last s = CHR ''_''"
        have "s @ ''_'' = butlast s @ ''__'' @ []" using False l by (metis append_butlast_last_id append.assoc append_Cons append_Nil)
        then show ?thesis by blast
      next
        assume "\<exists>a b. s = a @ ''__'' @ b"
        then obtain a b where "s = a @ ''__'' @ b" by blast
        then have "s @ ''_'' = a @ ''__'' @ (b @ ''_'')" by simp
        then show ?thesis by blast
      qed
    qed
    then show ?thesis using False by (simp add: has_empty_component_def)
  qed (auto simp: has_empty_component_def)
  finally show ?thesis .
qed

end
