(* ===== verification/Var_Slot.thy ===== *)
theory Var_Slot
  imports Var_Value
begin

text \<open>
  The slots of a variable (\<open>var/slot.h\<close>, \<open>var/slot.c\<close>, and the parts of \<open>var/slot_read.c\<close>,
  \<open>var/slot_write.c\<close> and \<open>var/iter.c\<close> that work on one slot tree). A slot is an entry or an array of
  slots; which member of the union is valid follows from the level of the slot, and using the wrong one is
  an invalid access. The theory shows that trees stay well-formed, what growing and addressing them does,
  and that an iterator delivers every entry once, in the order of the indices.
\<close>

section \<open>Slots\<close>

record 'x slot_entry_t =
  ent_value :: "c_string option"
  ent_def_value :: "c_string option"
  ent_extra :: "'x option"
  ent_priority :: var_priority_t
  ent_read_active :: bool

datatype 'x varslot_t = Slot_entry "'x slot_entry_t" | Slot_array "'x varslot_t list"

definition empty_entry :: "'x slot_entry_t" where
  "empty_entry = \<lparr>ent_value = None, ent_def_value = None, ent_extra = None,
     ent_priority = VAR_PRIORITY_UNDEFINED, ent_read_active = False\<rparr>"

definition var_slot_init :: "nat \<Rightarrow> nat \<Rightarrow> 'x varslot_t" where
  "var_slot_init level maxlevel = (if level = maxlevel then Slot_entry empty_entry else Slot_array [])"

text \<open>Destroying an array slot releases everything below it and leaves an empty array. The members of a
  destroyed entry are dangling pointers: the slot must not be used any more.\<close>

definition var_slot_destroy :: "'x varslot_t \<Rightarrow> nat \<Rightarrow> nat \<Rightarrow> 'x varslot_t option" where
  "var_slot_destroy slot level maxlevel = (if level = maxlevel then None else Some (Slot_array []))"

text \<open>
  Resizing computes the number of added slots in unsigned arithmetic and initialises that many behind the old
  ones; if the new block is smaller than that, the loop writes past it.
\<close>

definition var_slot_resize :: "'x varslot_t \<Rightarrow> nat \<Rightarrow> nat \<Rightarrow> u32 \<Rightarrow> ('s, 'x varslot_t) action" where
  "var_slot_resize slot level maxlevel tot_num_slots =
     (case slot of
        Slot_entry _ \<Rightarrow> raise Invalid_access
      | Slot_array slots \<Rightarrow>
          (let add_num_slots = tot_num_slots - of_nat (length slots) in
           if length slots + unat add_num_slots \<noteq> unat tot_num_slots then raise Invalid_access
           else ret (Slot_array (slots @ replicate (unat add_num_slots) (var_slot_init (level + 1) maxlevel)))))"

primrec var_slot_get_priority :: "'x varslot_t \<Rightarrow> var_priority_t" where
  "var_slot_get_priority (Slot_entry e) = ent_priority e"
| "var_slot_get_priority (Slot_array slots) =
     fold (\<lambda>subprio priority. if priority < subprio then subprio else priority)
       (map var_slot_get_priority slots) VAR_PRIORITY_UNDEFINED"

text \<open>Following indices downwards; \<^const>\<open>None\<close> is a NULL result.\<close>

fun slot_at :: "'x varslot_t \<Rightarrow> u32 list \<Rightarrow> 'x varslot_t option" where
  "slot_at slot [] = Some slot"
| "slot_at (Slot_array slots) (i # is) = (if unat i < length slots then slot_at (slots ! unat i) is else None)"
| "slot_at (Slot_entry e) (i # is) = None"

definition get_slot_for_reading :: "nat \<Rightarrow> 'x varslot_t \<Rightarrow> u32 list \<Rightarrow> 'x varslot_t option" where
  "get_slot_for_reading level slot indices =
     (if level < length indices then None else slot_at slot indices)"

definition num_slots :: "'x varslot_t \<Rightarrow> nat" where
  "num_slots slot = (case slot of Slot_array slots \<Rightarrow> length slots | Slot_entry _ \<Rightarrow> 0)"

definition get_next_free_index :: "nat \<Rightarrow> 'x varslot_t \<Rightarrow> u32 list \<Rightarrow> nat" where
  "get_next_free_index level slot indices =
     (if level \<le> length indices then 0
      else (case slot_at slot indices of None \<Rightarrow> 0 | Some s \<Rightarrow> num_slots s))"

text \<open>The slot tree with the slot under given indices replaced.\<close>

fun set_slot_at :: "'x varslot_t \<Rightarrow> u32 list \<Rightarrow> 'x varslot_t \<Rightarrow> 'x varslot_t" where
  "set_slot_at slot [] s = s"
| "set_slot_at (Slot_array slots) (i # is) s =
     (if unat i < length slots
      then Slot_array (slots[unat i := set_slot_at (slots ! unat i) is s])
      else Slot_array slots)"
| "set_slot_at (Slot_entry e) (i # is) s = Slot_entry e"

section \<open>Well-formed trees\<close>

text \<open>All entries are at the same depth, and no array has more slots than an \<open>int\<close>, with which the
  iterators count, can hold.\<close>

primrec slot_wf :: "nat \<Rightarrow> 'x varslot_t \<Rightarrow> bool" where
  "slot_wf 0 s = (\<exists>e. s = Slot_entry e)"
| "slot_wf (Suc d) s = (\<exists>slots. s = Slot_array slots \<and> length slots < 2 ^ 31 \<and> list_all (slot_wf d) slots)"

lemma slot_wf_init: "level \<le> maxlevel \<Longrightarrow> slot_wf (maxlevel - level) (var_slot_init level maxlevel)"
  by (cases "maxlevel - level") (auto simp: var_slot_init_def)

lemma slot_at_append: "slot_at s (is @ js) = Option.bind (slot_at s is) (\<lambda>t. slot_at t js)"
  by (induction s "is" rule: slot_at.induct) auto

lemma slot_at_wf:
  "slot_wf d s \<Longrightarrow> slot_at s is = Some t \<Longrightarrow> length is \<le> d \<and> slot_wf (d - length is) t"
proof (induction "is" arbitrary: d s)
  case (Cons i "is")
  then obtain slots where s: "s = Slot_array slots" by (cases s) auto
  then obtain d' where d: "d = Suc d'" "list_all (slot_wf d') slots"
    using Cons.prems(1) by (cases d) auto
  have i: "unat i < length slots" "slot_at (slots ! unat i) is = Some t"
    using Cons.prems(2) s by (auto split: if_splits)
  have "slot_wf d' (slots ! unat i)" using d(2) i(1) by (rule list_all_nth)
  then show ?case using Cons.IH i d by auto
qed simp

lemma set_slot_at_wf:
  "slot_wf d s \<Longrightarrow> length is \<le> d \<Longrightarrow> slot_wf (d - length is) t \<Longrightarrow> slot_wf d (set_slot_at s is t)"
proof (induction "is" arbitrary: d s)
  case (Cons i "is")
  then obtain d' slots where d: "d = Suc d'" "s = Slot_array slots" "length slots < 2 ^ 31" "list_all (slot_wf d') slots"
    by (cases d) auto
  show ?case
  proof (cases "unat i < length slots")
    case True
    have "slot_wf d' (slots ! unat i)" using d(4) True by (rule list_all_nth)
    then have "slot_wf d' (set_slot_at (slots ! unat i) is t)" using Cons d by simp
    then show ?thesis using d True by (auto intro: list_all_update)
  next
    case False
    then show ?thesis using Cons.prems(1) d by simp
  qed
qed simp

lemma slot_at_set_same: "slot_at s is \<noteq> None \<Longrightarrow> slot_at (set_slot_at s is t) is = Some t"
  by (induction s "is" rule: slot_at.induct) (auto split: if_splits)

lemma slot_at_set_other:
  "length js = length is \<Longrightarrow> is \<noteq> js \<Longrightarrow> slot_at (set_slot_at s is t) js = slot_at s js"
proof (induction s "is" arbitrary: js rule: slot_at.induct)
  case (2 slots i "is")
  then obtain j js' where js: "js = j # js'" "length js' = length is" by (cases js) auto
  show ?case
  proof (cases "unat i < length slots")
    case True
    show ?thesis
    proof (cases "i = j")
      case same: True
      then have "slot_at (set_slot_at (slots ! unat i) is t) js' = slot_at (slots ! unat i) js'"
        using 2 js True by blast
      then show ?thesis using same js True by simp
    next
      case False
      then have "unat i \<noteq> unat j" by (simp add: word_unat_eq_iff)
      then show ?thesis using js True by simp
    qed
  qed simp
qed auto

section \<open>Growing\<close>

lemma var_slot_resize_ok:
  fixes slots :: "'x varslot_t list"
  assumes "length slots < 2 ^ 32" and "length slots \<le> unat i" and "i \<noteq> - 1"
  shows "var_slot_resize (Slot_array slots) level maxlevel (i + 1) st =
    Done (Slot_array (slots @ replicate (Suc (unat i) - length slots) (var_slot_init (level + 1) maxlevel))) st"
proof -
  have i: "unat (i + 1) = Suc (unat i)"
    using assms(3) by (metis add.commute add_eq_0_iff unatSuc)
  have "unat (i + 1 - of_nat (length slots)) = unat (i + 1) - length slots"
    using assms(1,2) i by (subst unat_sub) (auto simp: word_le_nat_alt unat_of_nat)
  then show ?thesis using i assms(2) by (simp add: var_slot_resize_def Let_def)
qed

lemma var_slot_resize_wrap:
  assumes "length slots < 2 ^ 32"
  shows "var_slot_resize (Slot_array slots) level maxlevel ((- 1 :: u32) + 1) st =
    (if slots = [] then Done (Slot_array []) st else Failed Invalid_access)"
  using assms by (auto simp: var_slot_resize_def Let_def)

section \<open>Priorities\<close>

primrec slot_entries :: "'x varslot_t \<Rightarrow> 'x slot_entry_t list" where
  "slot_entries (Slot_entry e) = [e]"
| "slot_entries (Slot_array slots) = concat (map slot_entries slots)"

lemma fold_max:
  fixes ps :: "var_priority_t list"
  shows "fold (\<lambda>q p. if p < q then q else p) ps p0 = foldr max ps p0"
proof -
  have "fold (\<lambda>q p. if p < q then q else p) ps p0 = fold max ps p0"
    by (rule fold_cong) (auto simp: max_def fun_eq_iff)
  also have "\<dots> = foldr max ps p0"
    by (subst foldr_fold) (auto simp: fun_eq_iff max.left_commute)
  finally show ?thesis .
qed

lemma foldr_max_append: "foldr max (ps @ qs) p0 = foldr max ps (foldr max qs (p0 :: var_priority_t))"
  by simp

lemma foldr_max_start: "foldr max ps (max (p :: var_priority_t) q) = max p (foldr max ps q)"
  by (induction ps) (auto simp: max.left_commute)

lemma foldr_max_undefined: "foldr max ps (p :: var_priority_t) = max p (foldr max ps VAR_PRIORITY_UNDEFINED)"
  using foldr_max_start [of ps p VAR_PRIORITY_UNDEFINED] by (simp add: max_absorb1)

lemma var_slot_get_priority_entries:
  "var_slot_get_priority s = foldr max (map ent_priority (slot_entries s)) VAR_PRIORITY_UNDEFINED"
proof (induction s)
  case (Slot_entry e)
  then show ?case by (simp add: max_absorb1)
next
  case (Slot_array slots)
  then have "foldr max (map var_slot_get_priority slots) VAR_PRIORITY_UNDEFINED =
      foldr max (map ent_priority (concat (map slot_entries slots))) VAR_PRIORITY_UNDEFINED"
    by (induction slots) (auto simp: foldr_max_undefined [of _ "foldr _ _ _"] max.commute)
  then show ?case by (simp add: fold_max)
qed

section \<open>Iterators\<close>

text \<open>
  A slot iterator is the chain of its frames, the innermost one first and the parents behind it. The
  frames hold the slots they point to; nothing that happens between two steps changes the shape of the tree.
  \<^const>\<open>None\<close> is undefined behaviour: an access outside of an array, or a position that overflows its
  \<open>int\<close>.
\<close>

record 'x varslot_iterator_t =
  it_slot :: "'x varslot_t"
  it_level :: nat
  it_i :: int

definition var_slot_iterator_create :: "'x varslot_t \<Rightarrow> nat \<Rightarrow> 'x varslot_iterator_t list" where
  "var_slot_iterator_create slot level = [\<lparr>it_slot = slot, it_level = level, it_i = -1\<rparr>]"

fun var_slot_iterator_next :: "nat \<Rightarrow> 'x varslot_iterator_t list \<Rightarrow> 'x varslot_iterator_t list option" where
  "var_slot_iterator_next maxlevel [] = None"
| "var_slot_iterator_next maxlevel (f # parents) =
     (if it_i f < 0 then Some (f\<lparr>it_i := 0\<rparr> # parents)
      else if it_level f = maxlevel \<or> it_i f = int (num_slots (it_slot f)) then
        (case parents of
           parent # rest \<Rightarrow>
             if it_i parent = 2 ^ 31 - 1 then None else Some (parent\<lparr>it_i := it_i parent + 1\<rparr> # rest)
         | [] \<Rightarrow> Some (f\<lparr>it_i := -1\<rparr> # []))
      else
        (case it_slot f of
           Slot_array slots \<Rightarrow>
             if nat (it_i f) < length slots
             then Some (\<lparr>it_slot = slots ! nat (it_i f), it_level = it_level f + 1, it_i = 0\<rparr> # f # parents)
             else None
         | Slot_entry _ \<Rightarrow> None))"

text \<open>The inner loop of \<open>var_value_iterator_next\<close>: steps until an entry is reached or the iteration is
  over; it need not end on a malformed tree.\<close>

partial_function (option) iterator_to_entry :: "nat \<Rightarrow> 'x varslot_iterator_t list \<Rightarrow> 'x varslot_iterator_t list option" where
  "iterator_to_entry maxlevel iter =
     Option.bind (var_slot_iterator_next maxlevel iter) (\<lambda>it.
       if it \<noteq> [] \<and> it_i (hd it) \<ge> 0 \<and> it_level (hd it) \<noteq> maxlevel then iterator_to_entry maxlevel it
       else Some it)"

text \<open>The indices the frames stand for: every parent contributes its position at its level.\<close>

definition iterator_indices :: "'x varslot_iterator_t list \<Rightarrow> int list" where
  "iterator_indices iter = rev (map it_i (tl iter))"

definition iterator_at_end :: "'x varslot_iterator_t list \<Rightarrow> bool" where
  "iterator_at_end iter \<longleftrightarrow> iter = [] \<or> it_i (hd iter) < 0"

text \<open>The entries still to come, each with its indices, given the positions of the frames.\<close>

primrec slot_leaves :: "nat \<Rightarrow> int list \<Rightarrow> 'x varslot_t \<Rightarrow> (int list \<times> 'x slot_entry_t) list" where
  "slot_leaves 0 p s = (case s of Slot_entry e \<Rightarrow> [(p, e)] | Slot_array _ \<Rightarrow> [])"
| "slot_leaves (Suc d) p s =
     (case s of
        Slot_array slots \<Rightarrow> concat (map (\<lambda>j. slot_leaves d (p @ [int j]) (slots ! j)) [0 ..< length slots])
      | Slot_entry _ \<Rightarrow> [])"

text \<open>Entries below a frame from position \<open>i\<close> on.\<close>

definition leaves_from :: "nat \<Rightarrow> int list \<Rightarrow> 'x varslot_t \<Rightarrow> int \<Rightarrow> (int list \<times> 'x slot_entry_t) list" where
  "leaves_from d p s i =
     (case s of
        Slot_array slots \<Rightarrow> concat (map (\<lambda>j. slot_leaves (d - 1) (p @ [int j]) (slots ! j)) [nat i ..< length slots])
      | Slot_entry _ \<Rightarrow> [])"

text \<open>Frames as the iteration builds them: every frame is on a well-formed slot of its level, and every
  frame but the innermost one points at one of its slots.\<close>

definition frame_ok :: "nat \<Rightarrow> 'x varslot_iterator_t \<Rightarrow> bool" where
  "frame_ok m f \<longleftrightarrow> it_level f \<le> m \<and> slot_wf (m - it_level f) (it_slot f) \<and> 0 \<le> it_i f
     \<and> (it_level f < m \<longrightarrow> it_i f \<le> int (num_slots (it_slot f)))"

definition parent_ok :: "nat \<Rightarrow> 'x varslot_iterator_t \<Rightarrow> bool" where
  "parent_ok m f \<longleftrightarrow> frame_ok m f \<and> it_level f < m \<and> it_i f < int (num_slots (it_slot f))"

fun stack_ok :: "nat \<Rightarrow> 'x varslot_iterator_t list \<Rightarrow> bool" where
  "stack_ok m [] = False"
| "stack_ok m (f # ps) = (frame_ok m f \<and> list_all (parent_ok m) ps)"

fun pending :: "nat \<Rightarrow> 'x varslot_iterator_t list \<Rightarrow> (int list \<times> 'x slot_entry_t) list" where
  "pending m [] = []"
| "pending m (f # ps) =
     leaves_from (m - it_level f) (rev (map it_i ps)) (it_slot f) (it_i f + 1) @ pending m ps"

text \<open>The entries to come when the innermost frame is at its position.\<close>

fun to_come :: "nat \<Rightarrow> 'x varslot_iterator_t list \<Rightarrow> (int list \<times> 'x slot_entry_t) list" where
  "to_come m [] = []"
| "to_come m (f # ps) =
     (if it_level f = m then [] else leaves_from (m - it_level f) (rev (map it_i ps)) (it_slot f) (it_i f))
     @ pending m ps"

text \<open>The number of steps left bounds the inner loop.\<close>

primrec slot_weight :: "'x varslot_t \<Rightarrow> nat" where
  "slot_weight (Slot_entry e) = 1"
| "slot_weight (Slot_array slots) = 1 + sum_list (map (\<lambda>s. slot_weight s + 1) slots)"

definition frame_weight :: "'x varslot_t \<Rightarrow> int \<Rightarrow> nat" where
  "frame_weight s i = 1 + (case s of Slot_array slots \<Rightarrow> sum_list (map (\<lambda>s. slot_weight s + 1) (drop (nat i) slots))
     | Slot_entry _ \<Rightarrow> 0)"

fun stack_weight :: "'x varslot_iterator_t list \<Rightarrow> nat" where
  "stack_weight [] = 0"
| "stack_weight (f # ps) = frame_weight (it_slot f) (it_i f) + sum_list (map (\<lambda>p. frame_weight (it_slot p) (it_i p + 1)) ps)"

lemma frame_array:
  assumes "frame_ok m f" and "it_level f < m"
  obtains slots where "it_slot f = Slot_array slots" and "length slots < 2 ^ 31"
    and "list_all (slot_wf (m - Suc (it_level f))) slots" and "nat (it_i f) \<le> length slots"
    and "num_slots (it_slot f) = length slots"
proof -
  have d: "m - it_level f = Suc (m - Suc (it_level f))" using assms(2) by simp
  have "slot_wf (m - it_level f) (it_slot f)" using assms(1) by (simp add: frame_ok_def)
  then obtain slots where sl: "it_slot f = Slot_array slots" "length slots < 2 ^ 31"
      "list_all (slot_wf (m - Suc (it_level f))) slots"
    unfolding d by auto
  have "nat (it_i f) \<le> length slots" using assms sl(1) by (simp add: frame_ok_def num_slots_def nat_le_iff)
  with sl that show ?thesis by (simp add: num_slots_def)
qed

lemma frame_weight_child: "frame_weight s 0 = slot_weight s"
  by (cases s) (simp_all add: frame_weight_def)

lemma step_push:
  assumes ok: "stack_ok m (f # ps)" and l: "it_level f < m" and i: "it_i f < int (num_slots (it_slot f))"
  shows "\<exists>c. var_slot_iterator_next m (f # ps) = Some (c # f # ps) \<and> stack_ok m (c # f # ps)
    \<and> stack_weight (c # f # ps) < stack_weight (f # ps) \<and> it_i c = 0
    \<and> (if it_level c = m then \<exists>e. it_slot c = Slot_entry e
          \<and> to_come m (f # ps) = (rev (map it_i (f # ps)), e) # to_come m (c # f # ps)
       else it_level c < m \<and> to_come m (c # f # ps) = to_come m (f # ps))"
proof -
  have fok: "frame_ok m f" "list_all (parent_ok m) ps" using ok by simp_all
  obtain slots where sl: "it_slot f = Slot_array slots" "length slots < 2 ^ 31"
    "list_all (slot_wf (m - Suc (it_level f))) slots" "num_slots (it_slot f) = length slots"
    using frame_array [OF fok(1) l] by metis
  define n where "n = nat (it_i f)"
  have n: "n < length slots" "int n = it_i f" using fok(1) i sl(4) by (simp_all add: n_def frame_ok_def nat_less_iff)
  define c where "c = \<lparr>it_slot = slots ! n, it_level = it_level f + 1, it_i = 0\<rparr>"
  have next': "var_slot_iterator_next m (f # ps) = Some (c # f # ps)"
    using fok(1) l i sl n by (auto simp: c_def n_def frame_ok_def)
  have wf: "slot_wf (m - Suc (it_level f)) (slots ! n)" using sl(3) n(1) by (rule list_all_nth)
  have stack: "stack_ok m (c # f # ps)"
    using fok l i wf by (simp add: c_def parent_ok_def frame_ok_def)
  have split: "[n ..< length slots] = n # [Suc n ..< length slots]" using n(1) by (rule upt_conv_Cons)
  have come: "to_come m (f # ps) = slot_leaves (m - Suc (it_level f)) (rev (map it_i (f # ps))) (slots ! n)
      @ pending m (f # ps)"
  proof -
    have "nat (1 + it_i f) = Suc n" "nat (it_i f + 1) = Suc n" using n by simp_all
    then show ?thesis using l n by (simp add: leaves_from_def sl(1) n_def [symmetric] split)
  qed
  have weight: "stack_weight (c # f # ps) < stack_weight (f # ps)"
  proof -
    have "drop n slots = slots ! n # drop (Suc n) slots" using n(1) by (rule Cons_nth_drop_Suc [symmetric])
    then have "frame_weight (it_slot f) (it_i f) = frame_weight (it_slot c) 0 + 1 + frame_weight (it_slot f) (it_i f + 1) - 1 + 1"
      using n by (simp add: frame_weight_child) (simp add: frame_weight_def sl(1) c_def nat_add_distrib n_def [symmetric])
    then show ?thesis by (simp add: c_def)
  qed
  have rest: "if it_level c = m then \<exists>e. it_slot c = Slot_entry e
          \<and> to_come m (f # ps) = (rev (map it_i (f # ps)), e) # to_come m (c # f # ps)
       else it_level c < m \<and> to_come m (c # f # ps) = to_come m (f # ps)"
  proof (cases "it_level c = m")
    case True
    then have "m - Suc (it_level f) = 0" by (simp add: c_def)
    then show ?thesis using wf come True by (auto simp: c_def)
  next
    case False
    then obtain d where d: "m - Suc (it_level f) = Suc d" using l by (cases "m - Suc (it_level f)") (auto simp: c_def)
    then obtain cs where "slots ! n = Slot_array cs" using wf by auto
    then have "slot_leaves (m - Suc (it_level f)) (rev (map it_i (f # ps))) (slots ! n)
        = leaves_from (m - it_level c) (rev (map it_i (f # ps))) (it_slot c) (it_i c)"
      using d by (simp add: c_def leaves_from_def)
    moreover have "it_level c < m" using False l by (simp add: c_def)
    ultimately show ?thesis using come False by simp
  qed
  show ?thesis using next' stack weight rest by (intro exI [of _ c]) (simp add: c_def)
qed

lemma step_pop:
  assumes ok: "stack_ok m (f # p # ps)" and done': "it_level f = m \<or> it_i f = int (num_slots (it_slot f))"
  shows "\<exists>q. var_slot_iterator_next m (f # p # ps) = Some (q # ps) \<and> stack_ok m (q # ps) \<and> it_level q < m
    \<and> 0 \<le> it_i q \<and> stack_weight (q # ps) < stack_weight (f # p # ps) \<and> to_come m (q # ps) = to_come m (f # p # ps)"
proof -
  have f: "frame_ok m f" and p: "parent_ok m p" and ps: "list_all (parent_ok m) ps" using ok by simp_all
  let ?q = "p\<lparr>it_i := it_i p + 1\<rparr>"
  have pok: "frame_ok m p" "it_level p < m" using p by (simp_all add: parent_ok_def)
  obtain slots :: "'a varslot_t list" where "length slots < 2 ^ 31" "num_slots (it_slot p) = length slots"
    using frame_array [OF pok] by metis
  then have "it_i p \<noteq> 2 ^ 31 - 1" using p by (simp add: parent_ok_def)
  then have "var_slot_iterator_next m (f # p # ps) = Some (?q # ps)"
    using f done' by (simp add: frame_ok_def)
  moreover have "stack_ok m (?q # ps)" using p ps by (simp add: parent_ok_def frame_ok_def)
  moreover have "stack_weight (?q # ps) < stack_weight (f # p # ps)" by (simp add: frame_weight_def)
  moreover have "to_come m (f # p # ps) = pending m (p # ps)"
  proof (cases "it_level f = m")
    case False
    then have "it_level f < m" using f by (simp add: frame_ok_def)
    then obtain slots where "it_slot f = Slot_array slots" "num_slots (it_slot f) = length slots"
      using frame_array [OF f] by metis
    then show ?thesis using False done' by (simp add: leaves_from_def)
  qed simp
  moreover have "to_come m (?q # ps) = pending m (p # ps)" using p by (simp add: parent_ok_def)
  ultimately show ?thesis using p by (intro exI [of _ ?q]) (simp add: parent_ok_def frame_ok_def)
qed

lemma step_end:
  assumes ok: "stack_ok m [f]" and done': "it_level f = m \<or> it_i f = int (num_slots (it_slot f))"
  shows "var_slot_iterator_next m [f] = Some [f\<lparr>it_i := -1\<rparr>] \<and> to_come m [f] = []"
proof (cases "it_level f = m")
  case True
  then show ?thesis using ok by (simp add: frame_ok_def)
next
  case False
  then have f: "frame_ok m f" "it_level f < m" using ok by (simp_all add: frame_ok_def)
  then obtain slots where "it_slot f = Slot_array slots" "num_slots (it_slot f) = length slots"
    using frame_array by metis
  then show ?thesis using False f done' by (simp add: leaves_from_def frame_ok_def)
qed

text \<open>One call of the inner loop delivers the next entry, or ends the iteration if there is none.\<close>

definition delivers :: "nat \<Rightarrow> (int list \<times> 'x slot_entry_t) list \<Rightarrow> 'x varslot_iterator_t list option \<Rightarrow> bool" where
  "delivers m es r =
     (case es of
        [] \<Rightarrow> \<exists>f. r = Some [f] \<and> it_i f < 0
      | (p, e) # es' \<Rightarrow> \<exists>f ps. r = Some (f # ps) \<and> 0 \<le> it_i f \<and> it_level f = m \<and> it_slot f = Slot_entry e
          \<and> iterator_indices (f # ps) = p \<and> stack_ok m (f # ps) \<and> to_come m (f # ps) = es')"

lemma iterator_to_entry_continue:
  "var_slot_iterator_next m st = Some (f # ps) \<Longrightarrow> 0 \<le> it_i f \<Longrightarrow> it_level f \<noteq> m \<Longrightarrow>
   iterator_to_entry m st = iterator_to_entry m (f # ps)"
  by (subst iterator_to_entry.simps) simp

lemma iterator_to_entry_stop:
  "var_slot_iterator_next m st = Some (f # ps) \<Longrightarrow> it_i f < 0 \<or> it_level f = m \<Longrightarrow>
   iterator_to_entry m st = Some (f # ps)"
  by (subst iterator_to_entry.simps) auto

lemma iterator_to_entry_delivers:
  "stack_ok m st \<Longrightarrow> delivers m (to_come m st) (iterator_to_entry m st)"
proof (induction st rule: measure_induct_rule [where f = stack_weight])
  case (less st)
  then obtain f ps where st: "st = f # ps" by (cases st) auto
  have f: "frame_ok m f" using less.prems st by simp
  show ?case
  proof (cases "it_level f < m \<and> it_i f < int (num_slots (it_slot f))")
    case True
    then obtain c where c: "var_slot_iterator_next m st = Some (c # st)" "stack_ok m (c # st)"
      "stack_weight (c # st) < stack_weight st" "it_i c = 0"
      "if it_level c = m then \<exists>e. it_slot c = Slot_entry e
          \<and> to_come m st = (rev (map it_i st), e) # to_come m (c # st)
       else it_level c < m \<and> to_come m (c # st) = to_come m st"
      using step_push [of m f ps] less.prems st by blast
    show ?thesis
    proof (cases "it_level c = m")
      case at: True
      then have "iterator_to_entry m st = Some (c # st)" using c(1) by (simp add: iterator_to_entry_stop)
      then show ?thesis using c at by (auto simp: delivers_def iterator_indices_def)
    next
      case False
      then have "iterator_to_entry m st = iterator_to_entry m (c # st)"
        using c(1,4) by (simp add: iterator_to_entry_continue)
      then show ?thesis using less.IH [OF c(3,2)] c(5) False by simp
    qed
  next
    case False
    then have done': "it_level f = m \<or> it_i f = int (num_slots (it_slot f))"
      using f by (auto simp: frame_ok_def)
    show ?thesis
    proof (cases ps)
      case Nil
      then have "iterator_to_entry m st = Some [f\<lparr>it_i := -1\<rparr>]" "to_come m st = []"
        using step_end [OF _ done'] less.prems st by (simp_all add: iterator_to_entry_stop)
      then show ?thesis by (simp add: delivers_def)
    next
      case (Cons p qs)
      then obtain q where q: "var_slot_iterator_next m st = Some (q # qs)" "stack_ok m (q # qs)" "it_level q < m"
        "0 \<le> it_i q" "stack_weight (q # qs) < stack_weight st" "to_come m (q # qs) = to_come m st"
        using step_pop [OF _ done', of p qs] less.prems st by auto
      then have "iterator_to_entry m st = iterator_to_entry m (q # qs)" by (simp add: iterator_to_entry_continue)
      then show ?thesis using less.IH [OF q(5,2)] q(6) by simp
    qed
  qed
qed

text \<open>The whole iteration: the entries whose values the calls of \<open>var_value_iterator_next\<close> read one
  after the other, each with the indices stored into the instance of the iterator.\<close>

partial_function (option) iterator_run :: "nat \<Rightarrow> 'x varslot_iterator_t list \<Rightarrow> (int list \<times> 'x varslot_t) list option" where
  "iterator_run m iter =
     Option.bind (iterator_to_entry m iter) (\<lambda>it.
       if iterator_at_end it then Some []
       else Option.bind (iterator_run m it) (\<lambda>r. Some ((iterator_indices it, it_slot (hd it)) # r)))"

lemma iterator_run_delivers:
  "stack_ok m st \<Longrightarrow> iterator_run m st = Some (map (\<lambda>(p, e). (p, Slot_entry e)) (to_come m st))"
proof (induction "to_come m st" arbitrary: st)
  case Nil
  have "delivers m [] (iterator_to_entry m st)"
    unfolding Nil(1) by (rule iterator_to_entry_delivers [OF Nil.prems])
  then show ?case
    using Nil(1) [symmetric] by (subst iterator_run.simps) (auto simp: delivers_def iterator_at_end_def)
next
  case (Cons pe es)
  obtain p e where pe: "pe = (p, e)" by (cases pe)
  have "delivers m ((p, e) # es) (iterator_to_entry m st)"
    using iterator_to_entry_delivers [OF Cons.prems] Cons(2) [symmetric] pe by simp
  then obtain f ps where f: "iterator_to_entry m st = Some (f # ps)" "0 \<le> it_i f" "it_slot f = Slot_entry e"
    "iterator_indices (f # ps) = p" "stack_ok m (f # ps)" "to_come m (f # ps) = es"
    by (auto simp: delivers_def)
  have "iterator_run m (f # ps) = Some (map (\<lambda>(p, e). (p, Slot_entry e)) es)"
    using Cons(1) [OF f(6) [symmetric] f(5)] f(6) by (simp only:)
  then show ?case
    using f Cons(2) [symmetric] pe by (subst iterator_run.simps) (simp add: iterator_at_end_def)
qed

lemma slot_leaves_append:
  fixes s :: "'x varslot_t"
  shows "slot_leaves d (p @ q) s = map (\<lambda>(r, e). (p @ r, e)) (slot_leaves d q s)"
proof (induction d arbitrary: q s)
  case 0
  then show ?case by (cases s) simp_all
next
  case (Suc d)
  have "slot_leaves d (p @ q @ [int j]) t = map (\<lambda>(r, e). (p @ r, e)) (slot_leaves d (q @ [int j]) t)"
    for j and t :: "'x varslot_t"
    using Suc [of "q @ [int j]" t] by simp
  then show ?case by (cases s) (simp_all add: map_concat comp_def)
qed

text \<open>The leaves are the entries of the tree, each under the indices that address it.\<close>

lemma slot_leaves_iff:
  "slot_wf d s \<Longrightarrow> (p, e) \<in> set (slot_leaves d [] s) \<longleftrightarrow>
     length p = d \<and> list_all (\<lambda>j. 0 \<le> j \<and> j < 2 ^ 32) p \<and> slot_at s (map word_of_int p) = Some (Slot_entry e)"
proof (induction d arbitrary: s p)
  case 0
  then show ?case by (cases p) auto
next
  case (Suc d)
  then obtain slots where s: "s = Slot_array slots" "length slots < 2 ^ 31" "list_all (slot_wf d) slots" by auto
  have small: "unat (word_of_int (int j) :: u32) = j" if "j < length slots" for j
    using that s(2) by (simp add: unat_of_nat)
  have sub: "set (slot_leaves d [int j] (slots ! j)) = (\<lambda>(r, e). (int j # r, e)) ` set (slot_leaves d [] (slots ! j))" for j
    using slot_leaves_append [of d "[int j]" "[]" "slots ! j"] by simp
  have mem: "(p, e) \<in> set (slot_leaves (Suc d) [] s) \<longleftrightarrow>
      (\<exists>j<length slots. \<exists>q. p = int j # q \<and> (q, e) \<in> set (slot_leaves d [] (slots ! j)))"
    by (auto simp: s(1) sub)
  also have "\<dots> \<longleftrightarrow> (\<exists>j<length slots. \<exists>q. p = int j # q \<and> length q = d \<and> list_all (\<lambda>j. 0 \<le> j \<and> j < 2 ^ 32) q
      \<and> slot_at (slots ! j) (map word_of_int q) = Some (Slot_entry e))"
    using Suc.IH list_all_nth [OF s(3)] by blast
  also have "\<dots> \<longleftrightarrow> length p = Suc d \<and> list_all (\<lambda>j. 0 \<le> j \<and> j < 2 ^ 32) p
      \<and> slot_at s (map word_of_int p) = Some (Slot_entry e)" (is "?L \<longleftrightarrow> ?R")
  proof
    assume ?L
    then obtain j q where j: "j < length slots" "p = int j # q" "length q = d" "list_all (\<lambda>j. 0 \<le> j \<and> j < 2 ^ 32) q"
      "slot_at (slots ! j) (map word_of_int q) = Some (Slot_entry e)"
      by blast
    then show ?R using small [OF j(1)] s(2) by (simp add: s(1))
  next
    assume r: ?R
    then obtain i q where p: "p = i # q" "length q = d" by (cases p) auto
    have "0 \<le> i" "i < 2 ^ 32" using r p by simp_all
    then have i: "unat (word_of_int i :: u32) = nat i" by (cases i) (simp_all add: unat_of_nat)
    have "nat i < length slots" "slot_at (slots ! nat i) (map word_of_int q) = Some (Slot_entry e)"
      using r i by (auto simp: p s(1) split: if_splits)
    then show ?L using p r \<open>0 \<le> i\<close> by (intro exI [of _ "nat i"]) auto
  qed
  finally show ?case .
qed

lemma slot_leaves_distinct:
  fixes s :: "'x varslot_t"
  shows "distinct (map fst (slot_leaves d p s))"
proof (induction d arbitrary: p s)
  case 0
  then show ?case by (cases s) simp_all
next
  case (Suc d)
  show ?case
  proof (cases s)
    case (Slot_array slots)
    let ?l = "\<lambda>j. map fst (slot_leaves d (p @ [int j]) (slots ! j))"
    have prefix: "\<exists>r. q = p @ int j # r" if "q \<in> set (?l j)" for q j
      using that slot_leaves_append [of d "p @ [int j]" "[]" "slots ! j"] by auto
    have "distinct (concat (map ?l [0 ..< n]))" for n
    proof (induction n)
      case (Suc n)
      have "set (concat (map ?l [0 ..< n])) \<inter> set (?l n) = {}"
      proof (rule ccontr)
        assume "set (concat (map ?l [0 ..< n])) \<inter> set (?l n) \<noteq> {}"
        then obtain q where q: "q \<in> set (concat (map ?l [0 ..< n]))" "q \<in> set (?l n)" by blast
        have "\<exists>j < n. q \<in> set (?l j)" using q(1) by (simp add: Bex_def)
        then obtain j where "j < n" "q \<in> set (?l j)" by blast
        then show False using prefix [of q j] prefix [of q n] q(2) by auto
      qed
      then show ?case using Suc \<open>\<And>p s. distinct (map fst (slot_leaves d p s))\<close> by simp
    qed simp
    then show ?thesis by (simp add: Slot_array map_concat comp_def)
  qed simp
qed

section \<open>Properties\<close>

text \<open>C31: iterating over the values below an array slot, or over a single entry, ends and delivers every
  entry below it exactly once, together with the indices under which reading finds it.\<close>

theorem iterator_visits_entries:
  assumes "slot_wf (m - level) s" and "level \<le> m"
  shows "\<exists>es. iterator_run m (var_slot_iterator_create s level) = Some (map (\<lambda>(p, e). (p, Slot_entry e)) es)
     \<and> distinct (map fst es)
     \<and> (\<forall>p e. (p, e) \<in> set es \<longleftrightarrow> length p = m - level \<and> list_all (\<lambda>j. 0 \<le> j \<and> j < 2 ^ 32) p
          \<and> get_slot_for_reading (m - level) s (map word_of_int p) = Some (Slot_entry e))"
proof -
  let ?f = "\<lparr>it_slot = s, it_level = level, it_i = 0\<rparr>"
  have ok: "stack_ok m [?f]" using assms by (simp add: frame_ok_def)
  have first: "var_slot_iterator_next m (var_slot_iterator_create s level) = Some [?f]"
    by (simp add: var_slot_iterator_create_def)
  have "iterator_run m (var_slot_iterator_create s level)
      = Some (map (\<lambda>(p, e). (p, Slot_entry e)) (slot_leaves (m - level) [] s))"
  proof (cases "level = m")
    case True
    then obtain e where s: "s = Slot_entry e" using assms(1) by auto
    have "iterator_to_entry m (var_slot_iterator_create s level) = Some [?f]"
      using first True by (simp add: iterator_to_entry_stop)
    moreover have "iterator_run m [?f] = Some []"
      using iterator_run_delivers [OF ok] True by simp
    ultimately show ?thesis
      using True s by (subst iterator_run.simps) (simp add: iterator_at_end_def iterator_indices_def)
  next
    case False
    then have lvl: "level < m" using assms(2) by simp
    have "iterator_to_entry m (var_slot_iterator_create s level) = iterator_to_entry m [?f]"
      using first False by (simp add: iterator_to_entry_continue)
    then have "iterator_run m (var_slot_iterator_create s level) = iterator_run m [?f]"
      by (subst (1 2) iterator_run.simps) simp
    moreover have "to_come m [?f] = slot_leaves (m - level) [] s"
      using lvl by (cases "m - level") (auto simp: leaves_from_def split: varslot_t.splits)
    ultimately show ?thesis using iterator_run_delivers [OF ok] by simp
  qed
  then show ?thesis
    using slot_leaves_distinct slot_leaves_iff [OF assms(1)]
    by (intro exI [of _ "slot_leaves (m - level) [] s"]) (auto simp: get_slot_for_reading_def)
qed

theorem iterator_visits_entries_witness:
  "\<exists>es. iterator_run 1 (var_slot_iterator_create
        (Slot_array [Slot_entry (empty_entry\<lparr>ent_value := Some ''a''\<rparr>), Slot_entry (empty_entry :: nat slot_entry_t)]) 0)
       = Some (map (\<lambda>(p, e). (p, Slot_entry e)) es) \<and> distinct (map fst es)"
  using iterator_visits_entries [of 1 0 "Slot_array [Slot_entry (empty_entry\<lparr>ent_value := Some ''a''\<rparr>), Slot_entry (empty_entry :: nat slot_entry_t)]"]
  by auto

text \<open>The priority of a slot is the least upper bound of the priorities of the entries below it, the
  undefined priority if there is none.\<close>

lemma slot_priority_lub:
  "(\<forall>e \<in> set (slot_entries s). ent_priority e \<le> var_slot_get_priority s)
   \<and> (var_slot_get_priority s = VAR_PRIORITY_UNDEFINED
      \<or> (\<exists>e \<in> set (slot_entries s). var_slot_get_priority s = ent_priority e))"
proof -
  have "(\<forall>p \<in> set ps. p \<le> foldr max ps q) \<and> (foldr max ps q = q \<or> foldr max ps q \<in> set ps)"
    for ps and q :: var_priority_t
    by (induction ps) (auto simp: max_def)
  from this [of "map ent_priority (slot_entries s)" VAR_PRIORITY_UNDEFINED] show ?thesis
    by (auto simp: var_slot_get_priority_entries)
qed

end
