(* ===== verification/Name_Registry.thy ===== *)
theory Name_Registry
  imports Hash_Map
begin

text \<open>
  Objects found by their name. Packages, variable types and the members of a scope are kept in a hash map
  whose keys are compared without regard to case; an entry is a pointer to an object whose first member is the
  name, here the pair of the name, which never changes, and the identifier of the object. The theory has the
  facts on such maps, and the contract of a component that looks up objects by name and adds those it does not
  find: asking for names any number of times gives the same object for the same name up to case, and different
  objects for different names.
\<close>

type_synonym 'i name_map = "(c_string, c_string \<times> 'i) hashmap_t"

definition name_map_ok :: "'i name_map \<Rightarrow> bool" where
  "name_map_ok m \<longleftrightarrow> hashmap_live fst compare_ci_string_keys m"

definition name_get :: "'i name_map \<Rightarrow> c_string \<Rightarrow> 'i option" where
  "name_get m name = map_option snd (hashmap_get m name)"

text \<open>A map of one bucket without entries, for examples.\<close>

definition empty_name_map :: "'i name_map" where
  "empty_name_map = \<lparr>key_of = fst, hash = hash_ci_string, cmp = compare_ci_string_keys, has_destroy = True,
     num_buckets = 1, buckets = [\<lparr>num_entries = 0, entries = [], free_entries = []\<rparr>], in_destroy = False\<rparr>"

lemma empty_name_map_ok: "name_map_ok empty_name_map" and empty_name_map_get: "hashmap_get empty_name_map = (\<lambda>_. None)"
proof -
  obtain m :: "'i name_map" where "hashmap_create fst 1 hash_ci_string compare_ci_string_keys True () = Done m ()"
    "hashmap_live fst compare_ci_string_keys m" "hashmap_get m = (\<lambda>_. None)"
    using hashmap_create_live [OF ci_keys.key_comparison_axioms, of 1 fst True "()"] by auto
  then show "name_map_ok (empty_name_map :: 'i name_map)" "hashmap_get (empty_name_map :: 'i name_map) = (\<lambda>_. None)"
    by (auto simp: hashmap_create_def empty_name_map_def name_map_ok_def)
qed

lemma hashmap_create_ci:
  obtains m :: "'i name_map" where "hashmap_create fst 1024 hash_ci_string compare_ci_string_keys d s = Done m s"
    and "name_map_ok m" and "hashmap_get m = (\<lambda>_. None)"
proof -
  have "(0::nat) < 1024" by simp
  from hashmap_create_live [OF ci_keys.key_comparison_axioms this, of fst d s] show ?thesis
    using that unfolding name_map_ok_def by (elim exE conjE)
qed

lemma name_put:
  assumes "name_map_ok m"
  obtains ds m' where "hashmap_put (n, i) m = Done ds m'" and "name_map_ok m'"
    and "hashmap_get m' = (\<lambda>k. if strcasecmp_eq k n then Some (n, i) else hashmap_get m k)"
  using hm.put_ok [of fst compare_ci_string_keys m "(n, i)"] assms
  by (auto simp: name_map_ok_def compare_ci_string_keys_def)

lemma name_remove:
  assumes "name_map_ok m"
  obtains r m' where "hashmap_remove n m = Done r m'" and "name_map_ok m'"
    and "hashmap_get m' = (\<lambda>k. if strcasecmp_eq k n then None else hashmap_get m k)"
  using hm.rem_ok [of fst compare_ci_string_keys m n] assms
  by (auto simp: name_map_ok_def compare_ci_string_keys_def)

lemma name_map_key:
  "name_map_ok m \<Longrightarrow> hashmap_get m k = Some (n, i) \<Longrightarrow> strcasecmp_eq k n"
  using hashmap_get_iff [of m k "(n, i)"]
  by (simp add: name_map_ok_def hashmap_live_def compare_ci_string_keys_def)

lemma name_map_cong:
  assumes ok: "name_map_ok m" and same: "strcasecmp_eq k l"
  shows "hashmap_get m k = hashmap_get m l"
proof -
  have "hashmap_get m k = Some e \<longleftrightarrow> hashmap_get m l = Some e" for e
    using ok same strcasecmp_eq_trans [OF same, of "fst e"] strcasecmp_eq_trans [OF strcasecmp_eq_sym [OF same], of "fst e"]
    by (auto simp: name_map_ok_def hashmap_live_def hashmap_get_iff compare_ci_string_keys_def)
  then show ?thesis by (metis option.exhaust)
qed

lemma name_get_cong: "name_map_ok m \<Longrightarrow> strcasecmp_eq k l \<Longrightarrow> name_get m k = name_get m l"
  by (simp add: name_get_def name_map_cong)

section \<open>Finding or adding objects by name\<close>

locale name_registry =
  fixes find :: "'s \<Rightarrow> c_string \<Rightarrow> 'i option"
    and get_or_add :: "c_string \<Rightarrow> ('s, 'i) action"
    and inv :: "'s \<Rightarrow> bool"
  assumes find_cong: "inv s \<Longrightarrow> strcasecmp_eq k l \<Longrightarrow> find s k = find s l"
    and find_inj: "inv s \<Longrightarrow> find s k = Some i \<Longrightarrow> find s l = Some i \<Longrightarrow> strcasecmp_eq k l"
    and get_present: "inv s \<Longrightarrow> find s k = Some i \<Longrightarrow> get_or_add k s = Done i s"
    and get_absent: "inv s \<Longrightarrow> find s k = None \<Longrightarrow>
      \<exists>i s'. get_or_add k s = Done i s' \<and> inv s' \<and> find s' = (\<lambda>l. if strcasecmp_eq l k then Some i else find s l)"
begin

lemma get_or_add_ok:
  assumes "inv s"
  obtains i s' where "get_or_add k s = Done i s'" and "inv s'" and "find s' k = Some i"
    and "\<And>l j. find s l = Some j \<Longrightarrow> find s' l = Some j"
proof (cases "find s k")
  case None
  then obtain i s' where s': "get_or_add k s = Done i s'" "inv s'"
    "find s' = (\<lambda>l. if strcasecmp_eq l k then Some i else find s l)"
    using get_absent [OF assms] by blast
  have "find s' l = Some j" if "find s l = Some j" for l j
    using s'(3) that None find_cong [OF assms, of l k] by auto
  with s' show ?thesis using that by auto
next
  case (Some i)
  then show ?thesis using that [of i s] get_present [OF assms Some] assms by auto
qed

lemma get_or_add_all_found:
  "inv s \<Longrightarrow> \<exists>is s'. run_all get_or_add ks s = Done is s' \<and> inv s' \<and> map (find s') ks = map Some is
     \<and> (\<forall>l j. find s l = Some j \<longrightarrow> find s' l = Some j)"
proof (induction ks arbitrary: s)
  case (Cons k ks)
  obtain i s1 where s1: "get_or_add k s = Done i s1" "inv s1" "find s1 k = Some i"
    "\<And>l j. find s l = Some j \<Longrightarrow> find s1 l = Some j"
    using get_or_add_ok [OF Cons.prems] by blast
  obtain "is" s2 where s2: "run_all get_or_add ks s1 = Done is s2" "inv s2" "map (find s2) ks = map Some is"
    "\<forall>l j. find s1 l = Some j \<longrightarrow> find s2 l = Some j"
    using Cons.IH [OF s1(2)] by blast
  show ?case using s1 s2 by auto
qed simp

lemma get_or_add_all_same:
  assumes "inv s"
  shows "\<exists>is s'. run_all get_or_add ks s = Done is s' \<and> length is = length ks
    \<and> (\<forall>a<length ks. \<forall>b<length ks. is ! a = is ! b \<longleftrightarrow> strcasecmp_eq (ks ! a) (ks ! b))"
proof -
  obtain "is" s' where s': "run_all get_or_add ks s = Done is s'" "inv s'" "map (find s') ks = map Some is"
    using get_or_add_all_found [OF assms, of ks] by blast
  then have len: "length is = length ks" by (metis length_map)
  have nth: "find s' (ks ! a) = Some (is ! a)" if "a < length ks" for a
    using arg_cong [OF s'(3), of "\<lambda>xs. xs ! a"] that len by simp
  have "is ! a = is ! b \<longleftrightarrow> strcasecmp_eq (ks ! a) (ks ! b)" if "a < length ks" "b < length ks" for a b
    using find_inj [OF s'(2) nth [OF that(1)], of "ks ! b"] find_cong [OF s'(2), of "ks ! a" "ks ! b"]
      nth [OF that(1)] nth [OF that(2)] by auto
  with s' len show ?thesis by blast
qed

end

end
