(* ===== verification/Package.thy ===== *)
theory Package
  imports Name_Registry C_Strings
begin

text \<open>
  Packages, their files and locations in files: \<open>package/core.c\<close>, \<open>package/file.c\<close> and
  \<open>package/location.c\<close>. A package is addressed by its identifier. A file belongs to one package and has one
  type, and a package has at most one file of a type that is never replaced, so the pair of both is the address
  of a file.
\<close>

section \<open>State\<close>

type_synonym package_id = nat
type_synonym file_ref = "package_id \<times> nat"

definition PACKAGE_FILE_TYPE_CONFIG :: nat where "PACKAGE_FILE_TYPE_CONFIG = 0"
definition PACKAGE_FILE_TYPE_VARTYPE :: nat where "PACKAGE_FILE_TYPE_VARTYPE = 1"
definition PACKAGE_FILE_TYPE_VARDEF :: nat where "PACKAGE_FILE_TYPE_VARDEF = 2"
definition PACKAGE_FILE_TYPE_EXTCHECK :: nat where "PACKAGE_FILE_TYPE_EXTCHECK = 3"
definition PACKAGE_FILE_TYPE_IMAGE :: nat where "PACKAGE_FILE_TYPE_IMAGE = 4"
definition PACKAGE_FILE_TYPE_NUM :: nat where "PACKAGE_FILE_TYPE_NUM = PACKAGE_FILE_TYPE_IMAGE + 1"

lemmas file_type_defs =
  PACKAGE_FILE_TYPE_CONFIG_def PACKAGE_FILE_TYPE_VARTYPE_def PACKAGE_FILE_TYPE_VARDEF_def
  PACKAGE_FILE_TYPE_EXTCHECK_def PACKAGE_FILE_TYPE_IMAGE_def PACKAGE_FILE_TYPE_NUM_def

definition PACKAGE_INTERNAL_NAME :: c_string where "PACKAGE_INTERNAL_NAME = ''<internal>''"

record package_file_t =
  file_package :: package_id
  file_type :: nat
  file_name :: c_string

record package_t =
  pkg_name :: c_string
  pkg_files :: "package_file_t option list"

record location_t =
  loc_file :: file_ref
  loc_line :: u32
  loc_column :: u32

record package_store =
  ps_packages :: "package_id \<Rightarrow> package_t option"
  ps_next :: package_id
  package_map :: "package_id name_map"
  internal_package :: "package_id option"

type_synonym 'a package_action = "(package_store, 'a) action"

definition no_packages :: package_store where
  "no_packages = \<lparr>ps_packages = (\<lambda>_. None), ps_next = 0, package_map = empty_name_map, internal_package = None\<rparr>"

section \<open>Packages\<close>

definition package_type_to_string :: "nat \<Rightarrow> ('s, c_string) action" where
  "package_type_to_string type =
     (if type = PACKAGE_FILE_TYPE_CONFIG then ret ''configuration file''
      else if type = PACKAGE_FILE_TYPE_VARTYPE then ret ''variable type file''
      else if type = PACKAGE_FILE_TYPE_VARDEF then ret ''variable definition file''
      else if type = PACKAGE_FILE_TYPE_EXTCHECK then ret ''extended check script''
      else if type = PACKAGE_FILE_TYPE_IMAGE then ret ''image file''
      else raise Assertion_failed)"

definition get_package :: "package_id \<Rightarrow> package_t package_action" where
  "get_package p = andthen get_state (\<lambda>s. deref (ps_packages s p))"

definition package_create :: "c_string \<Rightarrow> package_id package_action" where
  "package_create name =
     andthen get_state (\<lambda>s.
       andthen (put_state (s\<lparr>ps_packages := (ps_packages s)(ps_next s \<mapsto>
           \<lparr>pkg_name = name, pkg_files = replicate PACKAGE_FILE_TYPE_NUM None\<rparr>), ps_next := ps_next s + 1\<rparr>))
         (\<lambda>_. ret (ps_next s)))"

definition package_destroy :: "package_id \<Rightarrow> unit package_action" where
  "package_destroy p =
     andthen (get_package p) (\<lambda>_. andthen get_state (\<lambda>s. put_state (s\<lparr>ps_packages := (ps_packages s)(p := None)\<rparr>)))"

definition package_try_get :: "package_store \<Rightarrow> c_string \<Rightarrow> package_id option" where
  "package_try_get s name = name_get (package_map s) name"

definition package_get :: "package_store \<Rightarrow> c_string \<Rightarrow> package_id option" where
  "package_get s name = (case package_try_get s name of Some p \<Rightarrow> Some p | None \<Rightarrow> None)"

definition package_get_internal :: "package_id package_action" where
  "package_get_internal = andthen get_state (\<lambda>s. deref (internal_package s))"

definition on_package_map :: "(package_id name_map, 'a) action \<Rightarrow> 'a package_action" where
  "on_package_map = zoom package_map (\<lambda>m s. s\<lparr>package_map := m\<rparr>)"

definition package_add :: "c_string \<Rightarrow> package_id option package_action" where
  "package_add name =
     andthen get_state (\<lambda>s.
       case package_try_get s name of
         None \<Rightarrow>
           andthen (package_create name) (\<lambda>package.
             andthen (on_package_map (hashmap_put (name, package))) (\<lambda>_. ret (Some package)))
       | Some _ \<Rightarrow> ret None)"

definition package_get_or_add :: "c_string \<Rightarrow> package_id option package_action" where
  "package_get_or_add name =
     andthen get_state (\<lambda>s.
       case package_try_get s name of
         Some package \<Rightarrow> ret (Some package)
       | None \<Rightarrow> package_add name)"

definition package_get_name :: "package_id \<Rightarrow> c_string package_action" where
  "package_get_name p = andthen (get_package p) (\<lambda>package. ret (pkg_name package))"

section \<open>Files\<close>

definition package_file_create :: "package_id \<Rightarrow> nat \<Rightarrow> c_string \<Rightarrow> package_file_t" where
  "package_file_create package type name = \<lparr>file_package = package, file_type = type, file_name = name\<rparr>"

definition package_get_file :: "package_id \<Rightarrow> nat \<Rightarrow> file_ref option package_action" where
  "package_get_file p type =
     andthen (my_assert (type < PACKAGE_FILE_TYPE_NUM)) (\<lambda>_.
       andthen (get_package p) (\<lambda>package.
         ret (case pkg_files package ! type of None \<Rightarrow> None | Some _ \<Rightarrow> Some (p, type))))"

definition package_set_file :: "package_id \<Rightarrow> nat \<Rightarrow> c_string \<Rightarrow> file_ref package_action" where
  "package_set_file p type file =
     andthen (my_assert (type < PACKAGE_FILE_TYPE_NUM)) (\<lambda>_.
       andthen (get_package p) (\<lambda>package.
         andthen (my_assert (pkg_files package ! type = None)) (\<lambda>_.
           andthen get_state (\<lambda>s.
             andthen (put_state (s\<lparr>ps_packages := (ps_packages s)(p \<mapsto>
                 package\<lparr>pkg_files := (pkg_files package)[type := Some (package_file_create p type file)]\<rparr>)\<rparr>))
               (\<lambda>_. ret (p, type))))))"

definition get_file :: "file_ref \<Rightarrow> package_file_t package_action" where
  "get_file f =
     andthen (get_package (fst f)) (\<lambda>package.
       if snd f < length (pkg_files package) then deref (pkg_files package ! snd f) else raise Invalid_access)"

definition package_file_get_package :: "file_ref \<Rightarrow> package_id package_action" where
  "package_file_get_package f = andthen (get_file f) (\<lambda>file. ret (file_package file))"

definition package_file_get_type :: "file_ref \<Rightarrow> nat package_action" where
  "package_file_get_type f = andthen (get_file f) (\<lambda>file. ret (file_type file))"

definition package_file_get_name :: "file_ref \<Rightarrow> c_string package_action" where
  "package_file_get_name f = andthen (get_file f) (\<lambda>file. ret (file_name file))"

text \<open>Text from \<open>safe_sprintf\<close> that is used as a string: the NULL pointer is an invalid access.\<close>

definition formatted :: "c_string \<Rightarrow> c_string \<Rightarrow> c_string package_action" where
  "formatted fmt t =
     (case safe_sprintf fmt (Some t) of None \<Rightarrow> raise Out_of_fuel | Some buf \<Rightarrow> deref buf)"

definition package_file_to_string :: "file_ref \<Rightarrow> c_string package_action" where
  "package_file_to_string f =
     andthen (get_file f) (\<lambda>file.
       andthen (package_type_to_string (file_type file)) (\<lambda>type.
         andthen (package_get_name (file_package file)) (\<lambda>name.
           formatted (''%s '' @ apostrophe @ ''%s'' @ apostrophe @ '' (package %s)'')
             (type @ '' '' @ apostrophe @ file_name file @ apostrophe @ '' (package '' @ name @ '')''))))"

section \<open>Locations\<close>

definition location_create :: "file_ref option \<Rightarrow> u32 \<Rightarrow> u32 \<Rightarrow> location_t package_action" where
  "location_create file line column =
     andthen (my_assert (file \<noteq> None)) (\<lambda>_.
       andthen (deref file) (\<lambda>f. ret \<lparr>loc_file = f, loc_line = line, loc_column = column\<rparr>))"

definition location_create_internal :: "nat \<Rightarrow> location_t package_action" where
  "location_create_internal type =
     andthen package_get_internal (\<lambda>p.
       andthen (package_get_file p type) (\<lambda>file. location_create file 0 0))"

definition location_equals :: "location_t \<Rightarrow> location_t \<Rightarrow> bool" where
  "location_equals l m \<longleftrightarrow> loc_file l = loc_file m \<and> loc_line l = loc_line m \<and> loc_column l = loc_column m"

definition location_toString :: "location_t \<Rightarrow> c_string package_action" where
  "location_toString l =
     andthen (package_file_to_string (loc_file l)) (\<lambda>file_str.
       formatted ''[%s %d:%d]''
         (''['' @ file_str @ '' '' @ int_to_dec (sint (loc_line l)) @ '':'' @ int_to_dec (sint (loc_column l)) @ '']''))"

definition location_clone :: "location_t \<Rightarrow> location_t package_action" where
  "location_clone l = location_create (Some (loc_file l)) (loc_line l) (loc_column l)"

definition location_get_package_file :: "location_t \<Rightarrow> file_ref" where
  "location_get_package_file l = loc_file l"

section \<open>The module\<close>

definition package_foreach :: "(c_string \<times> package_id \<Rightarrow> bool package_action) \<Rightarrow> bool package_action" where
  "package_foreach visitor = andthen get_state (\<lambda>s. hashmap_foreach (package_map s) visitor)"

definition package_core_init :: "unit package_action" where
  "package_core_init =
     andthen (hashmap_create fst 1024 hash_ci_string compare_ci_string_keys True) (\<lambda>m.
     andthen get_state (\<lambda>s. andthen (put_state (s\<lparr>package_map := m\<rparr>)) (\<lambda>_.
     andthen (package_create PACKAGE_INTERNAL_NAME) (\<lambda>p.
     andthen get_state (\<lambda>s. andthen (put_state (s\<lparr>internal_package := Some p\<rparr>)) (\<lambda>_.
     andthen (package_set_file p PACKAGE_FILE_TYPE_CONFIG PACKAGE_INTERNAL_NAME) (\<lambda>_.
     andthen (package_set_file p PACKAGE_FILE_TYPE_VARTYPE PACKAGE_INTERNAL_NAME) (\<lambda>_.
     andthen (package_set_file p PACKAGE_FILE_TYPE_VARDEF PACKAGE_INTERNAL_NAME) (\<lambda>_.
     andthen (package_set_file p PACKAGE_FILE_TYPE_EXTCHECK PACKAGE_INTERNAL_NAME) (\<lambda>_.
     andthen (package_set_file p PACKAGE_FILE_TYPE_IMAGE PACKAGE_INTERNAL_NAME) (\<lambda>_. ret ())))))))))))"

text \<open>The entries the hash map hands to its destructor are destroyed one after the other.\<close>

primrec package_destroy_all :: "(c_string \<times> package_id) list \<Rightarrow> unit package_action" where
  "package_destroy_all [] = ret ()"
| "package_destroy_all (e # es) = andthen (package_destroy (snd e)) (\<lambda>_. package_destroy_all es)"

definition package_core_fini :: "unit package_action" where
  "package_core_fini =
     andthen package_get_internal (\<lambda>p.
     andthen (package_destroy p) (\<lambda>_.
     andthen get_state (\<lambda>s. package_destroy_all (hashmap_destroy (package_map s)))))"

section \<open>Well-formed package stores\<close>

text \<open>Every file of a package carries the address it is found at.\<close>

definition files_ok :: "package_id \<Rightarrow> package_t \<Rightarrow> bool" where
  "files_ok p package \<longleftrightarrow> length (pkg_files package) = PACKAGE_FILE_TYPE_NUM \<and>
     (\<forall>t<PACKAGE_FILE_TYPE_NUM. \<forall>f. pkg_files package ! t = Some f \<longrightarrow> file_package f = p \<and> file_type f = t)"

definition package_at :: "package_store \<Rightarrow> package_id \<Rightarrow> c_string \<Rightarrow> bool" where
  "package_at s p n \<longleftrightarrow> p < ps_next s \<and>
     (\<exists>package. ps_packages s p = Some package \<and> pkg_name package = n \<and> files_ok p package)"

definition internal_ok :: "package_store \<Rightarrow> bool" where
  "internal_ok s \<longleftrightarrow> (\<exists>p package. internal_package s = Some p \<and> p < ps_next s \<and> ps_packages s p = Some package
     \<and> pkg_name package = PACKAGE_INTERNAL_NAME
     \<and> pkg_files package = map (\<lambda>t. Some (package_file_create p t PACKAGE_INTERNAL_NAME)) [0..<PACKAGE_FILE_TYPE_NUM])"

definition packages_ok :: "package_store \<Rightarrow> bool" where
  "packages_ok s \<longleftrightarrow> name_map_ok (package_map s)
     \<and> (\<forall>k n p. hashmap_get (package_map s) k = Some (n, p) \<longrightarrow> package_at s p n) \<and> internal_ok s"

lemma get_package_apply [simp]:
  "get_package p s = (case ps_packages s p of None \<Rightarrow> Failed Invalid_access | Some x \<Rightarrow> Done x s)"
  by (simp add: get_package_def andthen_def)

lemma package_create_apply [simp]:
  "package_create name s = Done (ps_next s) (s\<lparr>ps_packages := (ps_packages s)(ps_next s \<mapsto>
     \<lparr>pkg_name = name, pkg_files = replicate PACKAGE_FILE_TYPE_NUM None\<rparr>), ps_next := ps_next s + 1\<rparr>)"
  by (simp add: package_create_def andthen_def)

lemma package_set_file_Done:
  assumes "ps_packages s p = Some package" and "type < PACKAGE_FILE_TYPE_NUM" and "pkg_files package ! type = None"
  shows "package_set_file p type file s = Done (p, type) (s\<lparr>ps_packages := (ps_packages s)(p \<mapsto>
    package\<lparr>pkg_files := (pkg_files package)[type := Some (package_file_create p type file)]\<rparr>)\<rparr>)"
  using assms by (simp add: package_set_file_def andthen_def)

definition with_internal :: "package_store \<Rightarrow> package_id name_map \<Rightarrow> package_file_t option list \<Rightarrow> package_store" where
  "with_internal s m fs = s\<lparr>package_map := m,
     ps_packages := (ps_packages s)(ps_next s \<mapsto> \<lparr>pkg_name = PACKAGE_INTERNAL_NAME, pkg_files = fs\<rparr>),
     ps_next := ps_next s + 1, internal_package := Some (ps_next s)\<rparr>"

lemma package_set_file_internal:
  assumes "type < length fs" and "length fs = PACKAGE_FILE_TYPE_NUM" and "fs ! type = None"
  shows "package_set_file (ps_next s) type file (with_internal s m fs) = Done (ps_next s, type)
    (with_internal s m (fs[type := Some (package_file_create (ps_next s) type file)]))"
  using assms by (simp add: package_set_file_def andthen_def with_internal_def)

lemma package_core_init_ok:
  "\<exists>s'. package_core_init s = Done () s' \<and> packages_ok s' \<and> hashmap_get (package_map s') = (\<lambda>_. None)"
proof -
  obtain m :: "package_id name_map" where m: "hashmap_create fst 1024 hash_ci_string compare_ci_string_keys True s = Done m s"
    "name_map_ok m" "hashmap_get m = (\<lambda>_. None)"
    using hashmap_create_ci [of True s] .
  let ?file = "\<lambda>t. Some (package_file_create (ps_next s) t PACKAGE_INTERNAL_NAME)"
  have num: "PACKAGE_FILE_TYPE_NUM = Suc (Suc (Suc (Suc (Suc 0))))" by (simp add: file_type_defs)
  let ?s1 = "with_internal s m [None, None, None, None, None]"
  have "package_core_init s =
     andthen (package_set_file (ps_next s) 0 PACKAGE_INTERNAL_NAME) (\<lambda>_.
     andthen (package_set_file (ps_next s) 1 PACKAGE_INTERNAL_NAME) (\<lambda>_.
     andthen (package_set_file (ps_next s) 2 PACKAGE_INTERNAL_NAME) (\<lambda>_.
     andthen (package_set_file (ps_next s) 3 PACKAGE_INTERNAL_NAME) (\<lambda>_.
     andthen (package_set_file (ps_next s) 4 PACKAGE_INTERNAL_NAME) (\<lambda>_. ret ()))))) ?s1"
    using m(1) by (simp add: package_core_init_def num with_internal_def del: fun_upd_apply) (simp add: file_type_defs)
  also have "\<dots> = Done () (with_internal s m [?file 0, ?file 1, ?file 2, ?file 3, ?file 4])"
    by (simp add: package_set_file_internal num numeral_eq_Suc)
  finally show ?thesis
    using m by (simp add: packages_ok_def internal_ok_def with_internal_def num numeral_eq_Suc)
qed

lemma package_get_or_add_absent:
  assumes ok: "packages_ok s" and new: "package_try_get s k = None"
  shows "\<exists>p s'. package_get_or_add k s = Done (Some p) s' \<and> packages_ok s'
    \<and> package_try_get s' = (\<lambda>l. if strcasecmp_eq l k then Some p else package_try_get s l)"
proof -
  let ?p = "ps_next s"
  let ?pk = "\<lparr>pkg_name = k, pkg_files = replicate PACKAGE_FILE_TYPE_NUM None\<rparr>"
  let ?t = "s\<lparr>ps_packages := (ps_packages s)(?p \<mapsto> ?pk), ps_next := ?p + 1\<rparr>"
  obtain ds m' where m': "hashmap_put (k, ?p) (package_map s) = Done ds m'" "name_map_ok m'"
    "hashmap_get m' = (\<lambda>l. if strcasecmp_eq l k then Some (k, ?p) else hashmap_get (package_map s) l)"
    using name_put [of "package_map s"] ok unfolding packages_ok_def by blast
  have run: "package_get_or_add k s = Done (Some ?p) (?t\<lparr>package_map := m'\<rparr>)"
    using new m'(1) by (simp add: package_get_or_add_def package_add_def on_package_map_def andthen_def)
  have new_at: "package_at (?t\<lparr>package_map := m'\<rparr>) ?p k"
    by (simp add: package_at_def files_ok_def)
  have old_at: "package_at (?t\<lparr>package_map := m'\<rparr>) p n" if "package_at s p n" for p n
    using that by (auto simp: package_at_def)
  have at: "package_at (?t\<lparr>package_map := m'\<rparr>) p n" if "hashmap_get m' l = Some (n, p)" for l n p
  proof (cases "strcasecmp_eq l k")
    case True
    then show ?thesis using that new_at by (simp add: m'(3))
  next
    case False
    then have "package_at s p n" using that ok unfolding packages_ok_def m'(3) by auto
    then show ?thesis by (rule old_at)
  qed
  have "internal_ok (?t\<lparr>package_map := m'\<rparr>)"
  proof -
    obtain p package where "internal_package s = Some p" "p < ps_next s" "ps_packages s p = Some package"
      "pkg_name package = PACKAGE_INTERNAL_NAME"
      "pkg_files package = map (\<lambda>t. Some (package_file_create p t PACKAGE_INTERNAL_NAME)) [0..<PACKAGE_FILE_TYPE_NUM]"
      using ok unfolding packages_ok_def internal_ok_def by blast
    then show ?thesis unfolding internal_ok_def by (intro exI [of _ p] exI [of _ package]) simp
  qed
  then have "packages_ok (?t\<lparr>package_map := m'\<rparr>)"
    using at m'(2) by (simp add: packages_ok_def)
  moreover have "package_try_get (?t\<lparr>package_map := m'\<rparr>) = (\<lambda>l. if strcasecmp_eq l k then Some ?p else package_try_get s l)"
    by (rule ext) (simp add: package_try_get_def name_get_def m'(3))
  ultimately show ?thesis using run by blast
qed

lemma package_try_get_at:
  assumes "packages_ok s" and "package_try_get s k = Some p"
  obtains n where "package_at s p n" and "strcasecmp_eq k n"
proof -
  obtain n where "hashmap_get (package_map s) k = Some (n, p)"
    using assms(2) by (auto simp: package_try_get_def name_get_def)
  moreover from this have "package_at s p n" "strcasecmp_eq k n"
    using assms(1) name_map_key [of "package_map s" k n p] unfolding packages_ok_def by blast+
  ultimately show ?thesis using that by blast
qed

interpretation pkg: name_registry package_try_get "\<lambda>n. andthen (package_get_or_add n) deref" packages_ok
proof
  fix s k l i
  assume ok: "packages_ok s"
  show "strcasecmp_eq k l \<Longrightarrow> package_try_get s k = package_try_get s l"
    using ok name_map_cong [of "package_map s" k l] by (simp add: packages_ok_def package_try_get_def name_get_def)
  show "strcasecmp_eq k l" if found: "package_try_get s k = Some i" "package_try_get s l = Some i"
  proof -
    obtain n where n: "package_at s i n" "strcasecmp_eq k n" using package_try_get_at [OF ok found(1)] .
    obtain n' where n': "package_at s i n'" "strcasecmp_eq l n'" using package_try_get_at [OF ok found(2)] .
    have "n = n'" using n(1) n'(1) by (auto simp: package_at_def)
    then show ?thesis using strcasecmp_eq_trans [OF n(2) strcasecmp_eq_sym, of l] n'(2) by simp
  qed
  show "package_try_get s k = Some i \<Longrightarrow> andthen (package_get_or_add k) deref s = Done i s"
    by (simp add: package_get_or_add_def andthen_def)
  show "package_try_get s k = None \<Longrightarrow> \<exists>i s'. andthen (package_get_or_add k) deref s = Done i s' \<and> packages_ok s' \<and>
      package_try_get s' = (\<lambda>l. if strcasecmp_eq l k then Some i else package_try_get s l)"
    using package_get_or_add_absent [OF ok, of k] by (auto simp: andthen_deref_Done)
qed

lemma internal_location:
  assumes "packages_ok pk" obtains l where "location_create_internal PACKAGE_FILE_TYPE_VARTYPE pk = Done l pk"
proof -
  obtain p package where "internal_package pk = Some p" "ps_packages pk p = Some package"
    "pkg_files package = map (\<lambda>t. Some (package_file_create p t PACKAGE_INTERNAL_NAME)) [0..<PACKAGE_FILE_TYPE_NUM]"
    using assms unfolding packages_ok_def internal_ok_def by blast
  then show ?thesis
    by (intro that) (simp add: location_create_internal_def package_get_internal_def package_get_file_def
        location_create_def andthen_def file_type_defs)
qed

section \<open>Properties\<close>

text \<open>C26: after the initialisation of the module, any list of requests for packages by name comes back with
  packages; two requests give the same package exactly if their names are equal up to case, and the package has
  the requested name up to case.\<close>

theorem package_by_name:
  "\<exists>s0 ps s'. package_core_init s = Done () s0 \<and> run_all package_get_or_add names s0 = Done (map Some ps) s'
     \<and> length ps = length names
     \<and> (\<forall>i<length names. \<exists>n. package_get_name (ps ! i) s' = Done n s' \<and> strcasecmp_eq n (names ! i))
     \<and> (\<forall>i<length names. \<forall>j<length names. ps ! i = ps ! j \<longleftrightarrow> strcasecmp_eq (names ! i) (names ! j))"
proof -
  obtain s0 where s0: "package_core_init s = Done () s0" "packages_ok s0"
    using package_core_init_ok [of s] by blast
  obtain ps s' where run: "run_all (\<lambda>n. andthen (package_get_or_add n) deref) names s0 = Done ps s'"
    "packages_ok s'" "map (package_try_get s') names = map Some ps"
    using pkg.get_or_add_all_found [OF s0(2), of names] by blast
  have same: "length ps = length names"
    "\<forall>i<length names. \<forall>j<length names. ps ! i = ps ! j \<longleftrightarrow> strcasecmp_eq (names ! i) (names ! j)"
    using pkg.get_or_add_all_same [OF s0(2), of names] run(1) by auto
  have "\<exists>n. package_get_name (ps ! i) s' = Done n s' \<and> strcasecmp_eq n (names ! i)" if "i < length names" for i
  proof -
    have "package_try_get s' (names ! i) = Some (ps ! i)"
      using arg_cong [OF run(3), of "\<lambda>xs. xs ! i"] that same(1) by simp
    then obtain n where "package_at s' (ps ! i) n" "strcasecmp_eq (names ! i) n"
      using package_try_get_at [OF run(2)] by blast
    then show ?thesis
      by (auto simp: package_get_name_def package_at_def andthen_def intro: strcasecmp_eq_sym)
  qed
  then show ?thesis using s0(1) run(1) same by (auto simp: run_all_deref)
qed

theorem package_by_name_witness:
  "\<exists>s0 ps s'. package_core_init no_packages = Done () s0
     \<and> run_all package_get_or_add [''base'', ''dns'', ''BASE''] s0 = Done (map Some ps) s' \<and> ps ! 0 = ps ! 2 \<and> ps ! 0 \<noteq> ps ! 1"
proof -
  obtain s0 ps s' where ps: "package_core_init no_packages = Done () s0"
      "run_all package_get_or_add [''base'', ''dns'', ''BASE''] s0 = Done (map Some ps) s'"
    and same: "\<forall>i<3. \<forall>j<3. ps ! i = ps ! j \<longleftrightarrow> strcasecmp_eq ([''base'', ''dns'', ''BASE''] ! i) ([''base'', ''dns'', ''BASE''] ! j)"
    using package_by_name [of no_packages "[''base'', ''dns'', ''BASE'']"] by (auto simp: numeral_3_eq_3)
  have "strcasecmp_eq ''base'' ''BASE''" "\<not> strcasecmp_eq ''base'' ''dns''"
    by code_simp+
  then have "ps ! 0 = ps ! 2" "ps ! 0 \<noteq> ps ! 1" using same by (simp_all add: numeral_2_eq_2)
  then show ?thesis using ps by blast
qed

text \<open>A file of a package of the store is set once. Afterwards it is found under its type and names its
  package, its type and its path, the other types of the package have the files they had, and setting it again
  is an assertion failure.\<close>

lemma package_file_set_once:
  assumes "packages_ok s" and "package_try_get s name = Some p"
    and "type < PACKAGE_FILE_TYPE_NUM" and "package_get_file p type s = Done None s"
  shows "\<exists>s'. package_set_file p type path s = Done (p, type) s'
    \<and> package_get_file p type s' = Done (Some (p, type)) s'
    \<and> package_file_get_package (p, type) s' = Done p s' \<and> package_file_get_type (p, type) s' = Done type s'
    \<and> package_file_get_name (p, type) s' = Done path s'
    \<and> (\<forall>t. t < PACKAGE_FILE_TYPE_NUM \<and> t \<noteq> type \<longrightarrow>
        (\<exists>f. package_get_file p t s = Done f s \<and> package_get_file p t s' = Done f s'))
    \<and> package_set_file p type path' s' = Failed Assertion_failed \<and> packages_ok s'"
proof -
  obtain n package where package: "p < ps_next s" "ps_packages s p = Some package" "pkg_name package = n" "files_ok p package"
    using package_try_get_at [OF assms(1,2)] unfolding package_at_def by blast
  then have len: "length (pkg_files package) = PACKAGE_FILE_TYPE_NUM" by (simp add: files_ok_def)
  have free: "pkg_files package ! type = None"
    using assms(3,4) package(2) by (auto simp: package_get_file_def andthen_def split: option.splits)
  let ?new = "package\<lparr>pkg_files := (pkg_files package)[type := Some (package_file_create p type path)]\<rparr>"
  let ?s = "s\<lparr>ps_packages := (ps_packages s)(p \<mapsto> ?new)\<rparr>"
  have new: "files_ok p ?new" "pkg_name ?new = n"
    using package(3,4) len assms(3)
    by (auto simp: files_ok_def nth_list_update package_file_create_def split: if_splits)
  have at: "package_at ?s q m" if "package_at s q m" for q m
    using that new package unfolding package_at_def by auto
  have "internal_package s \<noteq> Some p"
    using assms(1) package(2) free len assms(3) by (auto simp: packages_ok_def internal_ok_def)
  then have "internal_ok ?s" using assms(1) unfolding packages_ok_def internal_ok_def by fastforce
  then have ok: "packages_ok ?s" using assms(1) at unfolding packages_ok_def by auto
  have run: "package_set_file p type path s = Done (p, type) ?s"
    using package_set_file_Done [OF package(2) assms(3) free] by simp
  have again: "package_set_file p type path' ?s = Failed Assertion_failed"
    using assms(3) len by (simp add: package_set_file_def andthen_def)
  have found: "package_get_file p type ?s = Done (Some (p, type)) ?s" "package_file_get_package (p, type) ?s = Done p ?s"
    "package_file_get_type (p, type) ?s = Done type ?s" "package_file_get_name (p, type) ?s = Done path ?s"
    using assms(3) len by (simp_all add: package_get_file_def package_file_get_package_def package_file_get_type_def
        package_file_get_name_def get_file_def andthen_def package_file_create_def)
  have other: "\<exists>f. package_get_file p t s = Done f s \<and> package_get_file p t ?s = Done f ?s"
    if "t < PACKAGE_FILE_TYPE_NUM \<and> t \<noteq> type" for t
    using that package(2) by (simp add: package_get_file_def andthen_def)
  show ?thesis by (rule exI [of _ ?s]) (use run again found other ok in blast)
qed

text \<open>A location of the program itself exists for each of the five file types and no other; it is printed
  as the file type, the name of the internal package twice and line and column zero.\<close>

lemma location_internal:
  assumes "packages_ok s"
  shows "if type < PACKAGE_FILE_TYPE_NUM
    then \<exists>l t. location_create_internal type s = Done l s \<and> package_type_to_string type s = Done t s
      \<and> location_toString l s = Done (''['' @ t @ '' '' @ apostrophe @ ''<internal>'' @ apostrophe
        @ '' (package <internal>) 0:0]'') s
    else location_create_internal type s = Failed Assertion_failed"
proof -
  obtain p package where p: "internal_package s = Some p" "ps_packages s p = Some package"
    "pkg_name package = PACKAGE_INTERNAL_NAME"
    "pkg_files package = map (\<lambda>t. Some (package_file_create p t PACKAGE_INTERNAL_NAME)) [0..<PACKAGE_FILE_TYPE_NUM]"
    using assms unfolding packages_ok_def internal_ok_def by blast
  have create: "location_create_internal type s = (if type < PACKAGE_FILE_TYPE_NUM
      then Done \<lparr>loc_file = (p, type), loc_line = 0, loc_column = 0\<rparr> s else Failed Assertion_failed)"
    using p by (simp add: location_create_internal_def package_get_internal_def package_get_file_def
        location_create_def andthen_def)
  have zero: "int_to_dec 0 = ''0''" by code_simp
  show ?thesis
  proof (cases "type < PACKAGE_FILE_TYPE_NUM")
    case True
    obtain t where t: "package_type_to_string type s = Done t s" "length t < 100"
      using True by (auto simp: package_type_to_string_def file_type_defs less_Suc_eq numeral_eq_Suc)
    have "package_file_to_string (p, type) s = Done (t @ '' '' @ apostrophe @ ''<internal>'' @ apostrophe @ '' (package <internal>)'') s"
      using p True t by (simp add: package_file_to_string_def get_file_def package_get_name_def andthen_def
          formatted_def safe_sprintf_def safe_sprintf_loop_pos INT_MAX_def apostrophe_def package_file_create_def PACKAGE_INTERNAL_NAME_def)
    then show ?thesis
      using True t by (simp add: create location_toString_def andthen_def formatted_def safe_sprintf_def safe_sprintf_loop_pos INT_MAX_def apostrophe_def zero)
  qed (simp add: create)
qed

end
