(* ===== verification/Var_Store.thy ===== *)
theory Var_Store
  imports Expr_Eval Var_Slot Var_Part Package
begin

text \<open>
  The variables as objects in a store (\<open>struct var_t\<close> of \<open>var/core.h\<close>), their properties
  (\<open>var/props.c\<close>), the names of their instances (\<open>var/inst.c\<close>), and the conditions and default values
  the functions of \<open>var/core.c\<close> compute from the properties and cache in the variable. A variable is
  addressed by its identifier, the slots below it by a list of indices. Calls that lead back into the
  variables are members of the record \<open>var_env\<close>; \<open>Var_Access\<close> ties them to the functions themselves.
\<close>

section \<open>Variables\<close>

record 'd var_extra_t =
  ext_data :: 'd
  ext_clone :: "('d \<Rightarrow> 'd) option"

definition var_extra_clone :: "'d var_extra_t \<Rightarrow> 'd var_extra_t" where
  "var_extra_clone x =
     x\<lparr>ext_data := (case ext_clone x of Some f \<Rightarrow> f (ext_data x) | None \<Rightarrow> ext_data x)\<rparr>"

record 'd var_properties_t =
  prop_comment :: c_string
  prop_optional :: bool
  prop_weak :: bool
  prop_def_value :: "expr_t option"
  prop_dis_value :: "c_string option"
  prop_condition :: expr_t
  prop_extra :: "'d var_extra_t option"

type_synonym template_id = nat

record ('x, 'd) var_t =
  var_name :: c_string
  var_location :: location_t
  var_template :: "template_id option"
  var_type :: vartype_id
  var_scope :: scope_id
  var_level :: nat
  var_n :: "var_id option"
  var_n_clients :: "var_id list"
  var_slot :: "'x varslot_t"
  var_priority :: var_priority_t
  var_props :: "'d var_properties_t"
  var_condition :: "expr_t option"
  var_cond_valid :: bool
  var_def_value :: "expr_t option"

record ('x, 'd) var_store =
  st_vars :: "var_id \<Rightarrow> ('x, 'd) var_t option"

type_synonym ('x, 'd, 'z) st = "('x, 'd, 'z) var_store_scheme"

definition get_var :: "var_id \<Rightarrow> (('x, 'd, 'z) st, ('x, 'd) var_t) action" where
  "get_var v = andthen get_state (\<lambda>s. deref (st_vars s v))"

definition put_var :: "var_id \<Rightarrow> ('x, 'd) var_t \<Rightarrow> (('x, 'd, 'z) st, unit) action" where
  "put_var v x = andthen get_state (\<lambda>s. put_state (s\<lparr>st_vars := (st_vars s)(v \<mapsto> x)\<rparr>))"

lemma get_var_apply [simp]:
  "get_var v s = (case st_vars s v of None \<Rightarrow> Failed Invalid_access | Some x \<Rightarrow> Done x s)"
  by (simp add: get_var_def andthen_def)

lemma put_var_apply [simp]: "put_var v x s = Done () (s\<lparr>st_vars := (st_vars s)(v \<mapsto> x)\<rparr>)"
  by (simp add: put_var_def andthen_def)

text \<open>
  What the variables use of the rest of the program, and the calls between their own functions that form
  cycles: the condition of an array bound is computed from the conditions of its arrays, a value is read to
  evaluate an expression, an array bound is read and written when an element of an array is written.
\<close>

record ('g, 'x) var_env = "'g expr_env" +
  env_vartype_match :: "vartype_id \<Rightarrow> c_string \<Rightarrow> ('g, bool) action"
  env_create_from_string :: "scope_id \<Rightarrow> c_string \<Rightarrow> ('g, var_instance_t option) action"
  env_expr_type :: "'g \<Rightarrow> vartype_id \<Rightarrow> expr_type"
  env_global_scope :: scope_id
  env_get_condition :: "var_id \<Rightarrow> ('g, expr_t) action"
  env_slot_expand :: "var_id \<Rightarrow> u32 list \<Rightarrow> ('g, unit) action"
  env_do_set_value :: "var_instance_t \<Rightarrow> c_string option \<Rightarrow> 'x option \<Rightarrow> var_access_mode_t \<Rightarrow> var_priority_t \<Rightarrow>
    bool \<Rightarrow> bool \<Rightarrow> ('g, bool) action"

type_synonym ('x, 'd, 'z) env = "(('x, 'd, 'z) st, 'x) var_env"

text \<open>An environment for examples: every value matches every type, no name is known, conditions are those
  stored in the variables, and nothing can be written.\<close>

definition plain_env :: "('x, 'd, 'z) env" where
  "plain_env =
     \<lparr>env_var_get_level = \<lambda>v. andthen (get_var v) (\<lambda>var. ret (var_level var)),
      env_var_get_name = \<lambda>v. andthen (get_var v) (\<lambda>var. ret (var_name var)),
      env_try_get_value = \<lambda>inst. ret None,
      env_condition = \<lambda>v ctx. ret (expr_literal_create_boolean 0 True),
      env_inst_to_string = \<lambda>inst. ret [],
      env_add_temporary = \<lambda>regex. ret None,
      env_match_ext = \<lambda>t v. ret None,
      env_vartype_remove = \<lambda>t. ret (),
      env_vartype_get = \<lambda>n. ret None,
      env_scope_try_get = \<lambda>sc n. ret None,
      env_var_add = \<lambda>sc n t p. ret None,
      env_clear = \<lambda>inst mode priority. ret False,
      env_set_and_check = \<lambda>inst value mode priority. ret False,
      env_match_type_cache = \<lambda>s. None,
      env_set_match_type_cache = \<lambda>t s. s,
      env_match_var_cache = \<lambda>s. None,
      env_set_match_var_cache = \<lambda>v s. s,
      env_vartype_match = \<lambda>t v. ret True,
      env_create_from_string = \<lambda>sc n. ret None,
      env_expr_type = \<lambda>s t. EXPR_TYPE_STRING,
      env_global_scope = 0,
      env_get_condition = \<lambda>v. andthen (get_var v) (\<lambda>var. deref (var_condition var)),
      env_slot_expand = \<lambda>v is. ret (),
      env_do_set_value = \<lambda>inst value extra mode priority check ignore. ret False\<rparr>"

section \<open>Properties of variables\<close>

definition var_properties_create :: "('x, 'd, 'z) env \<Rightarrow> 'd var_properties_t" where
  "var_properties_create E =
     \<lparr>prop_comment = [], prop_optional = False, prop_weak = False, prop_def_value = None, prop_dis_value = None,
      prop_condition = Literal (expr_literal_create_boolean (env_global_scope E) True), prop_extra = None\<rparr>"

definition var_properties_clone :: "(var_id \<Rightarrow> expr_type) \<Rightarrow> 'd var_properties_t \<Rightarrow> 'd var_properties_t" where
  "var_properties_clone ty p =
     \<lparr>prop_comment = prop_comment p, prop_optional = prop_optional p, prop_weak = prop_weak p,
      prop_def_value = map_option (expr_clone ty) (prop_def_value p), prop_dis_value = prop_dis_value p,
      prop_condition = expr_clone ty (prop_condition p), prop_extra = map_option var_extra_clone (prop_extra p)\<rparr>"

section \<open>Conditions and default values\<close>

definition var_expr_type :: "('x, 'd, 'z) env \<Rightarrow> ('x, 'd, 'z) st \<Rightarrow> var_id \<Rightarrow> expr_type" where
  "var_expr_type E s v = (case st_vars s v of Some x \<Rightarrow> env_expr_type E s (var_type x) | None \<Rightarrow> EXPR_TYPE_UNKNOWN)"

definition bool_expr :: "('x, 'd, 'z) env \<Rightarrow> bool \<Rightarrow> expr_t" where
  "bool_expr E b = Literal (expr_literal_create_boolean (env_global_scope E) b)"

text \<open>Only conditions not collected yet are appended; a condition that is the literal true ends the loop.\<close>

fun find_equal :: "expr_t \<Rightarrow> expr_t list \<Rightarrow> ('s, bool) action" where
  "find_equal cond [] = ret False"
| "find_equal cond (e # es) = andthen (expr_equal cond e) (\<lambda>eq. if eq then ret True else find_equal cond es)"

fun collect_conditions :: "('x, 'd, 'z) env \<Rightarrow> expr_t list \<Rightarrow> var_id list \<Rightarrow> (('x, 'd, 'z) st, bool \<times> expr_t list) action" where
  "collect_conditions E expressions [] = ret (False, expressions)"
| "collect_conditions E expressions (c # cs) =
     andthen (env_get_condition E c) (\<lambda>cond.
       andthen (expr_equal cond (bool_expr E True)) (\<lambda>is_true.
         if is_true then ret (True, expressions)
         else andthen (expr_equal cond (bool_expr E False)) (\<lambda>is_false.
           if is_false then collect_conditions E expressions cs
           else andthen (find_equal cond expressions) (\<lambda>found.
             collect_conditions E (if found then expressions else expressions @ [cond]) cs))))"

definition join_conditions :: "('x, 'd, 'z) env \<Rightarrow> (var_id \<Rightarrow> expr_type) \<Rightarrow> expr_t \<Rightarrow> expr_t list \<Rightarrow> expr_t" where
  "join_conditions E ty e es =
     foldl (\<lambda>result expr. expr_logical_or_create (env_global_scope E)
       (expr_tobool_create (env_global_scope E) result) (expr_clone ty expr)) (expr_clone ty e) es"

definition condition_expression :: "('x, 'd, 'z) env \<Rightarrow> ('x, 'd) var_t \<Rightarrow> (('x, 'd, 'z) st, expr_t) action" where
  "condition_expression E var =
     andthen (expr_equal (prop_condition (var_props var)) (bool_expr E False)) (\<lambda>never.
       if never then ret (bool_expr E False)
       else if var_n_clients var \<noteq> [] then
         andthen (collect_conditions E [] (var_n_clients var)) (\<lambda>(true_found, expressions).
           andthen get_state (\<lambda>s.
             let ty = var_expr_type E s in
             if true_found then ret (expr_clone ty (prop_condition (var_props var)))
             else (case expressions of
                [] \<Rightarrow> ret (bool_expr E False)
              | e # es \<Rightarrow>
                  andthen (expr_equal (prop_condition (var_props var)) (bool_expr E True)) (\<lambda>always.
                    if always then ret (join_conditions E ty e es)
                    else ret (expr_logical_and_create (env_global_scope E)
                      (expr_clone ty (prop_condition (var_props var))) (join_conditions E ty e es))))))
       else andthen get_state (\<lambda>s. ret (expr_clone (var_expr_type E s) (prop_condition (var_props var)))))"

text \<open>Resolving, checking and the test on the type; a condition that fails one of them becomes false.\<close>

definition check_condition :: "('x, 'd, 'z) env \<Rightarrow> expr_t \<Rightarrow> (('x, 'd, 'z) st, bool \<times> expr_t) action" where
  "check_condition E condition =
     andthen (expr_resolve_variable_expressions (env_create_from_string E) (var_expr_type E) condition) (\<lambda>(ok, failed_ref, c).
       if \<not> ok then ret (False, bool_expr E False)
       else andthen (expr_typecheck_expression c) (\<lambda>(ok, error_expr, c).
         if \<not> ok then ret (False, bool_expr E False)
         else if expr_get_type c \<noteq> EXPR_TYPE_BOOLEAN then ret (False, bool_expr E False)
         else ret (True, c)))"

definition var_compute_condition :: "('x, 'd, 'z) env \<Rightarrow> var_id \<Rightarrow> (('x, 'd, 'z) st, unit) action" where
  "var_compute_condition E v =
     andthen (get_var v) (\<lambda>var.
       if var_condition var \<noteq> None then ret ()
       else andthen (condition_expression E var) (\<lambda>condition.
         andthen (check_condition E condition) (\<lambda>(valid, condition).
           andthen (get_var v) (\<lambda>var.
             put_var v (var\<lparr>var_condition := Some condition, var_cond_valid := var_cond_valid var \<or> valid\<rparr>)))))"

definition var_get_condition :: "('x, 'd, 'z) env \<Rightarrow> var_id \<Rightarrow> (('x, 'd, 'z) st, expr_t) action" where
  "var_get_condition E v =
     andthen (var_compute_condition E v) (\<lambda>_. andthen (get_var v) (\<lambda>var. deref (var_condition var)))"

definition var_has_valid_condition :: "('x, 'd, 'z) env \<Rightarrow> var_id \<Rightarrow> (('x, 'd, 'z) st, bool) action" where
  "var_has_valid_condition E v =
     andthen (var_compute_condition E v) (\<lambda>_. andthen (get_var v) (\<lambda>var. ret (var_cond_valid var)))"

definition var_compute_default_value :: "('x, 'd, 'z) env \<Rightarrow> var_id \<Rightarrow> (('x, 'd, 'z) st, unit) action" where
  "var_compute_default_value E v =
     andthen (get_var v) (\<lambda>var.
       case (var_def_value var, prop_def_value (var_props var)) of
         (None, Some d) \<Rightarrow>
           andthen get_state (\<lambda>s.
             andthen (expr_resolve_variable_expressions (env_create_from_string E) (var_expr_type E)
                 (expr_clone (var_expr_type E s) d)) (\<lambda>(ok, failed_ref, def_value).
               if \<not> ok then ret ()
               else andthen (expr_typecheck_expression def_value) (\<lambda>(ok, error_expr, def_value).
                 if \<not> ok then ret ()
                 else andthen (get_var v) (\<lambda>var. put_var v (var\<lparr>var_def_value := Some def_value\<rparr>)))))
       | _ \<Rightarrow> ret ())"

definition var_get_default_value :: "('x, 'd, 'z) env \<Rightarrow> var_id \<Rightarrow> (('x, 'd, 'z) st, expr_t option) action" where
  "var_get_default_value E v =
     andthen (var_compute_default_value E v) (\<lambda>_. andthen (get_var v) (\<lambda>var. ret (var_def_value var)))"

definition var_has_valid_default_value :: "('x, 'd, 'z) env \<Rightarrow> var_id \<Rightarrow> (('x, 'd, 'z) st, bool) action" where
  "var_has_valid_default_value E v =
     andthen (var_compute_default_value E v) (\<lambda>_. andthen (get_var v) (\<lambda>var.
       ret (prop_def_value (var_props var) = None \<or> var_def_value var \<noteq> None)))"

section \<open>Names of instances\<close>

definition VAR_PLACEHOLDER :: char where "VAR_PLACEHOLDER = CHR ''%''"

text \<open>The loop of \<open>var_instance_to_string\<close> over the placeholders of the name.\<close>

function instance_name :: "c_string \<Rightarrow> u32 list \<Rightarrow> c_string" where
  "instance_name p is =
     (case strchr p VAR_PLACEHOLDER of
        None \<Rightarrow> p
      | Some (q, rest) \<Rightarrow>
          (case is of
             i # is' \<Rightarrow> q @ nat_to_dec (unat (i + 1)) @ instance_name rest is'
           | [] \<Rightarrow> q @ [VAR_PLACEHOLDER] @ instance_name rest []))"
  by pat_completeness auto
termination
  by (relation "measure (\<lambda>(p, is). length p)") (auto dest: strchr_length)

declare instance_name.simps [simp del]

definition var_instance_to_string :: "var_instance_t \<Rightarrow> (('x, 'd, 'z) st, c_string) action" where
  "var_instance_to_string inst =
     andthen (get_var (inst_var inst)) (\<lambda>var. ret (instance_name (var_name var) (indices inst)))"

text \<open>
  The loop of \<open>var_instance_create_from_string\<close>: behind every underscore that is followed by a digit, the
  digits are taken as an index and replaced by a placeholder. An index is \<open>atoi - 1\<close> in unsigned arithmetic.
\<close>

function split_indices :: "c_string \<Rightarrow> c_string \<times> u32 list" where
  "split_indices q =
     (case strchr q (CHR ''_'') of
        None \<Rightarrow> (q, [])
      | Some (p, rest) \<Rightarrow>
          (if rest \<noteq> [] \<and> isdigit (hd rest) then
             (let (n, is) = split_indices (dropWhile isdigit rest)
              in (p @ ''_'' @ [VAR_PLACEHOLDER] @ n, (atoi rest - 1) # is))
           else (let (n, is) = split_indices rest in (p @ ''_'' @ n, is))))"
  by pat_completeness auto
termination
proof (relation "measure length")
  fix q p rest :: c_string and x
  assume "strchr q (CHR ''_'') = Some x" "(p, rest) = x" "rest \<noteq> [] \<and> isdigit (hd rest)"
  then have "length rest < length q" by (auto dest: strchr_length)
  then show "(dropWhile isdigit rest, q) \<in> measure length"
    using length_dropWhile_le [of isdigit rest] by simp
qed (auto dest: strchr_length)

declare split_indices.simps [simp del]

definition var_instance_create_from_string ::
  "(scope_id \<Rightarrow> c_string \<Rightarrow> ('g, var_id option) action) \<Rightarrow> scope_id \<Rightarrow> c_string \<Rightarrow> ('g, var_instance_t option) action" where
  "var_instance_create_from_string try_get scope name =
     andthen (try_get scope name) (\<lambda>var.
       case var of
         Some v \<Rightarrow> ret (Some \<lparr>inst_var = v, indices = []\<rparr>)
       | None \<Rightarrow>
           (let (var_name, is) = split_indices name in
            andthen (try_get scope var_name) (\<lambda>var. ret (map_option (\<lambda>v. \<lparr>inst_var = v, indices = is\<rparr>) var))))"

definition plain_var :: "c_string \<Rightarrow> nat \<Rightarrow> ('x, 'd) var_t" where
  "plain_var name level =
     \<lparr>var_name = name, var_location = \<lparr>loc_file = (0, 0), loc_line = 0, loc_column = 0\<rparr>, var_template = None, var_type = 0, var_scope = 0, var_level = level, var_n = None, var_n_clients = [],
      var_slot = var_slot_init 0 level, var_priority = VAR_PRIORITY_CONFIGURATION,
      var_props = \<lparr>prop_comment = [], prop_optional = False, prop_weak = False, prop_def_value = None,
        prop_dis_value = None, prop_condition = Literal (expr_literal_create_boolean 0 True), prop_extra = None\<rparr>,
      var_condition = None, var_cond_valid = False, var_def_value = None\<rparr>"

section \<open>Instance names read back\<close>

text \<open>Names as \<open>VAR_NAME_REGEX\<close> admits them: a first component and further ones behind underscores, each a
  placeholder or a word that starts with a letter.\<close>

definition name_word :: "c_string \<Rightarrow> bool" where
  "name_word w \<longleftrightarrow> component_name w \<and> \<not> isdigit (hd w) \<and> VAR_PLACEHOLDER \<notin> set w"

definition join_name :: "c_string \<Rightarrow> c_string list \<Rightarrow> c_string" where
  "join_name h cs = h @ concat (map (\<lambda>c. CHR ''_'' # c) cs)"

definition name_levels :: "c_string list \<Rightarrow> nat" where
  "name_levels cs = length (filter (\<lambda>c. c = [VAR_PLACEHOLDER]) cs)"

definition name_components :: "c_string \<Rightarrow> c_string list \<Rightarrow> bool" where
  "name_components h cs \<longleftrightarrow> name_word h \<and> list_all (\<lambda>c. c = [VAR_PLACEHOLDER] \<or> name_word c) cs"

lemma strchr_append_other: "c \<notin> set p \<Longrightarrow> strchr (p @ q) c = map_option (\<lambda>(a, b). (p @ a, b)) (strchr q c)"
  by (induction p) (auto simp: id_def option.map_ident case_prod_eta split: option.splits)

lemma instance_name_plain: "VAR_PLACEHOLDER \<notin> set p \<Longrightarrow> instance_name (p @ q) is = p @ instance_name q is"
  by (subst (1 2) instance_name.simps)
     (auto simp: strchr_append_other split: option.splits list.splits)

lemma instance_name_placeholder:
  "instance_name (VAR_PLACEHOLDER # q) (i # is) = nat_to_dec (unat (i + 1)) @ instance_name q is"
  by (subst instance_name.simps) simp

lemma instance_name_empty [simp]: "instance_name [] is = []"
  by (subst instance_name.simps) simp

lemma split_indices_word:
  assumes "CHR ''_'' \<notin> set w"
  shows "split_indices (w @ q) = (case split_indices q of (n, is) \<Rightarrow> (w @ n, is))"
  by (subst (1 2) split_indices.simps)
     (auto simp: strchr_append_other [OF assms] Let_def split: option.splits prod.splits)

lemma split_indices_empty [simp]: "split_indices [] = ([], [])"
  by (subst split_indices.simps) simp

lemma split_indices_member:
  assumes w: "w \<noteq> []" "\<not> isdigit (hd w)" "CHR ''_'' \<notin> set w"
  shows "split_indices (CHR ''_'' # w @ q) = (case split_indices q of (n, is) \<Rightarrow> (CHR ''_'' # w @ n, is))"
  using w by (subst split_indices.simps) (auto simp: split_indices_word split: prod.splits)

lemma split_indices_index:
  assumes "i \<noteq> - 1" and "q = [] \<or> hd q = CHR ''_''"
  shows "split_indices (CHR ''_'' # nat_to_dec (unat (i + 1)) @ q)
    = (case split_indices q of (n, is) \<Rightarrow> (CHR ''_'' # VAR_PLACEHOLDER # n, i # is))"
proof -
  let ?d = "nat_to_dec (unat (i + 1))"
  have d: "?d \<noteq> []" "isdigit (hd ?d)" "list_all isdigit ?d"
    using nat_to_dec_hd [of "unat (i + 1)"] nat_to_dec_digits by auto
  have q: "dropWhile isdigit q = q" using assms(2) by (cases q) (auto simp: isdigit_def)
  have "dropWhile isdigit (?d @ q) = q"
    using d(3) q by (auto simp: list_all_iff dropWhile_append3)
  moreover have "atoi (?d @ q) = i + 1"
  proof -
    have "case q of [] \<Rightarrow> True | c # _ \<Rightarrow> 10 \<le> digit_value c"
      using assms(2) by (cases q) (auto simp: digit_value_def isdigit_def islower_def isupper_def)
    moreover have "int (unat (i + 1)) \<le> long_max"
      using unsigned_less [of "i + 1", where ?'a = int] by (simp add: long_max_def)
    ultimately show ?thesis by (simp add: atoi_def strtol_nat_to_dec)
  qed
  ultimately show ?thesis
    using d by (subst split_indices.simps) (simp add: hd_append split: prod.splits)
qed

lemma placeholder_not_underscore [simp]: "VAR_PLACEHOLDER \<noteq> CHR ''_''" "CHR ''_'' \<noteq> VAR_PLACEHOLDER"
  by (simp_all add: VAR_PLACEHOLDER_def)

lemma instance_name_members_head:
  "instance_name (concat (map (\<lambda>c. CHR ''_'' # c) cs)) is = []
   \<or> hd (instance_name (concat (map (\<lambda>c. CHR ''_'' # c) cs)) is) = CHR ''_''"
  using instance_name_plain [of "''_''" "hd cs @ concat (map (\<lambda>c. CHR ''_'' # c) (tl cs))" "is"]
  by (cases cs) simp_all

lemma split_instance_members:
  "list_all (\<lambda>c. c = [VAR_PLACEHOLDER] \<or> name_word c) cs \<Longrightarrow> length is = name_levels cs \<Longrightarrow> - 1 \<notin> set is \<Longrightarrow>
   split_indices (instance_name (concat (map (\<lambda>c. CHR ''_'' # c) cs)) is) = (concat (map (\<lambda>c. CHR ''_'' # c) cs), is)"
proof (induction cs arbitrary: "is")
  case (Cons c cs)
  let ?rest = "concat (map (\<lambda>c. CHR ''_'' # c) cs)"
  have us: "instance_name (CHR ''_'' # q) js = CHR ''_'' # instance_name q js" for q js
    using instance_name_plain [of "''_''" q js] by simp
  show ?case
  proof (cases "c = [VAR_PLACEHOLDER]")
    case True
    then obtain i js where js: "is = i # js" "length js = name_levels cs" "i \<noteq> - 1" "- 1 \<notin> set js"
      using Cons.prems by (cases "is") (auto simp: name_levels_def)
    then show ?thesis
      using Cons True split_indices_index [OF js(3) instance_name_members_head]
      by (simp add: us instance_name_placeholder)
  next
    case False
    then have c: "name_word c" using Cons.prems by simp
    then have "instance_name (c @ ?rest) is = c @ instance_name ?rest is"
      by (intro instance_name_plain) (simp add: name_word_def)
    then show ?thesis
      using Cons False c by (simp add: us name_levels_def split_indices_member name_word_def component_name_def)
  qed
qed (simp add: name_levels_def)

lemma split_instance_name:
  assumes "name_components h cs" and "length is = name_levels cs" and "- 1 \<notin> set is"
  shows "split_indices (instance_name (join_name h cs) is) = (join_name h cs, is)"
proof -
  have h: "VAR_PLACEHOLDER \<notin> set h" "CHR ''_'' \<notin> set h"
    and cs: "list_all (\<lambda>c. c = [VAR_PLACEHOLDER] \<or> name_word c) cs"
    using assms(1) by (auto simp: name_components_def name_word_def component_name_def)
  show ?thesis
    unfolding join_name_def instance_name_plain [OF h(1)] split_indices_word [OF h(2)]
    by (simp add: split_instance_members [OF cs assms(2,3)])
qed

lemma split_variable_name: "name_components h cs \<Longrightarrow> split_indices (join_name h cs) = (join_name h cs, [])"
proof -
  assume h: "name_components h cs"
  then have "split_indices (concat (map (\<lambda>c. CHR ''_'' # c) cs)) = (concat (map (\<lambda>c. CHR ''_'' # c) cs), [])"
  proof (induction cs)
    case (Cons c cs)
    have "c \<noteq> []" "\<not> isdigit (hd c)" "CHR ''_'' \<notin> set c" and h: "name_components h cs"
      using Cons.prems by (auto simp: name_components_def name_word_def component_name_def VAR_PLACEHOLDER_def isdigit_def)
    then show ?case using Cons.IH by (simp add: split_indices_member)
  qed simp
  then show ?thesis
    using h by (simp add: join_name_def name_components_def name_word_def component_name_def split_indices_word)
qed

text \<open>The printed name of an instance reads back to the instance if the name of the variable is found and the printed one,
  which is looked up first, is not.\<close>

lemma instance_name_reads:
  assumes "name_components h cs" and "length is = name_levels cs" and "- 1 \<notin> set is"
    and "try_get scope (join_name h cs) s = Done (Some v) s"
    and "is \<noteq> [] \<Longrightarrow> try_get scope (instance_name (join_name h cs) is) s = Done None s"
  shows "var_instance_create_from_string try_get scope (instance_name (join_name h cs) is) s
    = Done (Some \<lparr>inst_var = v, indices = is\<rparr>) s"
proof (cases "is = []")
  case True
  have "split_indices (instance_name (join_name h cs) []) = (join_name h cs, [])"
    using split_instance_name [OF assms(1,2,3)] True by simp
  moreover have "name_levels cs = 0" using assms(2) True by simp
  then have "VAR_PLACEHOLDER \<notin> set (join_name h cs)"
    using assms(1) by (auto simp: name_levels_def filter_empty_conv join_name_def name_components_def name_word_def list_all_iff)
  then have "instance_name (join_name h cs) [] = join_name h cs"
    using instance_name_plain [of "join_name h cs" "[]" "[]"] by simp
  ultimately show ?thesis using assms(4) True by (simp add: var_instance_create_from_string_def andthen_def)
next
  case False
  then show ?thesis
    using assms(4,5) split_instance_name [OF assms(1-3)] by (simp add: var_instance_create_from_string_def andthen_def)
qed

end
