(* ===== verification/Var_Condition.thy ===== *)
theory Var_Condition
  imports Var_Store
begin

text \<open>
  What the conditions mean that \<open>var_compute_condition\<close> of \<open>var/core.c\<close> builds: a condition is always a
  checked boolean expression, and the condition of an implicitly created array bound holds exactly if the
  condition of one of its arrays does.
\<close>

section \<open>Checked conditions\<close>

definition checked_condition :: "(var_id \<Rightarrow> expr_type) \<Rightarrow> expr_t \<Rightarrow> bool" where
  "checked_condition ty c \<longleftrightarrow>
     all_resolved c \<and> variables_typed ty c \<and> has_type c EXPR_TYPE_BOOLEAN \<and> annotate c = c"

lemma typed_resolved_types_ok: "has_type e t \<Longrightarrow> all_resolved e \<Longrightarrow> variable_types_ok e"
  by (induction e arbitrary: t) (auto split: expr_variable_state_t.splits)

lemma erase_types_resolved [simp]: "all_resolved (erase_types e) = all_resolved e"
  by (induction e) auto

lemma erase_types_has_type [simp]: "has_type (erase_types e) t \<longleftrightarrow> has_type e t"
  by (induction e arbitrary: t) auto

lemma erase_types_annotate [simp]: "annotate (erase_types e) = annotate e"
  by (induction e) auto

lemma checked_types_ok: "checked_condition ty c \<Longrightarrow> variable_types_ok c"
  by (auto simp: checked_condition_def intro: typed_resolved_types_ok)

lemma checked_clone:
  assumes "checked_condition ty c"
  shows "all_resolved (expr_clone ty c)" "has_type (expr_clone ty c) EXPR_TYPE_BOOLEAN" "annotate (expr_clone ty c) = c"
  using assms by (simp_all add: checked_condition_def expr_clone_erase_types)

lemma bool_expr_types_ok [simp]: "variable_types_ok (bool_expr E b)"
  by (simp add: bool_expr_def)

lemma bool_expr_checked [simp]: "checked_condition ty (bool_expr E b)"
  by (simp add: checked_condition_def bool_expr_def expr_literal_create_boolean_def lit_type_def)

lemma bool_expr_erase: "erase_scopes c = erase_scopes (bool_expr E b) \<longleftrightarrow> (\<exists>sc. c = Literal \<lparr>lit_scope = sc, lit_value = Bool_value b\<rparr>)"
proof (cases c)
  case (Literal l)
  then show ?thesis by (cases l) (simp add: bool_expr_def expr_literal_create_boolean_def)
qed (simp_all add: bool_expr_def)

lemma check_condition_accepts:
  assumes "all_resolved c" and "has_type c EXPR_TYPE_BOOLEAN"
  shows "check_condition E c s = Done (True, annotate c) s"
  using assms
  by (simp add: check_condition_def expr_resolve_variable_expressions_def expr_typecheck_expression_def
      rf_accept_resolved tc_accept_ok annotate_type andthen_def)

section \<open>Joining the conditions of the arrays\<close>

definition holds_in :: "'g expr_env \<Rightarrow> expr_eval_context_t option \<Rightarrow> 'g \<Rightarrow> expr_t \<Rightarrow> bool \<Rightarrow> bool" where
  "holds_in X ctx t c b \<longleftrightarrow> (\<exists>l. expr_evaluate X ctx c t = Done l t
     \<and> (lit_type l = EXPR_TYPE_BOOLEAN \<or> lit_type l = EXPR_TYPE_ERROR) \<and> (lit_value l = Bool_value True \<longleftrightarrow> b))"

lemma holds_in_join_step:
  assumes "holds_in X ctx t (annotate r) a" and "holds_in X ctx t (annotate e) b"
  shows "holds_in X ctx t (annotate (expr_logical_or_create g (expr_tobool_create g r) e)) (a \<or> b)"
proof -
  obtain l where l: "expr_evaluate X ctx (annotate r) t = Done l t"
    "lit_type l = EXPR_TYPE_BOOLEAN \<or> lit_type l = EXPR_TYPE_ERROR" "lit_value l = Bool_value True \<longleftrightarrow> a"
    using assms(1) by (auto simp: holds_in_def)
  obtain m where m: "expr_evaluate X ctx (annotate e) t = Done m t"
    "lit_type m = EXPR_TYPE_BOOLEAN \<or> lit_type m = EXPR_TYPE_ERROR" "lit_value m = Bool_value True \<longleftrightarrow> b"
    using assms(2) by (auto simp: holds_in_def)
  show ?thesis
    unfolding holds_in_def
    using l m
    by (cases "lit_value l"; cases "lit_value m")
       (auto simp: expr_logical_or_create_def expr_tobool_create_def checked_evaluate_def expr_logical_or_evaluate_def
         expr_tobool_evaluate_def expr_get_boolean_value_cases andthen_def lit_type_def expr_literal_create_boolean_def
         expr_literal_create_error_def expr_is_assignable_to_def)
qed

lemma join_conditions_step:
  assumes "all_resolved r" and "has_type r EXPR_TYPE_BOOLEAN" and "holds_in X ctx t (annotate r) a"
    and "\<forall>c \<in> set es. checked_condition ty c \<and> holds_in X ctx t c (truth c)"
  shows "let j = foldl (\<lambda>result expr. expr_logical_or_create g (expr_tobool_create g result) (expr_clone ty expr)) r es
    in all_resolved j \<and> has_type j EXPR_TYPE_BOOLEAN \<and> holds_in X ctx t (annotate j) (a \<or> (\<exists>c \<in> set es. truth c))"
  using assms
proof (induction es arbitrary: r a)
  case (Cons e es)
  let ?r = "expr_logical_or_create g (expr_tobool_create g r) (expr_clone ty e)"
  have e: "checked_condition ty e" "holds_in X ctx t e (truth e)" using Cons.prems by simp_all
  have "all_resolved ?r" "has_type ?r EXPR_TYPE_BOOLEAN"
    using Cons.prems checked_clone [OF e(1)]
    by (auto simp: expr_logical_or_create_def expr_tobool_create_def expr_is_assignable_to_def)
  moreover have "holds_in X ctx t (annotate ?r) (a \<or> truth e)"
    using holds_in_join_step [OF Cons.prems(3), of "expr_clone ty e"] checked_clone [OF e(1)] e(2) by simp
  ultimately show ?case
    using Cons.IH [of ?r "a \<or> truth e"] Cons.prems by (simp add: disj_assoc)
qed simp

lemma join_conditions_holds:
  assumes "\<forall>c \<in> set (e # es). checked_condition ty c \<and> holds_in X ctx t c (truth c)"
  shows "all_resolved (join_conditions E ty e es) \<and> has_type (join_conditions E ty e es) EXPR_TYPE_BOOLEAN
    \<and> holds_in X ctx t (annotate (join_conditions E ty e es)) (\<exists>c \<in> set (e # es). truth c)"
  using join_conditions_step [of "expr_clone ty e" X ctx t "truth e" es ty truth "env_global_scope E"]
    checked_clone [of ty e] assms
  by (simp add: join_conditions_def Let_def)

section \<open>Collecting the conditions of the arrays\<close>

lemma find_equal_spec:
  "variable_types_ok c \<Longrightarrow> \<forall>e \<in> set es. variable_types_ok e \<Longrightarrow>
   find_equal c es s = Done (\<exists>e \<in> set es. erase_scopes c = erase_scopes e) s"
  by (induction es) (auto simp: expr_equal_erase andthen_def)

definition collected :: "('x, 'd, 'z) env \<Rightarrow> (var_id \<Rightarrow> expr_t) \<Rightarrow> var_id list \<Rightarrow> expr_t list \<Rightarrow> bool \<Rightarrow> expr_t list \<Rightarrow> bool" where
  "collected E cond cs acc found out \<longleftrightarrow>
     set acc \<subseteq> set out \<and> set out \<subseteq> set acc \<union> cond ` set cs
     \<and> (if found then \<exists>c \<in> set cs. erase_scopes (cond c) = erase_scopes (bool_expr E True)
        else \<forall>c \<in> set cs. erase_scopes (cond c) = erase_scopes (bool_expr E False)
               \<or> (\<exists>e \<in> set out. erase_scopes (cond c) = erase_scopes e))"

lemma collect_conditions_spec:
  assumes "\<forall>c \<in> set cs. env_get_condition E c s = Done (cond c) s \<and> variable_types_ok (cond c)"
    and "\<forall>e \<in> set acc. variable_types_ok e"
  shows "\<exists>found out. collect_conditions E acc cs s = Done (found, out) s \<and> collected E cond cs acc found out"
  using assms
proof (induction cs arbitrary: acc)
  case (Cons c cs)
  let ?c = "cond c"
  have c: "env_get_condition E c s = Done ?c s" "variable_types_ok ?c" using Cons.prems by simp_all
  have acc: "find_equal ?c acc s = Done (\<exists>e \<in> set acc. erase_scopes ?c = erase_scopes e) s"
    using find_equal_spec [OF c(2) Cons.prems(2)] .
  consider (yes) "erase_scopes ?c = erase_scopes (bool_expr E True)"
    | (no) "erase_scopes ?c \<noteq> erase_scopes (bool_expr E True)" "erase_scopes ?c = erase_scopes (bool_expr E False)"
    | (old) e where "erase_scopes ?c \<noteq> erase_scopes (bool_expr E True)"
        "erase_scopes ?c \<noteq> erase_scopes (bool_expr E False)" "e \<in> set acc" "erase_scopes ?c = erase_scopes e"
    | (new) "erase_scopes ?c \<noteq> erase_scopes (bool_expr E True)"
        "erase_scopes ?c \<noteq> erase_scopes (bool_expr E False)" "\<forall>e \<in> set acc. erase_scopes ?c \<noteq> erase_scopes e"
    by blast
  then show ?case
  proof cases
    case yes
    then have "collect_conditions E acc (c # cs) s = Done (True, acc) s"
      using c by (simp add: expr_equal_erase andthen_def)
    then show ?thesis using yes by (auto simp: collected_def)
  next
    case no
    then have "collect_conditions E acc (c # cs) s = collect_conditions E acc cs s"
      using c by (simp add: expr_equal_erase andthen_def)
    moreover obtain f out where "collect_conditions E acc cs s = Done (f, out) s" "collected E cond cs acc f out"
      using Cons.IH [of acc] Cons.prems by auto
    ultimately show ?thesis using no by (intro exI [of _ f] exI [of _ out]) (auto simp: collected_def)
  next
    case old
    then have "collect_conditions E acc (c # cs) s = collect_conditions E acc cs s"
      using c acc by (auto simp: expr_equal_erase andthen_def)
    moreover obtain f out where "collect_conditions E acc cs s = Done (f, out) s" "collected E cond cs acc f out"
      using Cons.IH [of acc] Cons.prems by auto
    ultimately show ?thesis using old by (intro exI [of _ f] exI [of _ out]) (auto simp: collected_def)
  next
    case new
    then have "collect_conditions E acc (c # cs) s = collect_conditions E (acc @ [?c]) cs s"
      using c acc by (auto simp: expr_equal_erase andthen_def)
    moreover obtain f out where "collect_conditions E (acc @ [?c]) cs s = Done (f, out) s"
        "collected E cond cs (acc @ [?c]) f out"
      using Cons.IH [of "acc @ [?c]"] Cons.prems c(2) by auto
    ultimately show ?thesis by (intro exI [of _ f] exI [of _ out]) (auto simp: collected_def)
  qed
qed (auto simp: collected_def)

section \<open>Properties\<close>

lemma holds_in_literal: "holds_in X ctx t (Literal \<lparr>lit_scope = sc, lit_value = Bool_value b\<rparr>) a \<longleftrightarrow> a = b"
  by (auto simp: holds_in_def checked_evaluate_def expr_literal_evaluate_def andthen_def lit_type_def
      expr_literal_create_boolean_def expr_is_assignable_to_def)

lemma holds_in_bool_expr: "holds_in X ctx t (bool_expr E b) a \<longleftrightarrow> a = b"
  by (simp add: bool_expr_def expr_literal_create_boolean_def holds_in_literal)

text \<open>The expression an array bound gets, before it is checked.\<close>

lemma bound_condition_expression:
  assumes props: "prop_condition (var_props var) = bool_expr E True" and clients: "var_n_clients var \<noteq> []"
    and conds: "\<forall>c \<in> set (var_n_clients var). env_get_condition E c s = Done (cond c) s
      \<and> checked_condition (var_expr_type E s) (cond c) \<and> holds_in X ctx t (cond c) (truth (cond c))"
    and eq: "\<forall>c \<in> set (var_n_clients var). \<forall>d \<in> set (var_n_clients var).
      erase_scopes (cond c) = erase_scopes (cond d) \<longrightarrow> truth (cond c) = truth (cond d)"
  shows "\<exists>e. condition_expression E var s = Done e s \<and> all_resolved e \<and> has_type e EXPR_TYPE_BOOLEAN
    \<and> holds_in X ctx t (annotate e) (\<exists>c \<in> set (var_n_clients var). truth (cond c))"
proof -
  let ?cs = "var_n_clients var" and ?ty = "var_expr_type E s"
  have differ: "erase_scopes (bool_expr E True) \<noteq> erase_scopes (bool_expr E False)"
    by (simp add: bool_expr_def expr_literal_create_boolean_def)
  obtain found out where co: "collect_conditions E [] ?cs s = Done (found, out) s" "collected E cond ?cs [] found out"
    using collect_conditions_spec [of ?cs E s cond "[]"] conds checked_types_ok [of ?ty] by fastforce
  have literal: "truth (cond c) = b" if "c \<in> set ?cs" "erase_scopes (cond c) = erase_scopes (bool_expr E b)" for c b
    using that conds bool_expr_erase [of "cond c" E b] holds_in_literal by metis
  have clone: "expr_clone ty (bool_expr E b) = bool_expr E b" for ty b
    by (simp add: bool_expr_def)
  have bool: "all_resolved (bool_expr E b)" "has_type (bool_expr E b) EXPR_TYPE_BOOLEAN"
    "annotate (bool_expr E b) = bool_expr E b" for b
    using bool_expr_checked [of ?ty E b] by (simp_all add: checked_condition_def)
  have out: "set out \<subseteq> cond ` set ?cs" using co(2) by (auto simp: collected_def)
  show ?thesis
  proof (cases found)
    case True
    then have "\<exists>c \<in> set ?cs. truth (cond c)" using co(2) literal by (auto simp: collected_def)
    moreover have "condition_expression E var s = Done (bool_expr E True) s"
      using True co(1) props clients differ
      by (simp add: condition_expression_def expr_equal_erase andthen_def clone Let_def)
    ultimately show ?thesis
      using bool [of True] by (intro exI [of _ "bool_expr E True"]) (simp add: holds_in_bool_expr)
  next
    case False
    have kept: "\<exists>e \<in> set out. truth e" if c: "c \<in> set ?cs" "truth (cond c)" for c
    proof -
      have "erase_scopes (cond c) \<noteq> erase_scopes (bool_expr E False)" using literal [OF c(1), of False] c(2) by blast
      then obtain e where e: "e \<in> set out" "erase_scopes (cond c) = erase_scopes e"
        using co(2) False c(1) by (auto simp: collected_def)
      then obtain d where d: "d \<in> set ?cs" "e = cond d" using out by blast
      then have "truth e" using eq c e(2) by blast
      then show ?thesis using e(1) by blast
    qed
    have all: "(\<exists>c \<in> set ?cs. truth (cond c)) \<longleftrightarrow> (\<exists>e \<in> set out. truth e)"
      using kept out by blast
    show ?thesis
    proof (cases out)
      case Nil
      then have "condition_expression E var s = Done (bool_expr E False) s"
        using False co(1) props clients differ
        by (simp add: condition_expression_def expr_equal_erase andthen_def Let_def)
      moreover have "\<not> (\<exists>c \<in> set ?cs. truth (cond c))" using all Nil by simp
      ultimately show ?thesis
        using bool [of False] by (intro exI [of _ "bool_expr E False"]) (simp add: holds_in_bool_expr)
    next
      case (Cons e es)
      then have "condition_expression E var s = Done (join_conditions E ?ty e es) s"
        using False co(1) props clients differ
        by (simp add: condition_expression_def expr_equal_erase andthen_def Let_def)
      moreover have "\<forall>c \<in> set (e # es). checked_condition ?ty c \<and> holds_in X ctx t c (truth c)"
        using conds out Cons by auto
      note join_conditions_holds [OF this, of E]
      ultimately show ?thesis using all Cons by auto
    qed
  qed
qed

text \<open>C19: the condition computed for an array bound variable whose own condition is true holds exactly if the
  condition of one of the arrays that use it does; it is stored in the variable and marked valid.\<close>

theorem array_bound_condition:
  assumes "st_vars s v = Some var" and "var_condition var = None"
    and "prop_condition (var_props var) = bool_expr E True" and "var_n_clients var \<noteq> []"
    and "\<forall>c \<in> set (var_n_clients var). env_get_condition E c s = Done (cond c) s
      \<and> checked_condition (var_expr_type E s) (cond c) \<and> holds_in X ctx t (cond c) (truth (cond c))"
    and "\<forall>c \<in> set (var_n_clients var). \<forall>d \<in> set (var_n_clients var).
      erase_scopes (cond c) = erase_scopes (cond d) \<longrightarrow> truth (cond c) = truth (cond d)"
  shows "\<exists>c0. var_get_condition E v s
      = Done c0 (s\<lparr>st_vars := (st_vars s)(v \<mapsto> var\<lparr>var_condition := Some c0, var_cond_valid := True\<rparr>)\<rparr>)
    \<and> holds_in X ctx t c0 (\<exists>c \<in> set (var_n_clients var). truth (cond c))"
proof -
  obtain e where e: "condition_expression E var s = Done e s" "all_resolved e" "has_type e EXPR_TYPE_BOOLEAN"
    "holds_in X ctx t (annotate e) (\<exists>c \<in> set (var_n_clients var). truth (cond c))"
    using bound_condition_expression [OF assms(3-6)] by blast
  have "var_get_condition E v s
      = Done (annotate e) (s\<lparr>st_vars := (st_vars s)(v \<mapsto> var\<lparr>var_condition := Some (annotate e), var_cond_valid := True\<rparr>)\<rparr>)"
    using assms(1,2) e check_condition_accepts [OF e(2,3), of E s]
    by (simp add: var_get_condition_def var_compute_condition_def andthen_def)
  then show ?thesis using e(4) by blast
qed

definition bound_example :: "(nat, nat) var_t" where
  "bound_example = (plain_var ''NET_N'' 0)\<lparr>var_n_clients := [1, 2]\<rparr>"

definition enabled_example :: expr_t where
  "enabled_example = Logical_not EXPR_TYPE_BOOLEAN 0 (bool_expr (plain_env :: (nat, nat, unit) env) False)"

definition arrays_example :: "(nat, nat) var_store" where
  "arrays_example = \<lparr>st_vars = [0 \<mapsto> bound_example,
      1 \<mapsto> (plain_var ''NET_%_A'' 1)\<lparr>var_n := Some 0, var_condition := Some (bool_expr (plain_env :: (nat, nat, unit) env) False)\<rparr>,
      2 \<mapsto> (plain_var ''NET_%_B'' 1)\<lparr>var_n := Some 0, var_condition := Some enabled_example\<rparr>]\<rparr>"

lemma plain_env_condition [simp]: "env_get_condition plain_env v = andthen (get_var v) (\<lambda>var. deref (var_condition var))"
  by (simp add: plain_env_def)

lemma enabled_example_checked: "checked_condition ty enabled_example"
  by (simp add: enabled_example_def checked_condition_def bool_expr_def expr_literal_create_boolean_def lit_type_def
      expr_is_assignable_to_def)

lemma enabled_example_holds: "holds_in X ctx t enabled_example True"
  by (simp add: holds_in_def enabled_example_def bool_expr_def expr_literal_create_boolean_def checked_evaluate_def
      expr_logical_not_evaluate_def expr_literal_evaluate_def expr_get_boolean_value_cases andthen_def lit_type_def
      expr_is_assignable_to_def)

theorem array_bound_condition_witness:
  "\<exists>c0 s'. var_get_condition plain_env 0 arrays_example = Done c0 s'
     \<and> holds_in (expr_env.truncate plain_env) None arrays_example c0 True"
proof -
  let ?no = "bool_expr (plain_env :: (nat, nat, unit) env) False"
  let ?cond = "\<lambda>v :: var_id. if v = 1 then ?no else enabled_example"
  have v: "st_vars arrays_example 0 = Some bound_example" by (simp add: arrays_example_def)
  have fields: "var_condition bound_example = None" "prop_condition (var_props bound_example) = bool_expr plain_env True"
    "var_n_clients bound_example = [1, 2]"
    by (simp_all add: bound_example_def plain_var_def bool_expr_def plain_env_def)
  have truth: "enabled_example \<noteq> ?no" "erase_scopes enabled_example \<noteq> erase_scopes ?no"
    by (simp_all add: enabled_example_def bool_expr_def)
  have get: "\<forall>c \<in> set (var_n_clients bound_example). env_get_condition plain_env c arrays_example = Done (?cond c) arrays_example
      \<and> checked_condition (var_expr_type plain_env arrays_example) (?cond c)
      \<and> holds_in (expr_env.truncate plain_env) None arrays_example (?cond c) (?cond c \<noteq> ?no)"
    using truth(1) enabled_example_checked enabled_example_holds
    by (simp add: fields(3) andthen_def holds_in_bool_expr) (simp add: arrays_example_def)
  have eq: "\<forall>c \<in> set (var_n_clients bound_example). \<forall>d \<in> set (var_n_clients bound_example).
      erase_scopes (?cond c) = erase_scopes (?cond d) \<longrightarrow> (?cond c \<noteq> ?no) = (?cond d \<noteq> ?no)"
    using truth by (auto simp: fields(3))
  have "var_n_clients bound_example \<noteq> []" by (simp add: fields)
  from array_bound_condition [OF v fields(1,2) this get eq] truth(1) show ?thesis
    unfolding fields(3) by auto
qed

text \<open>Whatever the properties say, the condition of a variable is a boolean expression once it has been
  computed, and a condition already computed is not computed again.\<close>

lemma condition_boolean:
  assumes "st_vars s v = Some var" and "var_condition var = None" and "var_get_condition E v s = Done c s'"
  shows "expr_get_type c = EXPR_TYPE_BOOLEAN \<and> var_get_condition E v s' = Done c s'"
proof -
  obtain e s1 where e: "condition_expression E var s = Done e s1"
    using assms by (auto simp: var_get_condition_def var_compute_condition_def andthen_eq_Done_iff)
  then obtain valid c' s2 where c': "check_condition E e s1 = Done (valid, c') s2"
    using assms by (auto simp: var_get_condition_def var_compute_condition_def andthen_eq_Done_iff)
  then obtain var2 where v2: "st_vars s2 v = Some var2" "c = c'"
    "s' = s2\<lparr>st_vars := (st_vars s2)(v \<mapsto> var2\<lparr>var_condition := Some c', var_cond_valid := var_cond_valid var2 \<or> valid\<rparr>)\<rparr>"
    using assms e
    by (auto simp: var_get_condition_def var_compute_condition_def andthen_def split: option.splits)
  have "expr_get_type c' = EXPR_TYPE_BOOLEAN"
    using c' unfolding check_condition_def
    by (auto simp: andthen_eq_Done_iff bool_expr_def expr_literal_create_boolean_def lit_type_def split: if_splits prod.splits)
  then show ?thesis
    using v2 by (simp add: var_get_condition_def var_compute_condition_def andthen_def)
qed

end
