(* ===== verification/Var_Access.thy ===== *)
theory Var_Access
  imports Var_Store
begin

text \<open>
  Reading and writing the values of variables: \<open>var/slot_read.c\<close>, \<open>var/slot_write.c\<close>,
  \<open>var_slot_get_value\<close> of \<open>var/slot.c\<close>, \<open>var/slot_check.c\<close>, the value iterator of \<open>var/iter.c\<close> and
  the functions of \<open>var/wrapper.c\<close>. Messages to the log are left out, and with them the parameters that
  only choose between messages. A slot is addressed by its variable and the indices that lead to it.
\<close>

section \<open>Reading\<close>

definition get_entry :: "var_id \<Rightarrow> u32 list \<Rightarrow> (('x, 'd, 'z) st, 'x slot_entry_t) action" where
  "get_entry v is =
     andthen (get_var v) (\<lambda>var.
       case slot_at (var_slot var) is of Some (Slot_entry e) \<Rightarrow> ret e | _ \<Rightarrow> raise Invalid_access)"

definition put_entry :: "var_id \<Rightarrow> u32 list \<Rightarrow> 'x slot_entry_t \<Rightarrow> (('x, 'd, 'z) st, unit) action" where
  "put_entry v is e =
     andthen (get_var v) (\<lambda>var. put_var v (var\<lparr>var_slot := set_slot_at (var_slot var) is (Slot_entry e)\<rparr>))"

definition evaluate_in :: "('x, 'd, 'z) env \<Rightarrow> var_instance_t \<Rightarrow> expr_t \<Rightarrow> (('x, 'd, 'z) st, expr_literal_t) action" where
  "evaluate_in E inst expr = expr_evaluate (expr_env.truncate E) (Some (expr_eval_context_create\<lparr>ctx_inst := Some inst\<rparr>)) expr"

definition var_instance_is_enabled :: "('x, 'd, 'z) env \<Rightarrow> var_instance_t \<Rightarrow> (('x, 'd, 'z) st, bool) action" where
  "var_instance_is_enabled E inst =
     andthen (var_get_condition E (inst_var inst)) (\<lambda>cond.
       andthen (evaluate_in E inst cond) (\<lambda>result.
         andthen (expr_get_boolean_value result) (\<lambda>r.
           ret (case r of Inl error_msg \<Rightarrow> False | Inr enabled \<Rightarrow> enabled))))"

text \<open>An unset slot gets its default value evaluated once, unless the evaluation fails.\<close>

definition compute_slot_default :: "('x, 'd, 'z) env \<Rightarrow> var_instance_t \<Rightarrow> (('x, 'd, 'z) st, unit) action" where
  "compute_slot_default E inst =
     andthen (var_get_default_value E (inst_var inst)) (\<lambda>def_value.
       case def_value of
         None \<Rightarrow> ret ()
       | Some d \<Rightarrow>
           andthen (evaluate_in E inst d) (\<lambda>eval_result.
             andthen (expr_get_string_value eval_result) (\<lambda>r.
               case r of
                 Inl error_msg \<Rightarrow> ret ()
               | Inr str \<Rightarrow>
                   andthen (get_entry (inst_var inst) (indices inst)) (\<lambda>e.
                     put_entry (inst_var inst) (indices inst) (e\<lparr>ent_def_value := Some str\<rparr>)))))"

text \<open>The code keeps a pointer to the slot while the default value is evaluated; the model reads the entry again under its
  address. They differ if the evaluation makes the array of the slot grow, where the pointer of the code is left
  behind.\<close>

definition var_slot_get_value :: "('x, 'd, 'z) env \<Rightarrow> var_instance_t \<Rightarrow> (('x, 'd, 'z) st, 'x var_value_t) action" where
  "var_slot_get_value E inst =
     andthen (get_entry (inst_var inst) (indices inst)) (\<lambda>e.
       let result = var_value_create None VAR_VALUE_KIND_NONE (ent_extra e) (ent_priority e) in
       case ent_value e of
         Some value \<Rightarrow> ret (result\<lparr>val_value := Some value, val_kind := VAR_VALUE_KIND_NORMAL\<rparr>)
       | None \<Rightarrow>
           andthen (if ent_def_value e = None then compute_slot_default E inst else ret ()) (\<lambda>_.
             andthen (get_entry (inst_var inst) (indices inst)) (\<lambda>e.
               case ent_def_value e of
                 Some d \<Rightarrow> ret (result\<lparr>val_value := Some d, val_kind := VAR_VALUE_KIND_DEFAULT\<rparr>)
               | None \<Rightarrow> ret result)))"

text \<open>An instance of an array bound variable takes as many of the indices as it has levels; with too few of
  them the copy reads past the array of indices.\<close>

definition bound_instance :: "var_id \<Rightarrow> var_instance_t \<Rightarrow> (('x, 'd, 'z) st, var_instance_t) action" where
  "bound_instance n inst =
     andthen (get_var n) (\<lambda>var_n.
       if length (indices inst) < var_level var_n then raise Invalid_access
       else ret \<lparr>inst_var = n, indices = take (var_level var_n) (indices inst)\<rparr>)"

definition var_check_array_bounds :: "('x, 'd, 'z) env \<Rightarrow> var_instance_t \<Rightarrow> (('x, 'd, 'z) st, bool) action" where
  "var_check_array_bounds E inst =
     andthen (get_var (inst_var inst)) (\<lambda>var.
       andthen (deref (var_n var)) (\<lambda>n.
         andthen (bound_instance n inst) (\<lambda>inst_n.
           andthen (env_try_get_value E inst_n) (\<lambda>value.
             case (case value of None \<Rightarrow> Some 0 | Some v \<Rightarrow> var_value_convert_to_integer v) of
               None \<Rightarrow> ret False
             | Some bound \<Rightarrow>
                 if length (indices inst) < var_level var then raise Invalid_access
                 else ret (sint (indices inst ! (var_level var - 1)) < sint bound)))))"

definition var_instance_read_value ::
  "('x, 'd, 'z) env \<Rightarrow> var_instance_t \<Rightarrow> (('x, 'd, 'z) st, 'x var_value_t option) action" where
  "var_instance_read_value E inst =
     andthen (get_var (inst_var inst)) (\<lambda>var.
       andthen (if 0 < var_level var then var_check_array_bounds E inst else ret True) (\<lambda>within.
         if \<not> within then ret None
         else andthen (get_entry (inst_var inst) (indices inst)) (\<lambda>e.
           if ent_read_active e then ret None
           else
             andthen (put_entry (inst_var inst) (indices inst) (e\<lparr>ent_read_active := True\<rparr>)) (\<lambda>_.
             andthen (var_instance_is_enabled E inst) (\<lambda>enabled.
             andthen (var_slot_get_value E inst) (\<lambda>result.
             andthen (get_entry (inst_var inst) (indices inst)) (\<lambda>e.
             andthen (put_entry (inst_var inst) (indices inst) (e\<lparr>ent_read_active := False\<rparr>)) (\<lambda>_.
               if enabled then ret (Some result)
               else andthen (get_var (inst_var inst)) (\<lambda>var.
                 ret (Some (result\<lparr>val_kind := VAR_VALUE_KIND_DISABLED,
                                   val_value := prop_dis_value (var_props var)\<rparr>)))))))))))"

definition var_instance_do_get_value ::
  "('x, 'd, 'z) env \<Rightarrow> var_instance_t \<Rightarrow> (('x, 'd, 'z) st, 'x var_value_t option) action" where
  "var_instance_do_get_value E inst =
     andthen (get_var (inst_var inst)) (\<lambda>var.
       if length (indices inst) < var_level var then ret None
       else (case get_slot_for_reading (var_level var) (var_slot var) (indices inst) of
          None \<Rightarrow> ret None
        | Some slot \<Rightarrow>
            andthen (var_instance_read_value E inst) (\<lambda>result.
              case result of
                None \<Rightarrow> ret None
              | Some r \<Rightarrow> ret (if val_value r \<noteq> None then Some r else None))))"

definition var_instance_get_value ::
  "('x, 'd, 'z) env \<Rightarrow> var_instance_t \<Rightarrow> (('x, 'd, 'z) st, 'x var_value_t option) action" where
  "var_instance_get_value E inst = var_instance_do_get_value E inst"

definition var_instance_try_get_value ::
  "('x, 'd, 'z) env \<Rightarrow> var_instance_t \<Rightarrow> (('x, 'd, 'z) st, 'x var_value_t option) action" where
  "var_instance_try_get_value E inst = var_instance_do_get_value E inst"

section \<open>Growing arrays\<close>

text \<open>
  The loop over the levels that \<open>var_slot_expand\<close> and \<open>var_slot_get_or_create\<close> share: the array below the
  indices passed so far is resized if the next index is not below its length, and the clients are told.
\<close>

fun grow_levels :: "var_id \<Rightarrow> (nat \<Rightarrow> (('x, 'd, 'z) st, unit) action) \<Rightarrow> u32 list \<Rightarrow> u32 list \<Rightarrow> (('x, 'd, 'z) st, unit) action" where
  "grow_levels v clients passed [] = ret ()"
| "grow_levels v clients passed (i # is) =
     andthen (get_var v) (\<lambda>var.
       case slot_at (var_slot var) passed of
         Some (Slot_array slots) \<Rightarrow>
           andthen
             (if length slots \<le> unat i then
                andthen (var_slot_resize (Slot_array slots) (length passed) (var_level var) (i + 1)) (\<lambda>slot.
                  andthen (put_var v (var\<lparr>var_slot := set_slot_at (var_slot var) passed slot\<rparr>)) (\<lambda>_.
                    clients (length passed)))
              else ret ())
             (\<lambda>_. grow_levels v clients (passed @ [i]) is)
       | _ \<Rightarrow> raise Invalid_access)"

fun expand_each :: "('x, 'd, 'z) env \<Rightarrow> u32 list \<Rightarrow> var_id list \<Rightarrow> (('x, 'd, 'z) st, unit) action" where
  "expand_each E is [] = ret ()"
| "expand_each E is (c # cs) = andthen (env_slot_expand E c is) (\<lambda>_. expand_each E is cs)"

definition var_slot_expand_clients :: "('x, 'd, 'z) env \<Rightarrow> var_id \<Rightarrow> u32 list \<Rightarrow> (('x, 'd, 'z) st, unit) action" where
  "var_slot_expand_clients E v is = andthen (get_var v) (\<lambda>var. expand_each E is (var_n_clients var))"

definition var_slot_expand :: "('x, 'd, 'z) env \<Rightarrow> var_id \<Rightarrow> u32 list \<Rightarrow> (('x, 'd, 'z) st, unit) action" where
  "var_slot_expand E v is =
     andthen (get_var v) (\<lambda>var.
       grow_levels v (\<lambda>level. var_slot_expand_clients E v is) [] (take (var_level var) is))"

text \<open>The array bound variables of all levels, the one of the outermost level first.\<close>

fun bound_variables :: "nat \<Rightarrow> var_id option \<Rightarrow> var_id list \<Rightarrow> (('x, 'd, 'z) st, var_id list) action" where
  "bound_variables 0 n acc = ret acc"
| "bound_variables (Suc k) n acc =
     andthen (deref n) (\<lambda>b. andthen (get_var b) (\<lambda>bound. bound_variables k (var_n bound) (b # acc)))"

definition var_slot_get_or_create :: "('x, 'd, 'z) env \<Rightarrow> var_instance_t \<Rightarrow> (('x, 'd, 'z) st, 'x varslot_t) action" where
  "var_slot_get_or_create E inst =
     andthen (get_var (inst_var inst)) (\<lambda>var.
       andthen (bound_variables (var_level var) (var_n var) []) (\<lambda>bounds.
         andthen (grow_levels (inst_var inst)
             (\<lambda>level. var_slot_expand_clients E (bounds ! level) (take (level + 1) (indices inst)))
             [] (take (var_level var) (indices inst))) (\<lambda>_.
           andthen (get_var (inst_var inst)) (\<lambda>var.
             deref (slot_at (var_slot var) (take (var_level var) (indices inst)))))))"

section \<open>Writing\<close>

definition var_update_array_bound ::
  "('x, 'd, 'z) env \<Rightarrow> var_instance_t \<Rightarrow> var_id \<Rightarrow> u32 \<Rightarrow> (('x, 'd, 'z) st, bool) action" where
  "var_update_array_bound E inst n new_bound =
     andthen (bound_instance n inst) (\<lambda>inst_n.
       andthen (env_try_get_value E inst_n) (\<lambda>value.
         case (case value of None \<Rightarrow> Some 0 | Some v \<Rightarrow> var_value_convert_to_integer v) of
           None \<Rightarrow> ret False
         | Some old_bound \<Rightarrow>
             if sint old_bound < sint new_bound then
               andthen (env_do_set_value E inst_n (Some (int_to_dec (sint new_bound))) None
                          VAR_ACCESS_TENTATIVE VAR_PRIORITY_ARRAY_BOUND True True) (\<lambda>result.
               andthen (my_assert result) (\<lambda>_.
               andthen (env_try_get_value E inst_n) (\<lambda>value.
                 case value of
                   None \<Rightarrow> ret (new_bound = 0)
                 | Some v \<Rightarrow>
                     (case var_value_convert_to_integer v of
                        None \<Rightarrow> raise Assertion_failed
                      | Some old_bound \<Rightarrow> ret (old_bound = new_bound)))))
             else ret True))"

definition access_allowed :: "var_access_mode_t \<Rightarrow> var_priority_t \<Rightarrow> var_priority_t \<Rightarrow> bool" where
  "access_allowed mode priority slot_priority =
     (case mode of
        VAR_ACCESS_STRONG \<Rightarrow> slot_priority < priority
      | VAR_ACCESS_WEAK \<Rightarrow> slot_priority \<le> priority
      | VAR_ACCESS_TENTATIVE \<Rightarrow> slot_priority \<le> priority)"

datatype slot_access = Slot_ok | Access_failed | Access_error

definition var_instance_get_slot_for_writing ::
  "('x, 'd, 'z) env \<Rightarrow> var_instance_t \<Rightarrow> var_access_mode_t \<Rightarrow> var_priority_t \<Rightarrow> bool \<Rightarrow> (('x, 'd, 'z) st, slot_access) action" where
  "var_instance_get_slot_for_writing E inst mode priority ignore_base_priority =
     andthen (get_var (inst_var inst)) (\<lambda>var.
       if \<not> ignore_base_priority \<and> priority < var_priority var then ret Access_failed
       else if var_level var < length (indices inst) then ret Access_error
       else
         andthen
           (if indices inst \<noteq> [] then
              andthen (deref (var_n var)) (\<lambda>n.
                andthen (var_update_array_bound E inst n (last (indices inst) + 1)) (\<lambda>updated. ret ()))
            else ret ()) (\<lambda>_.
         andthen (var_slot_get_or_create E inst) (\<lambda>slot.
           ret (if access_allowed mode priority (var_slot_get_priority slot) then Slot_ok else Access_failed))))"

text \<open>The bound an array bound variable stands for; a value that is not a number counts as zero.\<close>

definition bound_of_value :: "c_string option \<Rightarrow> u32" where
  "bound_of_value value =
     (case value of
        None \<Rightarrow> 0
      | Some v \<Rightarrow> (case var_value_convert_to_integer v of Some b \<Rightarrow> b | None \<Rightarrow> 0))"

fun grow_clients :: "('x, 'd, 'z) env \<Rightarrow> u32 list \<Rightarrow> var_id list \<Rightarrow> (('x, 'd, 'z) st, unit) action" where
  "grow_clients E is [] = ret ()"
| "grow_clients E is (c # cs) =
     andthen (var_slot_get_or_create E \<lparr>inst_var = c, indices = is\<rparr>) (\<lambda>slot. grow_clients E is cs)"

definition write_value :: "('x, 'd, 'z) env \<Rightarrow> var_instance_t \<Rightarrow> c_string \<Rightarrow> (('x, 'd, 'z) st, unit) action" where
  "write_value E inst value =
     andthen (get_var (inst_var inst)) (\<lambda>var.
     andthen (get_entry (inst_var inst) (indices inst)) (\<lambda>e.
     andthen (put_entry (inst_var inst) (indices inst) (e\<lparr>ent_value := Some value\<rparr>)) (\<lambda>_.
       if var_n_clients var \<noteq> [] \<and> sint (bound_of_value (ent_value e)) < sint (bound_of_value (Some value))
       then grow_clients E (indices inst @ [bound_of_value (Some value) - 1]) (var_n_clients var)
       else ret ())))"

definition var_instance_do_set_value ::
  "('x, 'd, 'z) env \<Rightarrow> var_instance_t \<Rightarrow> c_string option \<Rightarrow> 'x option \<Rightarrow> var_access_mode_t \<Rightarrow> var_priority_t \<Rightarrow>
   bool \<Rightarrow> bool \<Rightarrow> (('x, 'd, 'z) st, bool) action" where
  "var_instance_do_set_value E inst value extra mode priority check ignore_base_priority =
     andthen (get_var (inst_var inst)) (\<lambda>var.
       if length (indices inst) < var_level var then ret False
       else andthen (var_instance_get_slot_for_writing E inst mode priority ignore_base_priority) (\<lambda>access.
         case access of
           Access_error \<Rightarrow> ret False
         | Access_failed \<Rightarrow> ret (mode = VAR_ACCESS_TENTATIVE)
         | Slot_ok \<Rightarrow>
             andthen (if check then andthen (deref value) (env_vartype_match E (var_type var)) else ret True) (\<lambda>ok.
               if \<not> ok then ret False
               else
                 andthen (case value of Some v \<Rightarrow> write_value E inst v | None \<Rightarrow> ret ()) (\<lambda>_.
                 andthen (get_entry (inst_var inst) (indices inst)) (\<lambda>e.
                 andthen (put_entry (inst_var inst) (indices inst)
                     (e\<lparr>ent_extra := (case extra of Some x \<Rightarrow> Some x | None \<Rightarrow> ent_extra e), ent_priority := priority\<rparr>)) (\<lambda>_.
                   ret True))))))"

definition var_instance_set_and_check_value ::
  "('x, 'd, 'z) env \<Rightarrow> var_instance_t \<Rightarrow> c_string option \<Rightarrow> 'x option \<Rightarrow> var_access_mode_t \<Rightarrow> var_priority_t \<Rightarrow>
   (('x, 'd, 'z) st, bool) action" where
  "var_instance_set_and_check_value E inst value extra mode priority =
     (if value = None then ret False
      else var_instance_do_set_value E inst value extra mode priority True False)"

definition var_instance_set_value ::
  "('x, 'd, 'z) env \<Rightarrow> var_instance_t \<Rightarrow> c_string option \<Rightarrow> 'x option \<Rightarrow> var_access_mode_t \<Rightarrow> var_priority_t \<Rightarrow>
   (('x, 'd, 'z) st, bool) action" where
  "var_instance_set_value E inst value extra mode priority =
     (if value = None \<and> extra = None then ret True
      else var_instance_do_set_value E inst value extra mode priority False False)"

text \<open>Clearing walks from the innermost bound variable to the bound of the cleared level.\<close>

fun outer_bound :: "nat \<Rightarrow> var_id \<Rightarrow> (('x, 'd, 'z) st, var_id) action" where
  "outer_bound 0 n = ret n"
| "outer_bound (Suc k) n = andthen (get_var n) (\<lambda>b. andthen (deref (var_n b)) (\<lambda>m. outer_bound k m))"

definition var_instance_clear ::
  "('x, 'd, 'z) env \<Rightarrow> var_instance_t \<Rightarrow> var_access_mode_t \<Rightarrow> var_priority_t \<Rightarrow> (('x, 'd, 'z) st, bool) action" where
  "var_instance_clear E inst mode priority =
     andthen (get_var (inst_var inst)) (\<lambda>var.
       if length (indices inst) = var_level var then ret False
       else andthen (var_instance_get_slot_for_writing E inst mode priority False) (\<lambda>access.
         case access of
           Access_error \<Rightarrow> ret False
         | Access_failed \<Rightarrow> ret (mode = VAR_ACCESS_TENTATIVE)
         | Slot_ok \<Rightarrow>
             andthen (get_var (inst_var inst)) (\<lambda>var.
             andthen (deref (slot_at (var_slot var) (indices inst))) (\<lambda>slot.
             andthen (deref (var_slot_destroy slot (length (indices inst)) (var_level var))) (\<lambda>slot.
             andthen (put_var (inst_var inst) (var\<lparr>var_slot := set_slot_at (var_slot var) (indices inst) slot\<rparr>)) (\<lambda>_.
             andthen (deref (var_n var)) (\<lambda>n.
             andthen (outer_bound (var_level var - (length (indices inst) + 1)) n) (\<lambda>n.
             andthen (env_do_set_value E \<lparr>inst_var = n, indices = indices inst\<rparr> (Some ''0'') None
                 VAR_ACCESS_TENTATIVE VAR_PRIORITY_ARRAY_BOUND True True) (\<lambda>result.
             andthen (my_assert result) (\<lambda>_. ret True))))))))))"

section \<open>Iterating over values and checking them\<close>

text \<open>
  The value iterator: the instance whose indices are set, the frames of the slot iterator (none if the
  instance it was created from does not address a slot), the value read last. The fuel bounds the number of
  entries passed over in one call.
\<close>

record 'x var_value_iterator_t =
  vit_inst :: var_instance_t
  vit_prefix :: "u32 list"
  vit_iter :: "'x varslot_iterator_t list option"
  vit_last :: "'x var_value_t option"
  vit_all :: bool

definition var_value_iterator_create ::
  "var_instance_t \<Rightarrow> bool \<Rightarrow> (('x, 'd, 'z) st, 'x var_value_iterator_t) action" where
  "var_value_iterator_create inst all =
     andthen (get_var (inst_var inst)) (\<lambda>var.
       case get_slot_for_reading (var_level var) (var_slot var) (indices inst) of
         Some slot \<Rightarrow>
           ret \<lparr>vit_inst = \<lparr>inst_var = inst_var inst,
                  indices = indices inst @ replicate (var_level var - length (indices inst)) 0\<rparr>,
                vit_prefix = indices inst,
                vit_iter = Some (var_slot_iterator_create slot (length (indices inst))),
                vit_last = None, vit_all = all\<rparr>
       | None \<Rightarrow>
           ret \<lparr>vit_inst = \<lparr>inst_var = inst_var inst, indices = replicate (var_level var) 0\<rparr>,
                vit_prefix = [], vit_iter = None, vit_last = None, vit_all = all\<rparr>)"

fun var_value_iterator_next ::
  "('x, 'd, 'z) env \<Rightarrow> nat \<Rightarrow> 'x var_value_iterator_t \<Rightarrow> (('x, 'd, 'z) st, bool \<times> 'x var_value_iterator_t) action" where
  "var_value_iterator_next E 0 it = raise Out_of_fuel"
| "var_value_iterator_next E (Suc fuel) it =
     (case vit_iter it of
        None \<Rightarrow> ret (False, it)
      | Some frames \<Rightarrow>
          andthen (get_var (inst_var (vit_inst it))) (\<lambda>var.
          andthen (deref (iterator_to_entry (var_level var) frames)) (\<lambda>frames.
            if iterator_at_end frames then ret (False, it\<lparr>vit_iter := Some frames, vit_last := None\<rparr>)
            else
              (let inst = (vit_inst it)\<lparr>indices := vit_prefix it @ map word_of_int (iterator_indices frames)\<rparr> in
               andthen (var_instance_read_value E inst) (\<lambda>last.
                 let it = it\<lparr>vit_inst := inst, vit_iter := Some frames, vit_last := last\<rparr> in
                 case last of
                   None \<Rightarrow> var_value_iterator_next E fuel it
                 | Some value \<Rightarrow>
                     if \<not> vit_all it \<and> val_value value = None then var_value_iterator_next E fuel it
                     else ret (True, it))))))"

definition var_check_value :: "('x, 'd, 'z) env \<Rightarrow> 'x var_value_t \<Rightarrow> var_instance_t \<Rightarrow> (('x, 'd, 'z) st, bool) action" where
  "var_check_value E value inst =
     andthen (get_var (inst_var inst)) (\<lambda>var.
       case val_value value of
         None \<Rightarrow>
           (if val_kind value = VAR_VALUE_KIND_DISABLED then ret True
            else if \<not> prop_optional (var_props var) then ret False
            else ret True)
       | Some v \<Rightarrow> env_vartype_match E (var_type var) v)"

fun check_loop :: "('x, 'd, 'z) env \<Rightarrow> nat \<Rightarrow> 'x var_value_iterator_t \<Rightarrow> bool \<Rightarrow> (('x, 'd, 'z) st, bool) action" where
  "check_loop E 0 it result = raise Out_of_fuel"
| "check_loop E (Suc fuel) it result =
     andthen (var_value_iterator_next E (Suc fuel) it) (\<lambda>(more, it).
       if \<not> more then ret result
       else (case vit_last it of
          None \<Rightarrow> raise Invalid_access
        | Some value \<Rightarrow>
            andthen (var_check_value E value (vit_inst it)) (\<lambda>ok. check_loop E fuel it (result \<and> ok))))"

definition var_check_variable :: "('x, 'd, 'z) env \<Rightarrow> nat \<Rightarrow> var_id \<Rightarrow> (('x, 'd, 'z) st, bool) action" where
  "var_check_variable E fuel v =
     andthen (var_value_iterator_create \<lparr>inst_var = v, indices = []\<rparr> True) (\<lambda>it. check_loop E fuel it True)"

section \<open>Access by name\<close>

definition var_read :: "('x, 'd, 'z) env \<Rightarrow> c_string \<Rightarrow> (('x, 'd, 'z) st, c_string option) action" where
  "var_read E name =
     andthen (env_create_from_string E (env_global_scope E) name) (\<lambda>inst.
       case inst of
         None \<Rightarrow> ret None
       | Some i \<Rightarrow> andthen (var_instance_get_value E i) (\<lambda>value. ret (Option.bind value val_value)))"

definition var_try_read :: "('x, 'd, 'z) env \<Rightarrow> c_string \<Rightarrow> (('x, 'd, 'z) st, c_string option) action" where
  "var_try_read E name =
     andthen (env_create_from_string E (env_global_scope E) name) (\<lambda>inst.
       case inst of
         None \<Rightarrow> ret None
       | Some i \<Rightarrow> andthen (var_instance_try_get_value E i) (\<lambda>value. ret (Option.bind value val_value)))"

definition var_write ::
  "('x, 'd, 'z) env \<Rightarrow> c_string \<Rightarrow> c_string option \<Rightarrow> 'x option \<Rightarrow> var_access_mode_t \<Rightarrow> var_priority_t \<Rightarrow> bool \<Rightarrow>
   (('x, 'd, 'z) st, bool) action" where
  "var_write E name value extra mode priority check =
     andthen (env_create_from_string E (env_global_scope E) name) (\<lambda>inst.
       case inst of
         None \<Rightarrow> ret False
       | Some i \<Rightarrow>
           if check then var_instance_set_and_check_value E i value extra mode priority
           else var_instance_set_value E i value extra mode priority)"

section \<open>The functions calling each other\<close>

text \<open>
  The environment in which at most so many calls that lead back into the variables are nested; the other
  members, the functions of types and scopes, are those of a given environment.
\<close>

primrec var_ops :: "('x, 'd, 'z) env \<Rightarrow> nat \<Rightarrow> ('x, 'd, 'z) env" where
  "var_ops B 0 = B
     \<lparr>env_var_get_level := \<lambda>v. andthen (get_var v) (\<lambda>var. ret (var_level var)),
      env_var_get_name := \<lambda>v. andthen (get_var v) (\<lambda>var. ret (var_name var)),
      env_inst_to_string := var_instance_to_string,
      env_try_get_value := \<lambda>inst. raise Out_of_fuel,
      env_condition := \<lambda>v ctx. raise Out_of_fuel,
      env_clear := \<lambda>inst mode priority. raise Out_of_fuel,
      env_set_and_check := \<lambda>inst value mode priority. raise Out_of_fuel,
      env_get_condition := \<lambda>v. raise Out_of_fuel,
      env_slot_expand := \<lambda>v is. raise Out_of_fuel,
      env_do_set_value := \<lambda>inst value extra mode priority check ignore. raise Out_of_fuel\<rparr>"
| "var_ops B (Suc n) = B
     \<lparr>env_var_get_level := \<lambda>v. andthen (get_var v) (\<lambda>var. ret (var_level var)),
      env_var_get_name := \<lambda>v. andthen (get_var v) (\<lambda>var. ret (var_name var)),
      env_inst_to_string := var_instance_to_string,
      env_try_get_value := \<lambda>inst.
        andthen (var_instance_try_get_value (var_ops B n) inst) (\<lambda>value. ret (Option.bind value val_value)),
      env_condition := \<lambda>v ctx.
        andthen (var_get_condition (var_ops B n) v) (\<lambda>c. expr_evaluate (expr_env.truncate (var_ops B n)) ctx c),
      env_clear := \<lambda>inst mode priority. var_instance_clear (var_ops B n) inst mode priority,
      env_set_and_check := \<lambda>inst value mode priority.
        var_instance_set_and_check_value (var_ops B n) inst (Some value) None mode priority,
      env_get_condition := \<lambda>v. var_get_condition (var_ops B n) v,
      env_slot_expand := \<lambda>v is. var_slot_expand (var_ops B n) v is,
      env_do_set_value := \<lambda>inst value extra mode priority check ignore.
        var_instance_do_set_value (var_ops B n) inst value extra mode priority check ignore\<rparr>"

section \<open>Scalar variables\<close>

text \<open>A variable without levels and without arrays that use it as their bound.\<close>

definition scalar_var :: "('x, 'd) var_t \<Rightarrow> 'x slot_entry_t \<Rightarrow> bool" where
  "scalar_var var e \<longleftrightarrow> var_level var = 0 \<and> var_n_clients var = [] \<and> var_slot var = Slot_entry e"

abbreviation scalar :: "var_id \<Rightarrow> var_instance_t" where
  "scalar v \<equiv> \<lparr>inst_var = v, indices = []\<rparr>"

lemma get_entry_scalar: "st_vars s v = Some var \<Longrightarrow> var_slot var = Slot_entry e \<Longrightarrow> get_entry v [] s = Done e s"
  by (simp add: get_entry_def andthen_def)

lemma put_entry_scalar:
  "st_vars s v = Some var \<Longrightarrow>
   put_entry v [] e s = Done () (s\<lparr>st_vars := (st_vars s)(v \<mapsto> var\<lparr>var_slot := Slot_entry e\<rparr>)\<rparr>)"
  by (simp add: put_entry_def andthen_def)

lemma slot_for_writing_scalar:
  assumes "st_vars s v = Some var" and "scalar_var var e"
  shows "var_instance_get_slot_for_writing E (scalar v) mode priority ign s =
    Done (if (ign \<or> var_priority var \<le> priority) \<and> access_allowed mode priority (ent_priority e)
          then Slot_ok else Access_failed) s"
  using assms
  by (auto simp: var_instance_get_slot_for_writing_def var_slot_get_or_create_def scalar_var_def andthen_def)

lemma write_value_scalar:
  assumes "st_vars s v = Some var" and "scalar_var var e"
  shows "write_value E (scalar v) value s =
    Done () (s\<lparr>st_vars := (st_vars s)(v \<mapsto> var\<lparr>var_slot := Slot_entry (e\<lparr>ent_value := Some value\<rparr>)\<rparr>)\<rparr>)"
  using assms
  by (simp add: write_value_def scalar_var_def andthen_def get_entry_scalar put_entry_scalar)

lemma do_set_value_scalar:
  assumes v: "st_vars s v = Some var" and sc: "scalar_var var e"
    and match: "check \<Longrightarrow> env_vartype_match E (var_type var) value s = Done ok s"
  shows "var_instance_do_set_value E (scalar v) (Some value) extra mode priority check ign s =
    (if \<not> (ign \<or> var_priority var \<le> priority) \<or> \<not> access_allowed mode priority (ent_priority e)
     then Done (mode = VAR_ACCESS_TENTATIVE) s
     else if check \<and> \<not> ok then Done False s
     else Done True (s\<lparr>st_vars := (st_vars s)(v \<mapsto> var\<lparr>var_slot := Slot_entry (e\<lparr>ent_value := Some value,
        ent_extra := (case extra of Some x \<Rightarrow> Some x | None \<Rightarrow> ent_extra e), ent_priority := priority\<rparr>)\<rparr>)\<rparr>))"
proof -
  have level: "var_level var = 0" using sc by (simp add: scalar_var_def)
  note slot_facts = slot_for_writing_scalar [OF v sc, of E mode priority ign]
  note wr_facts = write_value_scalar [OF v sc, of E "value"]
  show ?thesis
    using v level slot_facts wr_facts match
    by (cases check; cases extra)
       (auto simp: var_instance_do_set_value_def andthen_def get_entry_scalar put_entry_scalar)
qed

text \<open>Reading: the flag that marks the slot as being read is set and reset again.\<close>

lemma var_get_condition_cached:
  "st_vars s v = Some var \<Longrightarrow> var_condition var = Some c \<Longrightarrow> var_get_condition E v s = Done c s"
  by (simp add: var_get_condition_def var_compute_condition_def andthen_def)

lemma is_enabled_literal:
  assumes "st_vars s v = Some var" and "var_condition var = Some (Literal \<lparr>lit_scope = g, lit_value = Bool_value b\<rparr>)"
  shows "var_instance_is_enabled E \<lparr>inst_var = v, indices = is\<rparr> s = Done b s"
  using assms
  by (simp add: var_instance_is_enabled_def var_get_condition_cached andthen_def evaluate_in_def checked_evaluate_def
      expr_literal_evaluate_def expr_literal_create_boolean_def lit_type_def expr_is_assignable_to_def
      expr_get_boolean_value_cases)

lemma var_get_default_value_none:
  "st_vars s v = Some var \<Longrightarrow> var_def_value var = None \<Longrightarrow> prop_def_value (var_props var) = None \<Longrightarrow>
   var_get_default_value E v s = Done None s"
  by (simp add: var_get_default_value_def var_compute_default_value_def andthen_def)

text \<open>The value a scalar variable without default value shows.\<close>

definition entry_value :: "'x slot_entry_t \<Rightarrow> 'x var_value_t" where
  "entry_value e =
     \<lparr>val_value = ent_value e, val_kind = (if ent_value e = None then VAR_VALUE_KIND_NONE else VAR_VALUE_KIND_NORMAL),
      val_extra = ent_extra e, val_priority = ent_priority e\<rparr>"

definition no_default :: "('x, 'd) var_t \<Rightarrow> 'x slot_entry_t \<Rightarrow> bool" where
  "no_default var e \<longleftrightarrow> var_def_value var = None \<and> prop_def_value (var_props var) = None \<and> ent_def_value e = None"

lemma var_slot_get_value_scalar:
  assumes "st_vars s v = Some var" and "var_slot var = Slot_entry e" and "no_default var e"
  shows "var_slot_get_value E (scalar v) s = Done (entry_value e) s"
  using assms
  by (cases "ent_value e")
     (simp_all add: var_slot_get_value_def get_entry_scalar andthen_def entry_value_def var_value_create_def Let_def
       compute_slot_default_def var_get_default_value_none no_default_def)

lemma try_get_value_scalar:
  assumes v: "st_vars s v = Some var" and sc: "scalar_var var e" and nd: "no_default var e"
    and cond: "var_condition var = Some (Literal \<lparr>lit_scope = g, lit_value = Bool_value True\<rparr>)"
    and idle: "\<not> ent_read_active e"
  shows "var_instance_try_get_value E (scalar v) s = Done (if ent_value e = None then None else Some (entry_value e)) s"
proof -
  have l: "var_level var = 0" "var_slot var = Slot_entry e" using sc by (simp_all add: scalar_var_def)
  let ?e = "e\<lparr>ent_read_active := True\<rparr>"
  let ?s = "s\<lparr>st_vars := (st_vars s)(v \<mapsto> var\<lparr>var_slot := Slot_entry ?e\<rparr>)\<rparr>"
  have sv: "st_vars ?s v = Some (var\<lparr>var_slot := Slot_entry ?e\<rparr>)" by simp
  have en: "var_instance_is_enabled E (scalar v) ?s = Done True ?s"
    by (rule is_enabled_literal [OF sv, of g]) (simp add: cond)
  have gv: "var_slot_get_value E (scalar v) ?s = Done (entry_value e) ?s"
    using var_slot_get_value_scalar [OF sv, of ?e] nd by (simp add: no_default_def entry_value_def)
  have e: "e\<lparr>ent_read_active := False\<rparr> = e" using idle by simp
  have var: "var\<lparr>var_slot := Slot_entry e\<rparr> = var" using l by simp
  have restored: "s\<lparr>st_vars := (st_vars s)(v \<mapsto> var\<lparr>var_slot := Slot_entry (e\<lparr>ent_read_active := False\<rparr>)\<rparr>)\<rparr> = s"
    unfolding e var using v by (simp add: fun_upd_idem)
  have "var_instance_read_value E (scalar v) s = Done (Some (entry_value e)) s"
    using v l idle en gv restored
    by (simp add: var_instance_read_value_def andthen_def get_entry_scalar put_entry_scalar)
  then show ?thesis
    using v l by (simp add: var_instance_try_get_value_def var_instance_do_get_value_def andthen_def
        get_slot_for_reading_def entry_value_def)
qed

section \<open>Histories of writes\<close>

text \<open>What a scalar variable promises: a cell with a value and a priority. A write takes effect if its priority
  is admitted by the base priority of the variable and, under its mode, by the priority of the cell.\<close>

type_synonym write_request = "var_access_mode_t \<times> var_priority_t \<times> c_string"
type_synonym cell = "c_string option \<times> var_priority_t"

definition admitted :: "var_priority_t \<Rightarrow> cell \<Rightarrow> write_request \<Rightarrow> bool" where
  "admitted base c r \<longleftrightarrow> base \<le> fst (snd r) \<and> (if fst r = VAR_ACCESS_STRONG then snd c < fst (snd r) else snd c \<le> fst (snd r))"

definition cell_write :: "var_priority_t \<Rightarrow> cell \<Rightarrow> write_request \<Rightarrow> cell" where
  "cell_write base c r = (if admitted base c r then (Some (snd (snd r)), fst (snd r)) else c)"

primrec cell_results :: "var_priority_t \<Rightarrow> cell \<Rightarrow> write_request list \<Rightarrow> bool list" where
  "cell_results base c [] = []"
| "cell_results base c (r # rs) =
     (admitted base c r \<or> fst r = VAR_ACCESS_TENTATIVE) # cell_results base (cell_write base c r) rs"

primrec set_values :: "('x, 'd, 'z) env \<Rightarrow> var_id \<Rightarrow> write_request list \<Rightarrow> (('x, 'd, 'z) st, bool list) action" where
  "set_values E v [] = ret []"
| "set_values E v (r # rs) =
     andthen (var_instance_set_value E (scalar v) (Some (snd (snd r))) None (fst r) (fst (snd r))) (\<lambda>b.
       andthen (set_values E v rs) (\<lambda>bs. ret (b # bs)))"

lemma access_allowed_admitted:
  "(var_priority var \<le> p \<and> access_allowed mode p q) = admitted (var_priority var) (x, q) (mode, p, value)"
  by (cases mode) (simp_all add: access_allowed_def admitted_def)

text \<open>One step of the simulation: the variable and its entry stay what they were but for the cell.\<close>

definition same_but_cell :: "'x slot_entry_t \<Rightarrow> 'x slot_entry_t \<Rightarrow> bool" where
  "same_but_cell e e' \<longleftrightarrow> (\<exists>value p. e' = e\<lparr>ent_value := value, ent_priority := p\<rparr>)"

lemma same_but_cell_refl [simp]: "same_but_cell e e"
  unfolding same_but_cell_def by (rule exI [of _ "ent_value e"], rule exI [of _ "ent_priority e"]) simp

lemma same_but_cell_trans: "same_but_cell e e' \<Longrightarrow> same_but_cell e' e'' \<Longrightarrow> same_but_cell e e''"
  unfolding same_but_cell_def by (elim exE) (simp, blast)

lemma set_value_cell:
  assumes v: "st_vars s v = Some var" and sc: "scalar_var var e"
  shows "\<exists>e'. var_instance_set_value E (scalar v) (Some (snd (snd r))) None (fst r) (fst (snd r)) s
      = Done (admitted (var_priority var) (ent_value e, ent_priority e) r \<or> fst r = VAR_ACCESS_TENTATIVE)
          (s\<lparr>st_vars := (st_vars s)(v \<mapsto> var\<lparr>var_slot := Slot_entry e'\<rparr>)\<rparr>)
    \<and> (ent_value e', ent_priority e') = cell_write (var_priority var) (ent_value e, ent_priority e) r
    \<and> same_but_cell e e' \<and> ent_priority e \<le> ent_priority e'"
proof -
  obtain mode p val where r: "r = (mode, p, val)" by (cases r)
  let ?cell = "(ent_value e, ent_priority e)"
  have set: "var_instance_set_value E (scalar v) (Some val) None mode p s
      = (if admitted (var_priority var) ?cell (mode, p, val)
         then Done True (s\<lparr>st_vars := (st_vars s)(v \<mapsto> var\<lparr>var_slot := Slot_entry (e\<lparr>ent_value := Some val, ent_priority := p\<rparr>)\<rparr>)\<rparr>)
         else Done (mode = VAR_ACCESS_TENTATIVE) s)"
    using do_set_value_scalar [OF v sc, of False E val undefined None mode p False]
      access_allowed_admitted [of var p mode "ent_priority e" "ent_value e" val]
    by (auto simp: var_instance_set_value_def)
  show ?thesis
  proof (cases "admitted (var_priority var) ?cell (mode, p, val)")
    case True
    then have "ent_priority e \<le> p" by (auto simp: admitted_def split: if_splits)
    then show ?thesis
      using set True
      by (intro exI [of _ "e\<lparr>ent_value := Some val, ent_priority := p\<rparr>"]) (auto simp: r cell_write_def same_but_cell_def)
  next
    case False
    have "s\<lparr>st_vars := (st_vars s)(v \<mapsto> var\<lparr>var_slot := Slot_entry e\<rparr>)\<rparr> = s"
      using v sc by (simp add: scalar_var_def fun_upd_idem)
    then show ?thesis using set False by (intro exI [of _ e]) (simp add: r cell_write_def)
  qed
qed

lemma set_values_cell:
  assumes "st_vars s v = Some var" and "scalar_var var e"
  shows "\<exists>e'. set_values E v rs s
      = Done (cell_results (var_priority var) (ent_value e, ent_priority e) rs)
          (s\<lparr>st_vars := (st_vars s)(v \<mapsto> var\<lparr>var_slot := Slot_entry e'\<rparr>)\<rparr>)
    \<and> (ent_value e', ent_priority e') = foldl (cell_write (var_priority var)) (ent_value e, ent_priority e) rs
    \<and> same_but_cell e e' \<and> ent_priority e \<le> ent_priority e'"
  using assms
proof (induction rs arbitrary: s var e)
  case Nil
  then show ?case by (intro exI [of _ e]) (simp add: scalar_var_def fun_upd_idem)
next
  case (Cons r rs)
  obtain e1 where e1: "var_instance_set_value E (scalar v) (Some (snd (snd r))) None (fst r) (fst (snd r)) s
      = Done (admitted (var_priority var) (ent_value e, ent_priority e) r \<or> fst r = VAR_ACCESS_TENTATIVE)
          (s\<lparr>st_vars := (st_vars s)(v \<mapsto> var\<lparr>var_slot := Slot_entry e1\<rparr>)\<rparr>)"
    "(ent_value e1, ent_priority e1) = cell_write (var_priority var) (ent_value e, ent_priority e) r"
    "same_but_cell e e1" "ent_priority e \<le> ent_priority e1"
    using set_value_cell [OF Cons.prems] by blast
  let ?var = "var\<lparr>var_slot := Slot_entry e1\<rparr>"
  let ?s = "s\<lparr>st_vars := (st_vars s)(v \<mapsto> ?var)\<rparr>"
  have prems: "st_vars ?s v = Some ?var" "scalar_var ?var e1" using Cons.prems by (simp_all add: scalar_var_def)
  obtain e2 where e2: "set_values E v rs ?s
      = Done (cell_results (var_priority ?var) (ent_value e1, ent_priority e1) rs)
          (?s\<lparr>st_vars := (st_vars ?s)(v \<mapsto> ?var\<lparr>var_slot := Slot_entry e2\<rparr>)\<rparr>)"
    "(ent_value e2, ent_priority e2) = foldl (cell_write (var_priority ?var)) (ent_value e1, ent_priority e1) rs"
    "same_but_cell e1 e2" "ent_priority e1 \<le> ent_priority e2"
    using Cons.IH [OF prems] by blast
  have "set_values E v (r # rs) s
      = Done (cell_results (var_priority var) (ent_value e, ent_priority e) (r # rs))
          (s\<lparr>st_vars := (st_vars s)(v \<mapsto> var\<lparr>var_slot := Slot_entry e2\<rparr>)\<rparr>)"
    using e1(1,2) e2(1) by (simp add: andthen_def)
  moreover have "same_but_cell e e2" "ent_priority e \<le> ent_priority e2"
    using same_but_cell_trans [OF e1(3) e2(3)] order_trans [OF e1(4) e2(4)] .
  ultimately show ?case using e1(2) e2(2) by (intro exI [of _ e2]) (simp del: fun_upd_apply)
qed

text \<open>C3: a history of writes of any mode and priority to an enabled scalar variable without default value
  behaves like the abstract cell: each write reports what the cell says, the priority never drops, reading
  gives the value the cell holds at the end, and no other variable changes.\<close>

theorem scalar_writes_refine_cell:
  assumes "st_vars s v = Some var" and "scalar_var var e" and "no_default var e" and "\<not> ent_read_active e"
    and "var_condition var = Some (Literal \<lparr>lit_scope = g, lit_value = Bool_value True\<rparr>)"
  shows "\<exists>s' e'. set_values E v rs s = Done (cell_results (var_priority var) (ent_value e, ent_priority e) rs) s'
    \<and> s' = s\<lparr>st_vars := (st_vars s)(v \<mapsto> var\<lparr>var_slot := Slot_entry e'\<rparr>)\<rparr>
    \<and> ent_priority e \<le> ent_priority e'
    \<and> andthen (var_instance_try_get_value E (scalar v)) (\<lambda>r. ret (map_option (\<lambda>x. (val_value x, val_priority x)) r)) s'
      = Done (let c = foldl (cell_write (var_priority var)) (ent_value e, ent_priority e) rs
              in if fst c = None then None else Some c) s'"
proof -
  obtain e' where e': "set_values E v rs s
      = Done (cell_results (var_priority var) (ent_value e, ent_priority e) rs)
          (s\<lparr>st_vars := (st_vars s)(v \<mapsto> var\<lparr>var_slot := Slot_entry e'\<rparr>)\<rparr>)"
    "(ent_value e', ent_priority e') = foldl (cell_write (var_priority var)) (ent_value e, ent_priority e) rs"
    "same_but_cell e e'" "ent_priority e \<le> ent_priority e'"
    using set_values_cell [OF assms(1,2)] by blast
  let ?s = "s\<lparr>st_vars := (st_vars s)(v \<mapsto> var\<lparr>var_slot := Slot_entry e'\<rparr>)\<rparr>"
  have "var_instance_try_get_value E (scalar v) ?s = Done (if ent_value e' = None then None else Some (entry_value e')) ?s"
    by (rule try_get_value_scalar [where var = "var\<lparr>var_slot := Slot_entry e'\<rparr>" and g = g])
       (use assms e'(3) in \<open>auto simp: scalar_var_def no_default_def same_but_cell_def\<close>)
  then show ?thesis
    using e'(1,2,4)
    by (intro exI [of _ ?s] exI [of _ e']) (auto simp: andthen_def entry_value_def Let_def simp flip: e'(2))
qed

definition option_var :: "(nat, nat) var_t" where
  "option_var = (plain_var ''OPT_DNS'' 0)\<lparr>var_condition := Some (Literal \<lparr>lit_scope = 0, lit_value = Bool_value True\<rparr>)\<rparr>"

lemma option_var_ok: "scalar_var option_var empty_entry" "no_default option_var empty_entry"
  "var_condition option_var = Some (Literal \<lparr>lit_scope = 0, lit_value = Bool_value True\<rparr>)"
  "var_priority option_var = VAR_PRIORITY_CONFIGURATION"
  by (simp_all add: option_var_def plain_var_def scalar_var_def no_default_def var_slot_init_def empty_entry_def)

theorem scalar_writes_refine_cell_witness:
  "\<exists>s'. set_values plain_env 3
       [(VAR_ACCESS_STRONG, VAR_PRIORITY_CONFIGURATION, ''yes''), (VAR_ACCESS_STRONG, VAR_PRIORITY_CONFIGURATION, ''no'')]
       \<lparr>st_vars = [3 \<mapsto> option_var]\<rparr> = Done [True, False] s'
     \<and> andthen (var_instance_try_get_value plain_env (scalar 3)) (\<lambda>r. ret (map_option (\<lambda>x. (val_value x, val_priority x)) r)) s'
       = Done (Some (Some ''yes'', VAR_PRIORITY_CONFIGURATION)) s'"
proof -
  let ?rs = "[(VAR_ACCESS_STRONG, VAR_PRIORITY_CONFIGURATION, ''yes''), (VAR_ACCESS_STRONG, VAR_PRIORITY_CONFIGURATION, ''no'')]"
  have v: "st_vars \<lparr>st_vars = [3 \<mapsto> option_var]\<rparr> 3 = Some option_var" by simp
  have idle: "\<not> ent_read_active (empty_entry :: nat slot_entry_t)"
    and cell: "(ent_value (empty_entry :: nat slot_entry_t), ent_priority (empty_entry :: nat slot_entry_t)) = (None, VAR_PRIORITY_UNDEFINED)"
    by (simp_all add: empty_entry_def)
  have "VAR_PRIORITY_UNDEFINED < VAR_PRIORITY_CONFIGURATION" by (simp add: less_var_priority_t_def)
  then have "cell_results VAR_PRIORITY_CONFIGURATION (None, VAR_PRIORITY_UNDEFINED) ?rs = [True, False]"
    "foldl (cell_write VAR_PRIORITY_CONFIGURATION) (None, VAR_PRIORITY_UNDEFINED) ?rs = (Some ''yes'', VAR_PRIORITY_CONFIGURATION)"
    by (simp_all add: admitted_def cell_write_def)
  then show ?thesis
    using scalar_writes_refine_cell [OF v option_var_ok(1,2) idle option_var_ok(3), of plain_env ?rs]
    unfolding cell option_var_ok(4) by auto
qed

section \<open>Values that depend on themselves\<close>

lemma truncate_simps [simp]:
  "env_var_get_level (expr_env.truncate E) = env_var_get_level E"
  "env_try_get_value (expr_env.truncate E) = env_try_get_value E"
  "env_inst_to_string (expr_env.truncate E) = env_inst_to_string E"
  by (simp_all add: expr_env.truncate_def)

lemma var_ops_members [simp]:
  "env_var_get_level (var_ops B n) = (\<lambda>v. andthen (get_var v) (\<lambda>var. ret (var_level var)))"
  "env_inst_to_string (var_ops B n) = var_instance_to_string"
  by (cases n; simp)+

lemma try_get_value_active:
  assumes "st_vars s v = Some var" and "scalar_var var e" and "ent_read_active e"
  shows "var_instance_try_get_value E (scalar v) s = Done None s"
  using assms
  by (simp add: var_instance_try_get_value_def var_instance_do_get_value_def var_instance_read_value_def andthen_def
      get_entry_scalar scalar_var_def get_slot_for_reading_def)

lemma self_reference_error:
  assumes "st_vars s v = Some var" and "scalar_var var e" and "ent_read_active e"
  shows "\<exists>msg. evaluate_in (var_ops B (Suc n)) (scalar v)
      (Variable EXPR_TYPE_STRING g (EXPR_VARIABLE_STATE_RESOLVED (scalar v))) s
    = Done (expr_literal_create_error g msg) s"
proof -
  obtain msg where "sprintf_string (Some (instance_name (var_name var) [])) reading_failed_template = Some msg"
    using reading_failed_message by blast
  moreover have "var_level var = 0" using assms(2) by (simp add: scalar_var_def)
  ultimately show ?thesis
    using assms(1) try_get_value_active [OF assms, of "var_ops B n"]
    by (simp add: evaluate_in_def checked_evaluate_def expr_variable_evaluate_def variable_literal_def
        expr_variable_evaluate_error_def expr_variable_evaluate_error_by_name_def var_instance_to_string_def andthen_def
        expr_literal_create_error_def lit_type_def expr_is_assignable_to_def)
qed

text \<open>C29: a variable whose default value is its own value is not read for ever: the read ends, gives no
  value, and leaves the variables as they were.\<close>

theorem self_default_unset:
  assumes v: "st_vars s v = Some var" and sc: "scalar_var var e" and unset: "ent_value e = None" "ent_def_value e = None"
    and idle: "\<not> ent_read_active e"
    and cond: "var_condition var = Some (Literal \<lparr>lit_scope = g, lit_value = Bool_value True\<rparr>)"
    and self: "var_def_value var = Some (Variable EXPR_TYPE_STRING h (EXPR_VARIABLE_STATE_RESOLVED (scalar v)))"
  shows "var_instance_try_get_value (var_ops B (Suc n)) (scalar v) s = Done None s"
proof -
  let ?E = "var_ops B (Suc n)"
  have l: "var_level var = 0" "var_slot var = Slot_entry e" using sc by (simp_all add: scalar_var_def)
  let ?e = "e\<lparr>ent_read_active := True\<rparr>"
  let ?var = "var\<lparr>var_slot := Slot_entry ?e\<rparr>"
  let ?s = "s\<lparr>st_vars := (st_vars s)(v \<mapsto> ?var)\<rparr>"
  have sv: "st_vars ?s v = Some ?var" by simp
  have sc': "scalar_var ?var ?e" using sc by (simp add: scalar_var_def)
  have en: "var_instance_is_enabled ?E (scalar v) ?s = Done True ?s"
    by (rule is_enabled_literal [OF sv, of g]) (simp add: cond)
  obtain msg where msg: "evaluate_in ?E (scalar v) (Variable EXPR_TYPE_STRING h (EXPR_VARIABLE_STATE_RESOLVED (scalar v))) ?s
      = Done (expr_literal_create_error h msg) ?s"
    using self_reference_error [OF sv sc', of B n h] by auto
  have "var_get_default_value ?E v ?s = Done (var_def_value var) ?s"
    by (simp add: var_get_default_value_def var_compute_default_value_def andthen_def self)
  then have def: "compute_slot_default ?E (scalar v) ?s = Done () ?s"
    using msg self
    by (simp add: compute_slot_default_def andthen_def expr_get_string_value_cases expr_literal_create_error_def)
  have gv: "var_slot_get_value ?E (scalar v) ?s
      = Done (var_value_create None VAR_VALUE_KIND_NONE (ent_extra e) (ent_priority e)) ?s"
    using sv unset def by (simp add: var_slot_get_value_def get_entry_scalar andthen_def Let_def)
  have e: "e\<lparr>ent_read_active := False\<rparr> = e" and var: "var\<lparr>var_slot := Slot_entry e\<rparr> = var" using idle l by simp_all
  have restored: "s\<lparr>st_vars := (st_vars s)(v \<mapsto> var\<lparr>var_slot := Slot_entry (e\<lparr>ent_read_active := False\<rparr>)\<rparr>)\<rparr> = s"
    unfolding e var using v by (simp add: fun_upd_idem)
  have "var_instance_read_value ?E (scalar v) s
      = Done (Some (var_value_create None VAR_VALUE_KIND_NONE (ent_extra e) (ent_priority e))) s"
    using v l idle en gv restored
    by (simp add: var_instance_read_value_def andthen_def get_entry_scalar put_entry_scalar del: var_ops.simps)
  then show ?thesis
    using v l by (simp add: var_instance_try_get_value_def var_instance_do_get_value_def andthen_def
        get_slot_for_reading_def var_value_create_def del: var_ops.simps)
qed

theorem self_default_unset_witness:
  "var_instance_try_get_value (var_ops plain_env 1) (scalar 3)
     \<lparr>st_vars = [3 \<mapsto> option_var\<lparr>var_def_value := Some (Variable EXPR_TYPE_STRING 0 (EXPR_VARIABLE_STATE_RESOLVED (scalar 3)))\<rparr>]\<rparr>
   = Done None \<lparr>st_vars = [3 \<mapsto> option_var\<lparr>var_def_value := Some (Variable EXPR_TYPE_STRING 0 (EXPR_VARIABLE_STATE_RESOLVED (scalar 3)))\<rparr>]\<rparr>"
  unfolding One_nat_def
  by (rule self_default_unset [where e = empty_entry and g = 0 and h = 0 and
        var = "option_var\<lparr>var_def_value := Some (Variable EXPR_TYPE_STRING 0 (EXPR_VARIABLE_STATE_RESOLVED (scalar 3)))\<rparr>"])
     (simp_all add: option_var_def plain_var_def scalar_var_def var_slot_init_def empty_entry_def)

end
