(* ===== verification/Array_Growth.thy ===== *)
theory Array_Growth
  imports Var_Access
begin

text \<open>
  How arrays grow: \<open>var_slot_get_or_create\<close>, \<open>var_slot_expand\<close> and \<open>var_slot_expand_clients\<close> of
  \<open>var/slot_write.c\<close> call each other along the array bound variables and their clients. The theory shows
  that with as many nested calls as there are levels they come back, that growing keeps the variables
  well-formed and every slot there was, and that the arrays sharing a bound grow together.
\<close>

section \<open>Slot trees that extend each other\<close>

definition slot_extends :: "'x varslot_t \<Rightarrow> 'x varslot_t \<Rightarrow> bool" where
  "slot_extends s t \<longleftrightarrow> (\<forall>is. case slot_at s is of
       None \<Rightarrow> True
     | Some (Slot_entry e) \<Rightarrow> slot_at t is = Some (Slot_entry e)
     | Some (Slot_array xs) \<Rightarrow> (\<exists>ys. slot_at t is = Some (Slot_array ys) \<and> length xs \<le> length ys))"

lemma slot_extends_entry: "slot_extends s t \<Longrightarrow> slot_at s is = Some (Slot_entry e) \<Longrightarrow> slot_at t is = Some (Slot_entry e)"
  unfolding slot_extends_def by (drule spec [of _ "is"]) simp

lemma slot_extends_array:
  "slot_extends s t \<Longrightarrow> slot_at s is = Some (Slot_array xs) \<Longrightarrow> \<exists>ys. slot_at t is = Some (Slot_array ys) \<and> length xs \<le> length ys"
  unfolding slot_extends_def by (drule spec [of _ "is"]) simp

lemma slot_extends_some: "slot_extends s t \<Longrightarrow> slot_at s is = Some u \<Longrightarrow> \<exists>w. slot_at t is = Some w"
  by (cases u) (auto dest: slot_extends_entry slot_extends_array)

lemma slot_extendsI:
  assumes "\<And>is e. slot_at s is = Some (Slot_entry e) \<Longrightarrow> slot_at t is = Some (Slot_entry e)"
    and "\<And>is xs. slot_at s is = Some (Slot_array xs) \<Longrightarrow> \<exists>ys. slot_at t is = Some (Slot_array ys) \<and> length xs \<le> length ys"
  shows "slot_extends s t"
  using assms by (simp add: slot_extends_def split: option.splits varslot_t.splits)

lemma slot_extends_refl [simp]: "slot_extends s s"
  by (rule slot_extendsI) auto

lemma slot_extends_trans [trans]: "slot_extends s t \<Longrightarrow> slot_extends t u \<Longrightarrow> slot_extends s u"
  by (rule slot_extendsI) (blast dest: slot_extends_entry, meson slot_extends_array le_trans)

lemma slot_extends_Array:
  assumes "length xs \<le> length ys" and "\<And>i. i < length xs \<Longrightarrow> slot_extends (xs ! i) (ys ! i)"
  shows "slot_extends (Slot_array xs) (Slot_array ys)"
proof (rule slot_extendsI)
  fix "is" e
  assume a: "slot_at (Slot_array xs) is = Some (Slot_entry e)"
  then obtain i js where "is = i # js" "unat i < length xs" "slot_at (xs ! unat i) js = Some (Slot_entry e)"
    by (cases "is") (auto split: if_splits)
  then show "slot_at (Slot_array ys) is = Some (Slot_entry e)"
    using assms slot_extends_entry by fastforce
next
  fix "is" zs
  assume a: "slot_at (Slot_array xs) is = Some (Slot_array zs)"
  show "\<exists>ys'. slot_at (Slot_array ys) is = Some (Slot_array ys') \<and> length zs \<le> length ys'"
  proof (cases "is")
    case Nil
    then show ?thesis using a assms(1) by simp
  next
    case (Cons i js)
    then have "unat i < length xs" "slot_at (xs ! unat i) js = Some (Slot_array zs)" using a by (auto split: if_splits)
    then show ?thesis using Cons assms slot_extends_array by fastforce
  qed
qed

lemma slot_extends_set:
  "slot_at s p = Some u \<Longrightarrow> slot_extends u t \<Longrightarrow> slot_extends s (set_slot_at s p t)"
proof (induction p arbitrary: s)
  case (Cons i p)
  then obtain xs where s: "s = Slot_array xs" "unat i < length xs" "slot_at (xs ! unat i) p = Some u"
    by (cases s) (auto split: if_splits)
  then show ?case
    using Cons by (auto intro!: slot_extends_Array simp: nth_list_update)
qed simp

section \<open>Stores that extend each other\<close>

definition store_extends :: "('x, 'd, 'z) st \<Rightarrow> ('x, 'd, 'z) st \<Rightarrow> bool" where
  "store_extends s s' \<longleftrightarrow> (\<exists>vs. s' = s\<lparr>st_vars := vs\<rparr>)
     \<and> (\<forall>v. case st_vars s v of
           None \<Rightarrow> st_vars s' v = None
         | Some x \<Rightarrow> (\<exists>t. st_vars s' v = Some (x\<lparr>var_slot := t\<rparr>) \<and> slot_extends (var_slot x) t))"

lemma store_extendsD:
  "store_extends s s' \<Longrightarrow> st_vars s v = Some x \<Longrightarrow>
   \<exists>t. st_vars s' v = Some (x\<lparr>var_slot := t\<rparr>) \<and> slot_extends (var_slot x) t"
  unfolding store_extends_def by (elim conjE, drule spec [of _ v]) simp

lemma store_extends_None: "store_extends s s' \<Longrightarrow> st_vars s v = None \<Longrightarrow> st_vars s' v = None"
  unfolding store_extends_def by (elim conjE, drule spec [of _ v]) simp

lemma store_extends_back:
  assumes "store_extends s s'" and "st_vars s' v = Some y"
  shows "\<exists>x. st_vars s v = Some x \<and> y = x\<lparr>var_slot := var_slot y\<rparr>"
  using assms store_extendsD [OF assms(1), of v] store_extends_None [OF assms(1), of v] by (cases "st_vars s v") auto

lemma store_extendsI:
  assumes "s' = s\<lparr>st_vars := vs\<rparr>"
    and "\<And>v. st_vars s v = None \<Longrightarrow> vs v = None"
    and "\<And>v x. st_vars s v = Some x \<Longrightarrow> \<exists>t. vs v = Some (x\<lparr>var_slot := t\<rparr>) \<and> slot_extends (var_slot x) t"
  shows "store_extends s s'"
  unfolding store_extends_def using assms by (auto split: option.splits)

lemma store_extends_refl [simp]: "store_extends s s"
proof (rule store_extendsI [where vs = "st_vars s"])
  fix v x
  assume "st_vars s v = Some x"
  then show "\<exists>t. st_vars s v = Some (x\<lparr>var_slot := t\<rparr>) \<and> slot_extends (var_slot x) t"
    by (intro exI [of _ "var_slot x"]) simp
qed simp_all

lemma store_extends_trans [trans]:
  assumes a: "store_extends s1 s2" and b: "store_extends s2 s3"
  shows "store_extends s1 s3"
proof -
  obtain vs where "s2 = s1\<lparr>st_vars := vs\<rparr>" using a by (auto simp: store_extends_def)
  moreover obtain ws where "s3 = s2\<lparr>st_vars := ws\<rparr>" using b by (auto simp: store_extends_def)
  ultimately have s3: "s3 = s1\<lparr>st_vars := ws\<rparr>" "ws = st_vars s3" by simp_all
  show ?thesis
  proof (rule store_extendsI [OF s3(1)])
    fix v
    assume "st_vars s1 v = None"
    then show "ws v = None" using a b s3(2) by (simp add: store_extends_None)
  next
    fix v x
    assume "st_vars s1 v = Some x"
    then obtain t where t: "st_vars s2 v = Some (x\<lparr>var_slot := t\<rparr>)" "slot_extends (var_slot x) t"
      using store_extendsD [OF a] by blast
    then obtain u where "st_vars s3 v = Some (x\<lparr>var_slot := u\<rparr>)" "slot_extends t u"
      using store_extendsD [OF b t(1)] by auto
    then show "\<exists>t. ws v = Some (x\<lparr>var_slot := t\<rparr>) \<and> slot_extends (var_slot x) t"
      using t(2) s3(2) slot_extends_trans by blast
  qed
qed

lemma store_extends_put:
  assumes v: "st_vars s v = Some x" and t: "slot_extends (var_slot x) t"
  shows "store_extends s (s\<lparr>st_vars := (st_vars s)(v \<mapsto> x\<lparr>var_slot := t\<rparr>)\<rparr>)"
proof (rule store_extendsI [OF refl])
  fix w y
  assume y: "st_vars s w = Some y"
  show "\<exists>u. ((st_vars s)(v \<mapsto> x\<lparr>var_slot := t\<rparr>)) w = Some (y\<lparr>var_slot := u\<rparr>) \<and> slot_extends (var_slot y) u"
  proof (cases "w = v")
    case True
    then show ?thesis using v t y by (intro exI [of _ t]) simp
  next
    case False
    then show ?thesis using y by (intro exI [of _ "var_slot y"]) simp
  qed
qed (use v in auto)

section \<open>Well-formed stores\<close>

text \<open>Slot trees as deep as the levels of their variable; array bounds one level above their arrays. The
  number bounds the levels of all variables.\<close>

definition store_wf :: "nat \<Rightarrow> ('x, 'd, 'z) st \<Rightarrow> bool" where
  "store_wf L s \<longleftrightarrow> (\<forall>v x. st_vars s v = Some x \<longrightarrow>
     slot_wf (var_level x) (var_slot x) \<and> var_level x \<le> L
     \<and> (\<forall>c \<in> set (var_n_clients x). \<exists>y. st_vars s c = Some y \<and> var_level y = Suc (var_level x))
     \<and> (0 < var_level x \<longrightarrow> (\<exists>n y. var_n x = Some n \<and> st_vars s n = Some y \<and> Suc (var_level y) = var_level x)))"

lemma store_wfD:
  assumes "store_wf L s" and "st_vars s v = Some x"
  shows "slot_wf (var_level x) (var_slot x)" "var_level x \<le> L"
    "\<And>c. c \<in> set (var_n_clients x) \<Longrightarrow> \<exists>y. st_vars s c = Some y \<and> var_level y = Suc (var_level x)"
    "0 < var_level x \<Longrightarrow> \<exists>n y. var_n x = Some n \<and> st_vars s n = Some y \<and> Suc (var_level y) = var_level x"
  using assms unfolding store_wf_def by blast+

lemma store_wf_put:
  assumes wf: "store_wf L s" and v: "st_vars s v = Some x" and t: "slot_wf (var_level x) t"
  shows "store_wf L (s\<lparr>st_vars := (st_vars s)(v \<mapsto> x\<lparr>var_slot := t\<rparr>)\<rparr>)"
proof -
  let ?s = "s\<lparr>st_vars := (st_vars s)(v \<mapsto> x\<lparr>var_slot := t\<rparr>)\<rparr>"
  have keep: "\<exists>y. st_vars ?s c = Some y \<and> var_level y = l" if "\<exists>y. st_vars s c = Some y \<and> var_level y = l" for c l
    using that v by (cases "c = v") auto
  show ?thesis
    unfolding store_wf_def
  proof (intro allI impI)
    fix w y
    assume y: "st_vars ?s w = Some y"
    obtain z where z: "st_vars s w = Some z" "var_level y = var_level z" "var_n y = var_n z"
      "var_n_clients y = var_n_clients z" "slot_wf (var_level z) (var_slot y)"
    proof (cases "w = v")
      case True
      then show ?thesis using that [of x] y v t by auto
    next
      case False
      then show ?thesis using that [of y] y store_wfD(1) [OF wf, of v] store_wfD(1) [OF wf, of w] by simp
    qed
    note d = store_wfD [OF wf z(1)]
    have "\<exists>n y'. var_n y = Some n \<and> st_vars ?s n = Some y' \<and> Suc (var_level y') = var_level y" if "0 < var_level y"
    proof -
      obtain n y1 where n: "var_n z = Some n" "st_vars s n = Some y1" "Suc (var_level y1) = var_level z"
        using d(4) \<open>0 < var_level y\<close> z(2) by auto
      then show ?thesis using keep [of n "var_level y1"] z(2,3) by auto
    qed
    moreover have "\<exists>y'. st_vars ?s c = Some y' \<and> var_level y' = Suc (var_level y)" if "c \<in> set (var_n_clients y)" for c
      using keep [OF d(3)] that z by simp
    ultimately show "slot_wf (var_level y) (var_slot y) \<and> var_level y \<le> L
      \<and> (\<forall>c \<in> set (var_n_clients y). \<exists>y'. st_vars ?s c = Some y' \<and> var_level y' = Suc (var_level y))
      \<and> (0 < var_level y \<longrightarrow> (\<exists>n y'. var_n y = Some n \<and> st_vars ?s n = Some y' \<and> Suc (var_level y') = var_level y))"
      using z d(2) by simp
  qed
qed

section \<open>One array grows\<close>

text \<open>Indices for which the array that holds them still fits the counters of the iterators.\<close>

definition small_indices :: "u32 list \<Rightarrow> bool" where
  "small_indices is \<longleftrightarrow> (\<forall>i \<in> set is. unat i < 2 ^ 31 - 1)"

lemma small_indices_simps [simp]:
  "small_indices []" "small_indices (i # is) \<longleftrightarrow> unat i < 2 ^ 31 - 1 \<and> small_indices is"
  by (auto simp: small_indices_def)

lemma small_indices_take: "small_indices is \<Longrightarrow> small_indices (take n is)"
  by (auto simp: small_indices_def dest: in_set_takeD)

text \<open>What is kept: the store stays well-formed and extends the one before.\<close>

abbreviation grown :: "nat \<Rightarrow> ('x, 'd, 'z) st \<Rightarrow> ('x, 'd, 'z) st \<Rightarrow> bool" where
  "grown L s s' \<equiv> store_wf L s' \<and> store_extends s s'"

definition has_slot :: "('x, 'd, 'z) st \<Rightarrow> var_id \<Rightarrow> u32 list \<Rightarrow> bool" where
  "has_slot s v is \<longleftrightarrow> (\<exists>x t. st_vars s v = Some x \<and> slot_at (var_slot x) is = Some t)"

lemma has_slot_extends: "has_slot s v is \<Longrightarrow> store_extends s s' \<Longrightarrow> has_slot s' v is"
  unfolding has_slot_def by (elim exE conjE) (drule (1) store_extendsD, fastforce dest: slot_extends_some)

lemma slot_array_at:
  assumes "slot_wf d s" and "slot_at s p = Some u" and "length p < d"
  obtains xs where "u = Slot_array xs" and "length xs < 2 ^ 31" and "list_all (slot_wf (d - Suc (length p))) xs"
proof -
  have "slot_wf (d - length p) u" using slot_at_wf [OF assms(1,2)] by simp
  moreover have "d - length p = Suc (d - Suc (length p))" using assms(3) by simp
  ultimately show ?thesis using that by auto
qed

lemma slot_at_snoc: "slot_at s p = Some (Slot_array xs) \<Longrightarrow>
    slot_at s (p @ [i]) = (if unat i < length xs then Some (xs ! unat i) else None)"
  by (simp add: slot_at_append)

text \<open>The step of the loop that resizes.\<close>

lemma resize_step:
  fixes s :: "('x, 'd, 'z) st"
  assumes wf: "store_wf L s" and v: "st_vars s v = Some var" and u: "slot_at (var_slot var) passed = Some (Slot_array xs)"
    and len: "length passed < var_level var" and small: "unat i < 2 ^ 31 - 1" and too_short: "length xs \<le> unat i"
  shows "\<exists>t. var_slot_resize (Slot_array xs) (length passed) (var_level var) (i + 1) s = Done t s
    \<and> grown L s (s\<lparr>st_vars := (st_vars s)(v \<mapsto> var\<lparr>var_slot := set_slot_at (var_slot var) passed t\<rparr>)\<rparr>)
    \<and> has_slot (s\<lparr>st_vars := (st_vars s)(v \<mapsto> var\<lparr>var_slot := set_slot_at (var_slot var) passed t\<rparr>)\<rparr>) v (passed @ [i])"
proof -
  let ?new = "replicate (Suc (unat i) - length xs) (var_slot_init (length passed + 1) (var_level var) :: 'x varslot_t)"
  let ?t = "Slot_array (xs @ ?new)"
  have "i \<noteq> - 1" using small by (auto simp: unsigned_minus_1_eq_mask mask_eq_exp_minus_1)
  then have resize: "var_slot_resize (Slot_array xs) (length passed) (var_level var) (i + 1) s = Done ?t s"
    using too_short small by (intro var_slot_resize_ok) simp_all
  have d: "slot_wf (var_level var) (var_slot var)" using store_wfD(1) [OF wf v] .
  obtain ys where ys: "Slot_array xs = Slot_array ys" "list_all (slot_wf (var_level var - Suc (length passed))) ys"
    using slot_array_at [OF d u len] .
  have "slot_wf (var_level var - Suc (length passed)) (var_slot_init (length passed + 1) (var_level var) :: 'x varslot_t)"
    using slot_wf_init [of "length passed + 1" "var_level var"] len by simp
  then have "list_all (slot_wf (var_level var - Suc (length passed))) (xs @ ?new)"
    using ys by (auto simp: list_all_iff)
  moreover have "length (xs @ ?new) < 2 ^ 31" using small too_short by simp
  moreover have "var_level var - length passed = Suc (var_level var - Suc (length passed))" using len by simp
  ultimately have "slot_wf (var_level var - length passed) ?t" by simp
  then have "slot_wf (var_level var) (set_slot_at (var_slot var) passed ?t)"
    using set_slot_at_wf [OF d] len by simp
  moreover have "slot_extends (Slot_array xs) ?t" by (rule slot_extends_Array) (simp_all add: nth_append)
  then have "slot_extends (var_slot var) (set_slot_at (var_slot var) passed ?t)"
    using slot_extends_set [OF u] by blast
  moreover have "slot_at (set_slot_at (var_slot var) passed ?t) passed = Some ?t"
    using slot_at_set_same [of "var_slot var" passed ?t] u by simp
  then have "\<exists>w. slot_at (set_slot_at (var_slot var) passed ?t) (passed @ [i]) = Some w"
    using too_short by (simp add: slot_at_snoc)
  ultimately show ?thesis
    using resize store_wf_put [OF wf v] store_extends_put [OF v]
    by (intro exI [of _ ?t]) (simp add: has_slot_def)
qed

lemma grow_levels_resize:
  assumes "st_vars s v = Some var" and "slot_at (var_slot var) passed = Some (Slot_array xs)" and "length xs \<le> unat i"
    and "var_slot_resize (Slot_array xs) (length passed) (var_level var) (i + 1) s = Done t s"
    and "clients (length passed) (s\<lparr>st_vars := (st_vars s)(v \<mapsto> var\<lparr>var_slot := set_slot_at (var_slot var) passed t\<rparr>)\<rparr>) = Done () s2"
  shows "grow_levels v clients passed (i # is) s = grow_levels v clients (passed @ [i]) is s2"
  using assms by (simp add: andthen_def)

lemma grow_levels_keep:
  assumes "st_vars s v = Some var" and "slot_at (var_slot var) (passed @ [i]) = Some u"
  shows "grow_levels v clients passed (i # is) s = grow_levels v clients (passed @ [i]) is s"
proof -
  obtain xs where "slot_at (var_slot var) passed = Some (Slot_array xs)" "unat i < length xs"
  proof (cases "slot_at (var_slot var) passed")
    case (Some w)
    then show ?thesis using that assms(2) by (cases w) (auto simp: slot_at_append split: if_splits)
  qed (use assms(2) in \<open>simp add: slot_at_append\<close>)
  then show ?thesis using assms(1) by (simp add: andthen_def)
qed

lemma grow_levels_prefix:
  assumes v: "st_vars s v = Some var" and "slot_at (var_slot var) (p @ q) = Some u"
  shows "grow_levels v clients p (q @ r) s = grow_levels v clients (p @ q) r s"
  using assms(2)
proof (induction q arbitrary: p)
  case (Cons j q)
  have at: "slot_at (var_slot var) ((p @ [j]) @ q) = Some u" using Cons.prems by simp
  then obtain w where w: "slot_at (var_slot var) (p @ [j]) = Some w"
    unfolding slot_at_append [of _ "p @ [j]"] by (auto simp: bind_eq_Some_conv)
  show ?case using grow_levels_keep [OF v w] Cons.IH [OF at] by (simp del: grow_levels.simps)
qed simp

lemma grow_levels_ok:
  assumes "store_wf L s" and "st_vars s v = Some var" and "length passed + length is \<le> var_level var"
    and "slot_at (var_slot var) passed = Some u" and "small_indices is"
    and "\<And>k s1. k < length passed + length is \<Longrightarrow> grown L s s1 \<Longrightarrow> \<exists>s2. clients k s1 = Done () s2 \<and> grown L s1 s2"
  shows "\<exists>s'. grow_levels v clients passed is s = Done () s' \<and> grown L s s' \<and> has_slot s' v (passed @ is)"
  using assms
proof (induction "is" arbitrary: passed s var u)
  case Nil
  then show ?case by (auto simp: has_slot_def)
next
  case (Cons i "is")
  have len: "length passed < var_level var" using Cons.prems(3) by simp
  show ?case
  proof (cases "slot_at (var_slot var) (passed @ [i])")
    case (Some w)
    have "\<exists>s'. grow_levels v clients (passed @ [i]) is s = Done () s' \<and> grown L s s' \<and> has_slot s' v ((passed @ [i]) @ is)"
      by (rule Cons.IH [OF Cons.prems(1,2) _ Some]) (use Cons.prems(3,5,6) in auto)
    then show ?thesis using grow_levels_keep [OF Cons.prems(2) Some] by simp
  next
    case None
    obtain xs where xs: "u = Slot_array xs"
      using slot_array_at [OF store_wfD(1) [OF Cons.prems(1,2)] Cons.prems(4) len] .
    then have short: "length xs \<le> unat i" and at: "slot_at (var_slot var) passed = Some (Slot_array xs)"
      using None Cons.prems(4) by (auto simp: slot_at_append split: if_splits)
    obtain t where t: "var_slot_resize (Slot_array xs) (length passed) (var_level var) (i + 1) s = Done t s"
      "grown L s (s\<lparr>st_vars := (st_vars s)(v \<mapsto> var\<lparr>var_slot := set_slot_at (var_slot var) passed t\<rparr>)\<rparr>)"
      "has_slot (s\<lparr>st_vars := (st_vars s)(v \<mapsto> var\<lparr>var_slot := set_slot_at (var_slot var) passed t\<rparr>)\<rparr>) v (passed @ [i])"
      using resize_step [OF Cons.prems(1,2) at len _ short] Cons.prems(5) by auto
    obtain s2 where s2: "clients (length passed) (s\<lparr>st_vars := (st_vars s)(v \<mapsto> var\<lparr>var_slot := set_slot_at (var_slot var) passed t\<rparr>)\<rparr>) = Done () s2"
      "grown L (s\<lparr>st_vars := (st_vars s)(v \<mapsto> var\<lparr>var_slot := set_slot_at (var_slot var) passed t\<rparr>)\<rparr>) s2"
      using Cons.prems(6) [OF _ t(2), of "length passed"] by auto
    have ext: "store_extends s s2" using t(2) s2(2) store_extends_trans by blast
    obtain y where y: "st_vars s2 v = Some (var\<lparr>var_slot := y\<rparr>)" using store_extendsD [OF ext Cons.prems(2)] by blast
    have "has_slot s2 v (passed @ [i])" using t(3) s2(2) has_slot_extends by blast
    then obtain w where w: "slot_at y (passed @ [i]) = Some w" using y by (auto simp: has_slot_def)
    have "\<exists>s'. grow_levels v clients (passed @ [i]) is s2 = Done () s' \<and> grown L s2 s' \<and> has_slot s' v ((passed @ [i]) @ is)"
    proof (rule Cons.IH)
      show "store_wf L s2" using s2(2) by blast
      show "st_vars s2 v = Some (var\<lparr>var_slot := y\<rparr>)" by (rule y)
      show "length (passed @ [i]) + length is \<le> var_level (var\<lparr>var_slot := y\<rparr>)" using Cons.prems(3) by simp
      show "slot_at (var_slot (var\<lparr>var_slot := y\<rparr>)) (passed @ [i]) = Some w" using w by simp
      show "small_indices is" using Cons.prems(5) by simp
      show "\<exists>s3. clients k s1 = Done () s3 \<and> grown L s1 s3" if "k < length (passed @ [i]) + length is" "grown L s2 s1" for k s1
        using Cons.prems(6) [of k s1] that store_extends_trans [OF ext, of s1] by simp
    qed
    then obtain s' where s': "grow_levels v clients (passed @ [i]) is s2 = Done () s'" "grown L s2 s'"
      "has_slot s' v ((passed @ [i]) @ is)" by blast
    have "grow_levels v clients passed (i # is) s = Done () s'"
      using grow_levels_resize [where clients = clients, OF Cons.prems(2) at short t(1) s2(1)] s'(1) by simp
    then show ?thesis using s'(2,3) ext store_extends_trans by auto
  qed
qed

section \<open>The arrays of a bound grow together\<close>

lemma expand_each_ok:
  assumes "store_wf L s" and "\<forall>c \<in> set cs. \<exists>y. st_vars s c = Some y \<and> var_level y = l"
    and "\<And>c s1. grown L s s1 \<Longrightarrow> c \<in> set cs \<Longrightarrow>
      \<exists>s2. env_slot_expand E c is s1 = Done () s2 \<and> grown L s1 s2 \<and> has_slot s2 c (take l is)"
  shows "\<exists>s'. expand_each E is cs s = Done () s' \<and> grown L s s' \<and> (\<forall>c \<in> set cs. has_slot s' c (take l is))"
  using assms
proof (induction cs arbitrary: s)
  case (Cons c cs)
  obtain s1 where s1: "env_slot_expand E c is s = Done () s1" "grown L s s1" "has_slot s1 c (take l is)"
    using Cons.prems(3) [of s c] Cons.prems(1) by auto
  have "\<exists>s'. expand_each E is cs s1 = Done () s' \<and> grown L s1 s' \<and> (\<forall>c \<in> set cs. has_slot s' c (take l is))"
  proof (rule Cons.IH)
    show "store_wf L s1" using s1(2) by blast
    show "\<forall>c \<in> set cs. \<exists>y. st_vars s1 c = Some y \<and> var_level y = l"
      using Cons.prems(2) store_extendsD [of s s1] s1(2) by fastforce
    show "\<exists>s3. env_slot_expand E d is s2 = Done () s3 \<and> grown L s2 s3 \<and> has_slot s3 d (take l is)"
      if "grown L s1 s2" "d \<in> set cs" for d s2
      using Cons.prems(3) [of s2 d] that s1(2) store_extends_trans by auto
  qed
  then obtain s' where s': "expand_each E is cs s1 = Done () s'" "grown L s1 s'" "\<forall>c \<in> set cs. has_slot s' c (take l is)"
    by blast
  have "has_slot s' c (take l is)" using s1(3) s'(2) has_slot_extends by blast
  then show ?case
    using s1(1,2) s' store_extends_trans by (intro exI [of _ s']) (auto simp: andthen_def)
qed simp

lemma expand_ok:
  assumes "store_wf L s" and "st_vars s v = Some var" and "small_indices is" and "L < n + var_level var"
  shows "\<exists>s'. var_slot_expand (var_ops B n) v is s = Done () s' \<and> grown L s s' \<and> has_slot s' v (take (var_level var) is)"
  using assms
proof (induction n arbitrary: s v var)
  case 0
  then show ?case using store_wfD(2) [OF 0(1,2)] by simp
next
  case (Suc n)
  let ?E = "var_ops B (Suc n)"
  have clients: "\<exists>s2. var_slot_expand_clients ?E v is s1 = Done () s2 \<and> grown L s1 s2" if s1: "grown L s s1" for s1
  proof -
    obtain y where y: "st_vars s1 v = Some (var\<lparr>var_slot := y\<rparr>)" using store_extendsD [OF _ Suc.prems(2)] s1 by blast
    have cs: "\<forall>c \<in> set (var_n_clients var). \<exists>x. st_vars s1 c = Some x \<and> var_level x = Suc (var_level var)"
      using store_wfD(3) [OF _ y, of L] s1 by simp
    have "\<exists>s2. expand_each ?E is (var_n_clients var) s1 = Done () s2 \<and> grown L s1 s2
        \<and> (\<forall>c \<in> set (var_n_clients var). has_slot s2 c (take (Suc (var_level var)) is))"
    proof (rule expand_each_ok [OF _ cs])
      show "store_wf L s1" using s1 by blast
      fix c s2
      assume s2: "grown L s1 s2" and c: "c \<in> set (var_n_clients var)"
      obtain x where x: "st_vars s1 c = Some x" "var_level x = Suc (var_level var)" using cs c by blast
      obtain z where z: "st_vars s2 c = Some (x\<lparr>var_slot := z\<rparr>)" using store_extendsD [OF _ x(1)] s2 by blast
      have "L < n + var_level (x\<lparr>var_slot := z\<rparr>)" using Suc.prems(4) x(2) by simp
      then show "\<exists>s3. env_slot_expand ?E c is s2 = Done () s3 \<and> grown L s2 s3 \<and> has_slot s3 c (take (Suc (var_level var)) is)"
        using Suc.IH [OF _ z Suc.prems(3)] s2 x(2) by auto
    qed
    then show ?thesis using y by (auto simp: var_slot_expand_clients_def andthen_def)
  qed
  have "\<exists>s'. grow_levels v (\<lambda>level. var_slot_expand_clients ?E v is) [] (take (var_level var) is) s = Done () s'
      \<and> grown L s s' \<and> has_slot s' v ([] @ take (var_level var) is)"
    by (rule grow_levels_ok [OF Suc.prems(1,2), where u = "var_slot var"])
       (use Suc.prems(3) clients in \<open>auto intro: small_indices_take\<close>)
  then show ?case using Suc.prems(2) by (simp add: var_slot_expand_def andthen_def del: var_ops.simps)
qed

lemma expand_clients_ok:
  assumes wf: "store_wf L s" and v: "st_vars s v = Some var" and small: "small_indices is" and fuel: "L < n"
  shows "\<exists>s'. var_slot_expand_clients (var_ops B n) v is s = Done () s' \<and> grown L s s'
    \<and> (\<forall>c \<in> set (var_n_clients var). has_slot s' c (take (Suc (var_level var)) is))"
proof -
  obtain m where n: "n = Suc m" using fuel by (cases n) auto
  have cs: "\<forall>c \<in> set (var_n_clients var). \<exists>x. st_vars s c = Some x \<and> var_level x = Suc (var_level var)"
    using store_wfD(3) [OF wf v] by blast
  have "\<exists>s2. expand_each (var_ops B n) is (var_n_clients var) s = Done () s2 \<and> grown L s s2
      \<and> (\<forall>c \<in> set (var_n_clients var). has_slot s2 c (take (Suc (var_level var)) is))"
  proof (rule expand_each_ok [OF wf cs])
    fix c s2
    assume s2: "grown L s s2" and c: "c \<in> set (var_n_clients var)"
    obtain x where x: "st_vars s c = Some x" "var_level x = Suc (var_level var)" using cs c by blast
    obtain z where z: "st_vars s2 c = Some (x\<lparr>var_slot := z\<rparr>)" using store_extendsD [OF _ x(1)] s2 by blast
    have "L < m + var_level (x\<lparr>var_slot := z\<rparr>)" using fuel n x(2) by simp
    then show "\<exists>s3. env_slot_expand (var_ops B n) c is s2 = Done () s3 \<and> grown L s2 s3 \<and> has_slot s3 c (take (Suc (var_level var)) is)"
      using expand_ok [OF _ z small] s2 x(2) n by auto
  qed
  then show ?thesis using v by (simp add: var_slot_expand_clients_def andthen_def)
qed

section \<open>Getting or creating a slot\<close>

lemma bound_variables_ok:
  assumes "store_wf L s" and "st_vars s v = Some var"
  shows "\<exists>bs. bound_variables (var_level var) (var_n var) acc s = Done (bs @ acc) s \<and> length bs = var_level var
    \<and> (\<forall>k < var_level var. \<exists>y. st_vars s (bs ! k) = Some y \<and> var_level y = k)
    \<and> (0 < var_level var \<longrightarrow> Some (last bs) = var_n var)"
  using assms(2)
proof (induction "var_level var" arbitrary: v var acc)
  case (Suc k)
  have lev: "var_level var = Suc k" using Suc(2) by simp
  obtain b y where b: "var_n var = Some b" "st_vars s b = Some y" "var_level y = k"
    using store_wfD(4) [OF assms(1) Suc(3)] lev by auto
  obtain bs where bs: "bound_variables k (var_n y) (b # acc) s = Done (bs @ b # acc) s" "length bs = k"
    "\<forall>j < k. \<exists>z. st_vars s (bs ! j) = Some z \<and> var_level z = j"
    using Suc(1) [of y b "b # acc"] b(2,3) by auto
  have "bound_variables (var_level var) (var_n var) acc s = Done ((bs @ [b]) @ acc) s"
    using b bs(1) by (simp add: lev andthen_def)
  moreover have "\<exists>z. st_vars s ((bs @ [b]) ! j) = Some z \<and> var_level z = j" if "j < Suc k" for j
    using that bs(2,3) b(2,3) by (cases "j = k") (auto simp: nth_append)
  ultimately show ?case
    using bs(2) b(1) lev by (intro exI [of _ "bs @ [b]"]) auto
qed simp

lemma get_or_create_grows:
  assumes wf: "store_wf L s" and v: "st_vars s v = Some var" and len: "length is \<le> var_level var"
    and small: "small_indices is" and fuel: "L < n"
    and bs: "\<forall>k < var_level var. \<exists>y. st_vars s (bs ! k) = Some y \<and> var_level y = k"
  shows "\<exists>s'. grow_levels v (\<lambda>level. var_slot_expand_clients (var_ops B n) (bs ! level) (take (level + 1) is)) [] is s = Done () s'
    \<and> grown L s s' \<and> has_slot s' v ([] @ is)"
proof (rule grow_levels_ok [OF wf v _ _ small, where u = "var_slot var"])
  fix k s1
  assume k: "k < length [] + length is" and s1: "grown L s s1"
  then have "k < var_level var" using len by simp
  then obtain y where y: "st_vars s (bs ! k) = Some y" using bs by blast
  obtain z where z: "st_vars s1 (bs ! k) = Some (y\<lparr>var_slot := z\<rparr>)" using store_extendsD [OF _ y] s1 by blast
  show "\<exists>s2. var_slot_expand_clients (var_ops B n) (bs ! k) (take (k + 1) is) s1 = Done () s2 \<and> grown L s1 s2"
    using expand_clients_ok [OF _ z small_indices_take [OF small] fuel] s1 by blast
qed (use len in simp_all)

lemma get_or_create_unfold:
  assumes "st_vars s v = Some var" and "length is \<le> var_level var"
    and "bound_variables (var_level var) (var_n var) [] s = Done bs s"
    and "grow_levels v (\<lambda>level. var_slot_expand_clients E (bs ! level) (take (level + 1) is)) [] is s = Done () s'"
    and "store_extends s s'" and "has_slot s' v is"
  shows "\<exists>t x. var_slot_get_or_create E \<lparr>inst_var = v, indices = is\<rparr> s = Done t s'
    \<and> st_vars s' v = Some x \<and> slot_at (var_slot x) is = Some t"
proof -
  obtain y where y: "st_vars s' v = Some (var\<lparr>var_slot := y\<rparr>)" using store_extendsD [OF assms(5,1)] by blast
  then obtain t where t: "slot_at y is = Some t" using assms(6) by (auto simp: has_slot_def)
  show ?thesis using assms(1-4) y t by (simp add: var_slot_get_or_create_def andthen_def)
qed

section \<open>Properties\<close>

text \<open>C4: asking for the slot of an instance comes back, with a bound on the nested calls that is the number of
  levels, and yields the slot under the indices. The variables stay well-formed and keep every slot they had,
  with its contents.\<close>

theorem get_or_create_extends:
  assumes wf: "store_wf L s" and v: "st_vars s v = Some var" and len: "length is \<le> var_level var"
    and small: "small_indices is" and fuel: "L < n"
  shows "\<exists>t s' x. var_slot_get_or_create (var_ops B n) \<lparr>inst_var = v, indices = is\<rparr> s = Done t s'
    \<and> store_wf L s' \<and> store_extends s s' \<and> st_vars s' v = Some x \<and> slot_at (var_slot x) is = Some t"
proof -
  obtain bs where bs: "bound_variables (var_level var) (var_n var) [] s = Done bs s"
    "\<forall>k < var_level var. \<exists>y. st_vars s (bs ! k) = Some y \<and> var_level y = k"
    using bound_variables_ok [OF wf v, of "[]"] by auto
  obtain s' where s': "grow_levels v (\<lambda>level. var_slot_expand_clients (var_ops B n) (bs ! level) (take (level + 1) is)) [] is s = Done () s'"
    "grown L s s'" "has_slot s' v is"
    using get_or_create_grows [OF wf v len small fuel bs(2)] by auto
  show ?thesis using get_or_create_unfold [OF v len bs(1) s'(1) _ s'(3)] s'(2) by blast
qed

definition net_store :: "(nat, nat) var_store" where
  "net_store = \<lparr>st_vars = [0 \<mapsto> (plain_var ''NET_N'' 0)\<lparr>var_n_clients := [1, 2]\<rparr>,
      1 \<mapsto> (plain_var ''NET_%_A'' 1)\<lparr>var_n := Some 0\<rparr>, 2 \<mapsto> (plain_var ''NET_%_B'' 1)\<lparr>var_n := Some 0\<rparr>]\<rparr>"

lemma net_store_vars:
  "st_vars net_store 0 = Some ((plain_var ''NET_N'' 0)\<lparr>var_n_clients := [1, 2]\<rparr>)"
  "st_vars net_store 1 = Some ((plain_var ''NET_%_A'' 1)\<lparr>var_n := Some 0\<rparr>)"
  "st_vars net_store 2 = Some ((plain_var ''NET_%_B'' 1)\<lparr>var_n := Some 0\<rparr>)"
  by (simp_all add: net_store_def)

lemma net_store_wf: "store_wf 1 net_store"
  unfolding store_wf_def
proof (intro allI impI)
  fix v x
  assume "st_vars net_store v = Some x"
  then consider "v = 0" "x = (plain_var ''NET_N'' 0)\<lparr>var_n_clients := [1, 2]\<rparr>"
    | "v = 1" "x = (plain_var ''NET_%_A'' 1)\<lparr>var_n := Some 0\<rparr>"
    | "v = 2" "x = (plain_var ''NET_%_B'' 1)\<lparr>var_n := Some 0\<rparr>"
    by (auto simp: net_store_def split: if_splits)
  then show "slot_wf (var_level x) (var_slot x) \<and> var_level x \<le> 1
     \<and> (\<forall>c \<in> set (var_n_clients x). \<exists>y. st_vars net_store c = Some y \<and> var_level y = Suc (var_level x))
     \<and> (0 < var_level x \<longrightarrow> (\<exists>n y. var_n x = Some n \<and> st_vars net_store n = Some y \<and> Suc (var_level y) = var_level x))"
    by cases (simp_all add: net_store_vars net_store_vars(2) [unfolded One_nat_def] plain_var_def var_slot_init_def)
qed

theorem get_or_create_extends_witness:
  "\<exists>t s' x. var_slot_get_or_create (var_ops plain_env 2) \<lparr>inst_var = 1, indices = [4]\<rparr> net_store = Done t s'
    \<and> store_wf 1 s' \<and> store_extends net_store s' \<and> st_vars s' 1 = Some x \<and> slot_at (var_slot x) [4] = Some t"
  by (rule get_or_create_extends [OF net_store_wf net_store_vars(2)]) (simp_all add: plain_var_def)

text \<open>C20: when the innermost array of a variable has to grow to hold an index, every array that shares the bound
  variable has a slot under the same indices afterwards.\<close>

theorem arrays_share_bound:
  assumes wf: "store_wf L s" and v: "st_vars s v = Some var" and len: "var_level var = Suc (length is)"
    and small: "small_indices (is @ [i])" and fuel: "L < n"
    and row: "slot_at (var_slot var) is = Some u" and missing: "slot_at (var_slot var) (is @ [i]) = None"
    and bound: "var_n var = Some b" "st_vars s b = Some bvar"
  shows "\<exists>t s'. var_slot_get_or_create (var_ops B n) \<lparr>inst_var = v, indices = is @ [i]\<rparr> s = Done t s'
    \<and> (\<forall>c \<in> set (var_n_clients bvar). \<exists>x w. st_vars s' c = Some x \<and> slot_at (var_slot x) (is @ [i]) = Some w)"
proof -
  obtain bs where bs: "bound_variables (var_level var) (var_n var) [] s = Done bs s" "length bs = var_level var"
    "\<forall>k < var_level var. \<exists>y. st_vars s (bs ! k) = Some y \<and> var_level y = k" "Some (last bs) = var_n var"
    using bound_variables_ok [OF wf v, of "[]"] len by auto
  have b: "bs ! length is = b" using bs(2,4) bound(1) len by (metis diff_Suc_1 last_conv_nth length_0_conv nat.simps(3) option.inject)
  have lb: "var_level bvar = length is" using bs(3) len b bound(2) by auto
  let ?cl = "\<lambda>level. var_slot_expand_clients (var_ops B n) (bs ! level) (take (level + 1) (is @ [i]))"
  obtain xs where xs: "u = Slot_array xs"
    using slot_array_at [OF store_wfD(1) [OF wf v] row] len by auto
  then have short: "length xs \<le> unat i" and at: "slot_at (var_slot var) is = Some (Slot_array xs)"
    using row missing by (auto simp: slot_at_append split: if_splits)
  obtain t where t: "var_slot_resize (Slot_array xs) (length is) (var_level var) (i + 1) s = Done t s"
    "grown L s (s\<lparr>st_vars := (st_vars s)(v \<mapsto> var\<lparr>var_slot := set_slot_at (var_slot var) is t\<rparr>)\<rparr>)"
    "has_slot (s\<lparr>st_vars := (st_vars s)(v \<mapsto> var\<lparr>var_slot := set_slot_at (var_slot var) is t\<rparr>)\<rparr>) v (is @ [i])"
    using resize_step [OF wf v at _ _ short] len small by (auto simp: small_indices_def)
  let ?s1 = "s\<lparr>st_vars := (st_vars s)(v \<mapsto> var\<lparr>var_slot := set_slot_at (var_slot var) is t\<rparr>)\<rparr>"
  have ext1: "store_extends s ?s1" and wf1: "store_wf L ?s1" using t(2) by blast+
  obtain z where z: "st_vars ?s1 b = Some (bvar\<lparr>var_slot := z\<rparr>)" using store_extendsD [OF ext1 bound(2)] by blast
  obtain s2 where s2: "?cl (length is) ?s1 = Done () s2" "grown L ?s1 s2"
    "\<forall>c \<in> set (var_n_clients bvar). has_slot s2 c (is @ [i])"
    using expand_clients_ok [OF wf1 z small fuel] b lb by auto
  have g: "grow_levels v ?cl [] (is @ [i]) s = Done () s2"
    using grow_levels_prefix [where p = "[]" and q = "is" and clients = ?cl, OF v] row grow_levels_resize [where clients = ?cl, OF v at short t(1) s2(1)] by (simp del: grow_levels.simps(2))
  have e: "store_extends s s2" using ext1 s2(2) store_extends_trans by blast
  have h: "has_slot s2 v (is @ [i])" using t(3) s2(2) has_slot_extends by blast
  have "length (is @ [i]) \<le> var_level var" using len by simp
  from get_or_create_unfold [OF v this bs(1) g e h]
  obtain w where "var_slot_get_or_create (var_ops B n) \<lparr>inst_var = v, indices = is @ [i]\<rparr> s = Done w s2" by blast
  then show ?thesis using s2(3) by (auto simp: has_slot_def)
qed

theorem arrays_share_bound_witness:
  "\<exists>t s'. var_slot_get_or_create (var_ops plain_env 2) \<lparr>inst_var = 1, indices = [] @ [4]\<rparr> net_store = Done t s'
    \<and> (\<exists>x w. st_vars s' 2 = Some x \<and> slot_at (var_slot x) ([] @ [4]) = Some w)"
proof -
  have "var_level ((plain_var ''NET_%_A'' 1 :: (nat, nat) var_t)\<lparr>var_n := Some 0\<rparr>) = Suc (length ([] :: u32 list))"
    "small_indices ([] @ [4])" "(1 :: nat) < 2"
    "slot_at (var_slot ((plain_var ''NET_%_A'' 1 :: (nat, nat) var_t)\<lparr>var_n := Some 0\<rparr>)) [] = Some (Slot_array [])"
    "slot_at (var_slot ((plain_var ''NET_%_A'' 1 :: (nat, nat) var_t)\<lparr>var_n := Some 0\<rparr>)) ([] @ [4]) = None"
    "var_n ((plain_var ''NET_%_A'' 1 :: (nat, nat) var_t)\<lparr>var_n := Some 0\<rparr>) = Some 0"
    by (simp_all add: plain_var_def var_slot_init_def)
  from arrays_share_bound [OF net_store_wf net_store_vars(2) this net_store_vars(1), of plain_env]
  show ?thesis by auto
qed

text \<open>C35: an index of zero in a name is read as the largest unsigned number; writing to it makes the new number of
  slots wrap to zero, and the loop that initialises the new slots leaves the array.\<close>

theorem index_zero_write_fails:
  fixes s :: "('x, 'd, 'z) st"
  assumes v: "st_vars s v = Some var" and level: "var_level var = 1" and prio: "var_priority var \<le> priority"
    and slots: "var_slot var = Slot_array xs" "xs \<noteq> []" "length xs < 2 ^ 31"
    and bound: "var_n var = Some b" "st_vars s b = Some bvar" "var_level bvar = 0"
    and bval: "env_try_get_value E \<lparr>inst_var = b, indices = []\<rparr> s = Done (Some n) s"
      "var_value_convert_to_integer n = Some k" "0 \<le> sint k"
    and word: "name_word w"
  shows "split_indices (w @ ''_0'') = (w @ ''_%'', [- 1])
    \<and> var_instance_set_value E \<lparr>inst_var = v, indices = [- 1]\<rparr> (Some text_value) extra mode priority s = Failed Invalid_access"
proof
  have "CHR ''_'' \<notin> set w" using word by (simp add: name_word_def component_name_def)
  moreover have "split_indices ''_0'' = (''_%'', [- 1])" by code_simp
  ultimately show "split_indices (w @ ''_0'') = (w @ ''_%'', [- 1])" by (simp add: split_indices_word)
  have "bound_instance b \<lparr>inst_var = v, indices = [- 1]\<rparr> s = Done \<lparr>inst_var = b, indices = []\<rparr> s"
    using bound by (simp add: bound_instance_def andthen_def)
  then have update: "var_update_array_bound E \<lparr>inst_var = v, indices = [- 1]\<rparr> b 0 s = Done True s"
    using bval by (simp add: var_update_array_bound_def andthen_def)
  have "var_slot_resize (Slot_array xs) 0 (Suc 0) 0 s = Failed Invalid_access"
    using var_slot_resize_wrap [of xs 0 "Suc 0" s] slots by simp
  moreover have "length xs \<le> unat (- 1 :: u32)"
    using slots(3) by (simp add: unsigned_minus_1_eq_mask mask_eq_exp_minus_1)
  ultimately have "var_slot_get_or_create E \<lparr>inst_var = v, indices = [- 1]\<rparr> s = Failed Invalid_access"
    using v level bound slots by (simp add: var_slot_get_or_create_def andthen_def)
  then have "var_instance_get_slot_for_writing E \<lparr>inst_var = v, indices = [- 1]\<rparr> mode priority False s = Failed Invalid_access"
    using v prio level bound(1) update
    by (auto simp: var_instance_get_slot_for_writing_def andthen_def)
  then show "var_instance_set_value E \<lparr>inst_var = v, indices = [- 1]\<rparr> (Some text_value) extra mode priority s = Failed Invalid_access"
    using v level by (simp add: var_instance_set_value_def var_instance_do_set_value_def andthen_def)
qed

theorem index_zero_write_fails_witness:
  "split_indices (''HOST'' @ ''_0'') = (''HOST'' @ ''_%'', [- 1])
   \<and> var_instance_set_value (plain_env\<lparr>env_try_get_value := \<lambda>inst. ret (Some ''1'')\<rparr>) \<lparr>inst_var = 1, indices = [- 1]\<rparr>
       (Some ''router'') None VAR_ACCESS_STRONG VAR_PRIORITY_CONFIGURATION
       \<lparr>st_vars = [0 \<mapsto> plain_var ''HOST_N'' 0, 1 \<mapsto> (plain_var ''HOST_%'' 1 :: (nat, nat) var_t)
          \<lparr>var_n := Some 0, var_slot := Slot_array [Slot_entry empty_entry]\<rparr>]\<rparr> = Failed Invalid_access"
proof (rule index_zero_write_fails [where b = 0 and n = "''1''" and k = 1 and xs = "[Slot_entry empty_entry]"
      and bvar = "plain_var ''HOST_N'' 0" and var = "(plain_var ''HOST_%'' 1 :: (nat, nat) var_t)
          \<lparr>var_n := Some 0, var_slot := Slot_array [Slot_entry empty_entry]\<rparr>"])
  show "var_value_convert_to_integer ''1'' = Some 1" by code_simp
  show "name_word ''HOST''" by (simp add: name_word_def component_name_def VAR_PLACEHOLDER_def isdigit_def)
qed (simp_all add: plain_var_def)

end
