(* ===== verification/Type_Regex.thy ===== *)
theory Type_Regex
  imports Var_Store
begin

text \<open>
  The objects of variable types and the expansion of their regular expressions: \<open>vartype/core.h\<close>,
  \<open>vartype/regex_part.c\<close>, \<open>vartype/extension.c\<close> and \<open>vartype_get_regex\<close> of \<open>vartype/core.c\<close>. An expression is
  a list of parts, strings and references to other types, the last part first as in the linked list of the code.
  Extensions of a type are addressed by the type and their position. The condition of an extension is evaluated
  in the environment of the variables. The compiled form of a regular expression is a type parameter.
\<close>

section \<open>State\<close>

datatype vartype_regex_part_t = VARTYPE_EXPR_STRING c_string | VARTYPE_EXPR_REF vartype_id

record vartype_extension_t =
  ext_expr :: "vartype_regex_part_t list"
  ext_condition :: expr_t
  ext_valid :: bool
  ext_error_msg :: c_string
  ext_comment :: c_string
  ext_location :: location_t

record 'r vartype_compiled_state_t =
  cs_regex :: 'r
  complete_error_msg :: c_string
  complete_comment :: c_string

record 'r vartype_t =
  vt_name :: "c_string option"
  vt_expr :: "vartype_regex_part_t list option"
  vt_error_msg :: c_string
  vt_comment :: c_string
  vt_location :: location_t
  compiled_state :: "'r vartype_compiled_state_t option"
  expansion_in_progress :: bool
  vt_extensions :: "vartype_extension_t list"
  vt_temporary :: bool
  vt_predefined :: bool
  vt_incomplete :: bool

record ('x, 'd, 'r) type_store = "('x, 'd) var_store" +
  ts_packages :: package_store
  ts_types :: "vartype_id \<Rightarrow> 'r vartype_t option"
  ts_next :: vartype_id
  vartypes :: "vartype_id name_map"
  anon_vartypes :: "vartype_id array_t"

type_synonym ('x, 'd, 'r, 'z) ts = "('x, 'd, 'r, 'z) type_store_scheme"
type_synonym ('x, 'd, 'r, 'z) tenv = "(('x, 'd, 'r, 'z) ts, 'x) var_env"

definition get_type :: "vartype_id \<Rightarrow> (('x, 'd, 'r, 'z) ts, 'r vartype_t) action" where
  "get_type t = andthen get_state (\<lambda>s. deref (ts_types s t))"

definition put_type :: "vartype_id \<Rightarrow> 'r vartype_t \<Rightarrow> (('x, 'd, 'r, 'z) ts, unit) action" where
  "put_type t ty = andthen get_state (\<lambda>s. put_state (s\<lparr>ts_types := (ts_types s)(t \<mapsto> ty)\<rparr>))"

definition modify_type :: "vartype_id \<Rightarrow> ('r vartype_t \<Rightarrow> 'r vartype_t) \<Rightarrow> (('x, 'd, 'r, 'z) ts, unit) action" where
  "modify_type t f = andthen (get_type t) (\<lambda>ty. put_type t (f ty))"

definition get_extension :: "vartype_id \<Rightarrow> nat \<Rightarrow> (('x, 'd, 'r, 'z) ts, vartype_extension_t) action" where
  "get_extension t i =
     andthen (get_type t) (\<lambda>ty. if i < length (vt_extensions ty) then ret (vt_extensions ty ! i) else raise Invalid_access)"

definition modify_extension ::
  "vartype_id \<Rightarrow> nat \<Rightarrow> (vartype_extension_t \<Rightarrow> vartype_extension_t) \<Rightarrow> (('x, 'd, 'r, 'z) ts, unit) action" where
  "modify_extension t i f =
     andthen (get_extension t i) (\<lambda>x. modify_type t (\<lambda>ty. ty\<lparr>vt_extensions := (vt_extensions ty)[i := f x]\<rparr>))"

lemma get_type_apply [simp]:
  "get_type t s = (case ts_types s t of None \<Rightarrow> Failed Invalid_access | Some ty \<Rightarrow> Done ty s)"
  by (simp add: get_type_def andthen_def)

lemma put_type_apply [simp]: "put_type t ty s = Done () (s\<lparr>ts_types := (ts_types s)(t \<mapsto> ty)\<rparr>)"
  by (simp add: put_type_def andthen_def)

lemma modify_type_Done [simp]:
  "ts_types s t = Some ty \<Longrightarrow> modify_type t f s = Done () (s\<lparr>ts_types := (ts_types s)(t \<mapsto> f ty)\<rparr>)"
  by (simp add: modify_type_def)

lemma get_extension_Done [simp]:
  "ts_types s t = Some ty \<Longrightarrow> i < length (vt_extensions ty) \<Longrightarrow> get_extension t i s = Done (vt_extensions ty ! i) s"
  by (simp add: get_extension_def)

section \<open>Assembling a regular expression\<close>

definition VARTYPE_REF_START :: c_string where "VARTYPE_REF_START = ''(RE:''"
definition VARTYPE_REF_END :: c_string where "VARTYPE_REF_END = '')''"

text \<open>\<open>get_regex\<close> is \<open>vartype_get_regex\<close> with \<open>expand\<close> set, which calls this function again.\<close>

fun vartype_regex_assemble ::
  "(vartype_id \<Rightarrow> (('x, 'd, 'r, 'z) ts, c_string option) action) \<Rightarrow> bool \<Rightarrow> vartype_regex_part_t list \<Rightarrow>
   (('x, 'd, 'r, 'z) ts, c_string option) action" where
  "vartype_regex_assemble get_regex expand [] = raise Invalid_access"
| "vartype_regex_assemble get_regex expand (p # ps) =
     andthen
       (if ps \<noteq> [] then andthen (vartype_regex_assemble get_regex expand ps) (\<lambda>result. ret (result \<noteq> None, result))
        else ret (True, None)) (\<lambda>(go_on, result).
       if \<not> go_on then ret None
       else
         (case p of
            VARTYPE_EXPR_STRING str \<Rightarrow> ret (strcat_save result (Some str))
          | VARTYPE_EXPR_REF t \<Rightarrow>
              if expand then
                andthen (get_regex t) (\<lambda>regex.
                  case regex of
                    Some r \<Rightarrow>
                      ret (strcat_save (strcat_save (strcat_save result (Some ''('')) (Some r)) (Some '')''))
                  | None \<Rightarrow> ret None)
              else
                andthen (get_type t) (\<lambda>ty.
                  ret (strcat_save (strcat_save (strcat_save result (Some VARTYPE_REF_START)) (vt_name ty))
                    (Some VARTYPE_REF_END)))))"

section \<open>Extensions\<close>

text \<open>The condition is resolved and checked in place; what was resolved before a failure stays resolved.\<close>

definition vartype_extension_validate_condition ::
  "('x, 'd, 'r, 'z) tenv \<Rightarrow> vartype_id \<Rightarrow> nat \<Rightarrow> (('x, 'd, 'r, 'z) ts, bool) action" where
  "vartype_extension_validate_condition E t i =
     andthen (get_extension t i) (\<lambda>x.
       if ext_valid x then ret True
       else
         andthen (expr_resolve_variable_expressions (env_create_from_string E) (var_expr_type E) (ext_condition x))
           (\<lambda>(ok, failed_ref, condition).
           andthen (modify_extension t i (\<lambda>x. x\<lparr>ext_condition := condition\<rparr>)) (\<lambda>_.
             if \<not> ok then ret False
             else
               andthen (expr_typecheck_expression condition) (\<lambda>(ok, error_expr, condition).
                 andthen (modify_extension t i (\<lambda>x. x\<lparr>ext_condition := condition\<rparr>)) (\<lambda>_.
                   if \<not> ok then ret False
                   else if expr_get_type condition \<noteq> EXPR_TYPE_BOOLEAN then ret False
                   else andthen (modify_extension t i (\<lambda>x. x\<lparr>ext_valid := True\<rparr>)) (\<lambda>_. ret True))))))"

text \<open>The test the three loops over the extensions share.\<close>

definition vartype_extension_enabled ::
  "('x, 'd, 'r, 'z) tenv \<Rightarrow> vartype_id \<Rightarrow> nat \<Rightarrow> (('x, 'd, 'r, 'z) ts, bool) action" where
  "vartype_extension_enabled E t i =
     andthen (vartype_extension_validate_condition E t i) (\<lambda>valid.
       if \<not> valid then ret False
       else
         andthen (get_extension t i) (\<lambda>x.
           andthen (expr_evaluate (expr_env.truncate E) None (ext_condition x)) (\<lambda>cond_result.
             andthen (expr_get_boolean_value cond_result) (\<lambda>r.
               ret (case r of Inl error_msg \<Rightarrow> False | Inr enabled \<Rightarrow> enabled)))))"

definition VARTYPE_EXT_PREFIX :: c_string where "VARTYPE_EXT_PREFIX = ''(''"
definition VARTYPE_EXT_INFIX :: c_string where "VARTYPE_EXT_INFIX = '')|(''"
definition VARTYPE_EXT_SUFFIX :: c_string where "VARTYPE_EXT_SUFFIX = '')''"

fun append_regex_loop ::
  "('x, 'd, 'r, 'z) tenv \<Rightarrow> (vartype_id \<Rightarrow> (('x, 'd, 'r, 'z) ts, c_string option) action) \<Rightarrow> bool \<Rightarrow> vartype_id \<Rightarrow>
   nat list \<Rightarrow> c_string \<Rightarrow> (('x, 'd, 'r, 'z) ts, c_string option) action" where
  "append_regex_loop E get_regex expand t [] expr = ret (Some expr)"
| "append_regex_loop E get_regex expand t (i # is) expr =
     andthen (vartype_extension_enabled E t i) (\<lambda>enabled.
       if \<not> enabled then append_regex_loop E get_regex expand t is expr
       else
         andthen (get_extension t i) (\<lambda>x.
           andthen (vartype_regex_assemble get_regex expand (ext_expr x)) (\<lambda>regex.
             case regex of
               None \<Rightarrow> ret None
             | Some r \<Rightarrow> append_regex_loop E get_regex expand t is
                 (VARTYPE_EXT_PREFIX @ expr @ VARTYPE_EXT_INFIX @ r @ VARTYPE_EXT_SUFFIX))))"

definition vartype_extension_append_regex ::
  "('x, 'd, 'r, 'z) tenv \<Rightarrow> (vartype_id \<Rightarrow> (('x, 'd, 'r, 'z) ts, c_string option) action) \<Rightarrow> bool \<Rightarrow> vartype_id \<Rightarrow>
   c_string \<Rightarrow> (('x, 'd, 'r, 'z) ts, c_string option) action" where
  "vartype_extension_append_regex E get_regex expand t expr =
     andthen (get_type t) (\<lambda>ty. append_regex_loop E get_regex expand t [0..<length (vt_extensions ty)] expr)"

fun assemble_texts ::
  "('x, 'd, 'r, 'z) tenv \<Rightarrow> (vartype_extension_t \<Rightarrow> c_string) \<Rightarrow> vartype_id \<Rightarrow> nat list \<Rightarrow> c_string \<Rightarrow>
   (('x, 'd, 'r, 'z) ts, c_string) action" where
  "assemble_texts E txt t [] result = ret result"
| "assemble_texts E txt t (i # is) result =
     andthen (vartype_extension_enabled E t i) (\<lambda>enabled.
       if \<not> enabled then assemble_texts E txt t is result
       else andthen (get_extension t i) (\<lambda>x. assemble_texts E txt t is (result @ txt x)))"

definition vartype_extension_assemble_error_message ::
  "('x, 'd, 'r, 'z) tenv \<Rightarrow> vartype_id \<Rightarrow> (('x, 'd, 'r, 'z) ts, c_string) action" where
  "vartype_extension_assemble_error_message E t =
     andthen (get_type t) (\<lambda>ty. assemble_texts E ext_error_msg t [0..<length (vt_extensions ty)] (vt_error_msg ty))"

definition vartype_extension_assemble_comment ::
  "('x, 'd, 'r, 'z) tenv \<Rightarrow> vartype_id \<Rightarrow> (('x, 'd, 'r, 'z) ts, c_string) action" where
  "vartype_extension_assemble_comment E t =
     andthen (get_type t) (\<lambda>ty.
       assemble_texts E (\<lambda>x. CHR 0x0A # ext_comment x) t [0..<length (vt_extensions ty)] (vt_comment ty))"

section \<open>Expansion with the detection of cycles\<close>

text \<open>The first argument bounds how deep types may refer to each other.\<close>

primrec vartype_get_regex ::
  "nat \<Rightarrow> ('x, 'd, 'r, 'z) tenv \<Rightarrow> vartype_id \<Rightarrow> bool \<Rightarrow> (('x, 'd, 'r, 'z) ts, c_string option) action" where
  "vartype_get_regex 0 E t expand = raise Out_of_fuel"
| "vartype_get_regex (Suc n) E t expand =
     andthen (get_type t) (\<lambda>ty.
       case vt_expr ty of
         None \<Rightarrow> ret None
       | Some expr \<Rightarrow>
           if expansion_in_progress ty then ret None
           else
             andthen (modify_type t (\<lambda>ty. ty\<lparr>expansion_in_progress := True\<rparr>)) (\<lambda>_.
             andthen (vartype_regex_assemble (\<lambda>u. vartype_get_regex n E u True) expand expr) (\<lambda>result.
             andthen
               (case result of
                  None \<Rightarrow> ret None
                | Some r \<Rightarrow> vartype_extension_append_regex E (\<lambda>u. vartype_get_regex n E u True) expand t r) (\<lambda>result.
             andthen (modify_type t (\<lambda>ty. ty\<lparr>expansion_in_progress := False\<rparr>)) (\<lambda>_. ret result)))))"

end
