(* ===== verification/Type_Expansion.thy ===== *)
theory Type_Expansion
  imports Type_Regex
begin

text \<open>
  What \<open>vartype_get_regex\<close> computes. The reference definition is an inductive one: a type has an
  expansion if all types its definition and its enabled extensions refer to have one. The theory shows that
  the code, which walks through the references and marks the types it is about to expand, finds exactly these
  expansions, reports all other types, needs no more nested calls than there are defined types, and takes
  its marks away again. What the code relies on when it evaluates the conditions of extensions is a locale.
\<close>

section \<open>The reference definition\<close>

type_synonym 'r type_table = "vartype_id \<Rightarrow> 'r vartype_t option"
type_synonym choice = "vartype_id \<Rightarrow> nat \<Rightarrow> bool"

fun part_text :: "(vartype_id \<Rightarrow> c_string) \<Rightarrow> vartype_regex_part_t \<Rightarrow> c_string" where
  "part_text f (VARTYPE_EXPR_STRING str) = str"
| "part_text f (VARTYPE_EXPR_REF u) = ''('' @ f u @ '')''"

fun part_refs :: "vartype_regex_part_t \<Rightarrow> vartype_id set" where
  "part_refs (VARTYPE_EXPR_STRING str) = {}"
| "part_refs (VARTYPE_EXPR_REF u) = {u}"

definition parts_text :: "(vartype_id \<Rightarrow> c_string) \<Rightarrow> vartype_regex_part_t list \<Rightarrow> c_string" where
  "parts_text f ps = concat (map (part_text f) (rev ps))"

definition parts_refs :: "vartype_regex_part_t list \<Rightarrow> vartype_id set" where
  "parts_refs ps = (\<Union>p\<in>set ps. part_refs p)"

definition join_extension :: "(vartype_id \<Rightarrow> c_string) \<Rightarrow> c_string \<Rightarrow> vartype_extension_t \<Rightarrow> c_string" where
  "join_extension f r x = ''('' @ r @ '')|('' @ parts_text f (ext_expr x) @ '')''"

definition enabled_extensions :: "choice \<Rightarrow> vartype_id \<Rightarrow> 'r vartype_t \<Rightarrow> vartype_extension_t list" where
  "enabled_extensions en t ty = map ((!) (vt_extensions ty)) (filter (en t) [0..<length (vt_extensions ty)])"

definition type_text ::
  "(vartype_id \<Rightarrow> c_string) \<Rightarrow> choice \<Rightarrow> vartype_id \<Rightarrow> 'r vartype_t \<Rightarrow> vartype_regex_part_t list \<Rightarrow> c_string" where
  "type_text f en t ty ps = foldl (join_extension f) (parts_text f ps) (enabled_extensions en t ty)"

definition type_refs :: "choice \<Rightarrow> vartype_id \<Rightarrow> 'r vartype_t \<Rightarrow> vartype_regex_part_t list \<Rightarrow> vartype_id set" where
  "type_refs en t ty ps = parts_refs ps \<union> (\<Union>x\<in>set (enabled_extensions en t ty). parts_refs (ext_expr x))"

inductive expands :: "'r type_table \<Rightarrow> choice \<Rightarrow> vartype_id \<Rightarrow> c_string \<Rightarrow> bool" for T en where
  expandsI: "T t = Some ty \<Longrightarrow> vt_expr ty = Some ps \<Longrightarrow> (\<forall>u\<in>type_refs en t ty ps. expands T en u (f u)) \<Longrightarrow>
    expands T en t (type_text f en t ty ps)"

inductive refers :: "'r type_table \<Rightarrow> choice \<Rightarrow> vartype_id \<Rightarrow> vartype_id \<Rightarrow> bool" for T en where
  "T t = Some ty \<Longrightarrow> vt_expr ty = Some ps \<Longrightarrow> u \<in> type_refs en t ty ps \<Longrightarrow> refers T en t u"

inductive_simps refers_iff: "refers T en t u"

definition defined_types :: "'r type_table \<Rightarrow> vartype_id set" where
  "defined_types T = {t. \<exists>ty ps. T t = Some ty \<and> vt_expr ty = Some ps}"

lemma parts_refs_simps [simp]: "parts_refs [] = {}" "parts_refs (p # ps) = part_refs p \<union> parts_refs ps"
  by (auto simp: parts_refs_def)

lemma parts_text_simps [simp]: "parts_text f [] = []" "parts_text f (p # ps) = parts_text f ps @ part_text f p"
  by (simp_all add: parts_text_def)

lemma parts_text_cong: "(\<And>u. u \<in> parts_refs ps \<Longrightarrow> f u = g u) \<Longrightarrow> parts_text f ps = parts_text g ps"
  unfolding parts_text_def parts_refs_def
  by (rule arg_cong [where f = concat], rule map_cong [OF refl])
     (metis UN_I part_refs.simps(2) part_text.elims part_text.simps set_rev singletonI)

lemma type_text_cong:
  assumes "\<And>u. u \<in> type_refs en t ty ps \<Longrightarrow> f u = g u"
  shows "type_text f en t ty ps = type_text g en t ty ps"
proof -
  have "foldl (join_extension f) r xs = foldl (join_extension g) r xs"
    if "set xs \<subseteq> set (enabled_extensions en t ty)" for r xs
    using that
  proof (induction xs arbitrary: r)
    case (Cons x xs)
    have "parts_text f (ext_expr x) = parts_text g (ext_expr x)"
      by (rule parts_text_cong) (use Cons.prems assms in \<open>auto simp: type_refs_def\<close>)
    then show ?case using Cons by (simp add: join_extension_def)
  qed simp
  moreover have "parts_text f ps = parts_text g ps"
    by (rule parts_text_cong) (use assms in \<open>auto simp: type_refs_def\<close>)
  ultimately show ?thesis by (simp add: type_text_def)
qed

lemma expands_unique: "expands T en t r \<Longrightarrow> expands T en t r' \<Longrightarrow> r = r'"
proof (induction arbitrary: r' rule: expands.induct)
  case (expandsI t ty ps f)
  from expandsI.prems expandsI.hyps obtain g where "r' = type_text g en t ty ps"
    "\<forall>u\<in>type_refs en t ty ps. expands T en u (g u)"
    by (auto elim: expands.cases)
  with expandsI.IH show ?case by (auto intro: type_text_cong)
qed

lemma expands_acyclic: "expands T en t r \<Longrightarrow> \<not> (refers T en)\<^sup>+\<^sup>+ t t"
proof (induction rule: expands.induct)
  case (expandsI t ty ps f)
  show ?case
  proof
    assume "(refers T en)\<^sup>+\<^sup>+ t t"
    then obtain u where u: "refers T en t u" "(refers T en)\<^sup>*\<^sup>* u t"
      by (auto dest: tranclpD)
    then have "u \<in> type_refs en t ty ps" using expandsI.hyps by (auto simp: refers_iff)
    moreover have "(refers T en)\<^sup>+\<^sup>+ u u" using u by (simp add: rtranclp_into_tranclp1)
    ultimately show False using expandsI.IH by blast
  qed
qed

lemma expands_reachable: "expands T en t r \<Longrightarrow> (refers T en)\<^sup>*\<^sup>* t u \<Longrightarrow> \<exists>r'. expands T en u r'"
proof (induction arbitrary: u rule: expands.induct)
  case (expandsI t ty ps f)
  show ?case
  proof (cases "u = t")
    case True
    then show ?thesis using expands.expandsI [of T t ty ps en f] expandsI.hyps expandsI.IH by blast
  next
    case False
    then obtain v where "refers T en t v" "(refers T en)\<^sup>*\<^sup>* v u"
      using expandsI.prems by (auto elim: converse_rtranclpE)
    moreover from this have "v \<in> type_refs en t ty ps" using expandsI.hyps by (auto simp: refers_iff)
    ultimately show ?thesis using expandsI.IH by blast
  qed
qed

lemma expands_defined: "expands T en t r \<Longrightarrow> t \<in> defined_types T"
  by (auto elim: expands.cases simp: defined_types_def)

text \<open>A type has an expansion exactly if all types it leads to are defined and none of them leads to itself.\<close>

lemma expands_iff:
  assumes fin: "finite (defined_types T)"
  shows "(\<exists>r. expands T en t r) \<longleftrightarrow>
    (\<forall>u. (refers T en)\<^sup>*\<^sup>* t u \<longrightarrow> u \<in> defined_types T \<and> \<not> (refers T en)\<^sup>+\<^sup>+ u u)"
proof (intro iffI allI impI)
  fix u assume "\<exists>r. expands T en t r" "(refers T en)\<^sup>*\<^sup>* t u"
  then obtain r' where "expands T en u r'" using expands_reachable by blast
  then show "u \<in> defined_types T \<and> \<not> (refers T en)\<^sup>+\<^sup>+ u u" using expands_defined expands_acyclic by blast
next
  assume all: "\<forall>u. (refers T en)\<^sup>*\<^sup>* t u \<longrightarrow> u \<in> defined_types T \<and> \<not> (refers T en)\<^sup>+\<^sup>+ u u"
  let ?R = "{(v, u). refers T en u v \<and> (refers T en)\<^sup>*\<^sup>* t u}"
  have sub: "(u, v) \<in> ?R\<^sup>+ \<Longrightarrow> (refers T en)\<^sup>+\<^sup>+ v u \<and> (refers T en)\<^sup>*\<^sup>* t v" for u v
  proof (induction rule: trancl.induct)
    case (trancl_into_trancl u v w)
    then have "refers T en w v" "(refers T en)\<^sup>+\<^sup>+ v u" "(refers T en)\<^sup>*\<^sup>* t w" by auto
    then show ?case by (simp add: tranclp_into_tranclp2)
  qed auto
  have "?R \<subseteq> defined_types T \<times> defined_types T" using all by (auto intro: rtranclp.rtrancl_into_rtrancl)
  then have "finite ?R" using fin finite_subset by blast
  moreover have "acyclic ?R" unfolding acyclic_def
  proof (intro allI notI)
    fix u assume "(u, u) \<in> ?R\<^sup>+"
    then have "(refers T en)\<^sup>+\<^sup>+ u u" "(refers T en)\<^sup>*\<^sup>* t u" using sub [of u u] by blast+
    with all show False by blast
  qed
  ultimately have wf: "wf ?R" by (rule finite_acyclic_wf)
  have "(refers T en)\<^sup>*\<^sup>* t u \<longrightarrow> (\<exists>r. expands T en u r)" for u
  proof (induction u rule: wf_induct_rule [OF wf])
    case (1 u)
    show ?case
    proof
      assume u: "(refers T en)\<^sup>*\<^sup>* t u"
      then obtain ty ps where ty: "T u = Some ty" "vt_expr ty = Some ps" using all by (auto simp: defined_types_def)
      have "\<exists>r. expands T en v r" if "v \<in> type_refs en u ty ps" for v
      proof -
        have "refers T en u v" using ty that by (auto simp: refers_iff)
        then show ?thesis using 1 u by (auto intro: rtranclp.rtrancl_into_rtrancl)
      qed
      then obtain f where "\<forall>v\<in>type_refs en u ty ps. expands T en v (f v)" by metis
      then show "\<exists>r. expands T en u r" using expandsI [of T u, OF ty] by blast
    qed
  qed
  then show "\<exists>r. expands T en t r" by blast
qed

section \<open>The walk through the references\<close>

text \<open>The computation of the code on a table, with the set of marked types.\<close>

primrec walk :: "'r type_table \<Rightarrow> choice \<Rightarrow> nat \<Rightarrow> vartype_id set \<Rightarrow> vartype_id \<Rightarrow> c_string option" where
  "walk T en 0 P t = None"
| "walk T en (Suc n) P t =
     (case Option.bind (T t) (\<lambda>ty. map_option (\<lambda>ps. (ty, ps)) (vt_expr ty)) of
        None \<Rightarrow> None
      | Some (ty, ps) \<Rightarrow>
          if t \<in> P \<or> (\<exists>u\<in>type_refs en t ty ps. walk T en n (insert t P) u = None) then None
          else Some (type_text (the \<circ> walk T en n (insert t P)) en t ty ps))"

lemma walk_expands: "walk T en n P t = Some r \<Longrightarrow> expands T en t r"
proof (induction n arbitrary: P t r)
  case (Suc n)
  then obtain ty ps where ty: "T t = Some ty" "vt_expr ty = Some ps"
    by (auto split: option.splits simp: bind_eq_Some_conv)
  with Suc.prems have all: "\<forall>u\<in>type_refs en t ty ps. walk T en n (insert t P) u \<noteq> None"
    and r: "r = type_text (the \<circ> walk T en n (insert t P)) en t ty ps"
    by (auto split: if_splits)
  have "\<forall>u\<in>type_refs en t ty ps. expands T en u ((the \<circ> walk T en n (insert t P)) u)"
    using all Suc.IH by fastforce
  then show ?case unfolding r by (rule expandsI [of T t, OF ty])
qed simp

lemma expands_walk:
  assumes fin: "finite (defined_types T)"
  shows "expands T en t r \<Longrightarrow> (\<And>u. (refers T en)\<^sup>*\<^sup>* t u \<Longrightarrow> u \<notin> P) \<Longrightarrow> card (defined_types T - P) < n \<Longrightarrow>
    walk T en n P t = Some r"
proof (induction arbitrary: n P rule: expands.induct)
  case (expandsI t ty ps f)
  from expandsI have whole: "expands T en t (type_text f en t ty ps)" by (auto intro: expands.intros)
  from expandsI obtain m where m: "n = Suc m" by (cases n) auto
  have "t \<notin> P" using expandsI.prems(1) by blast
  moreover have "t \<in> defined_types T" using expandsI.hyps by (simp add: defined_types_def)
  ultimately have "defined_types T - insert t P \<subset> defined_types T - P" by blast
  then have less: "card (defined_types T - insert t P) < m"
    using psubset_card_mono [OF finite_Diff [OF fin]] expandsI.prems(2) m
    by (metis less_Suc_eq_le order_less_le_trans)
  have found: "walk T en m (insert t P) u = Some (f u)" if u: "u \<in> type_refs en t ty ps" for u
  proof -
    have edge: "refers T en t u" using u expandsI.hyps by (auto simp: refers_iff)
    have "w \<notin> insert t P" if "(refers T en)\<^sup>*\<^sup>* u w" for w
    proof -
      have "(refers T en)\<^sup>+\<^sup>+ t w" using edge that by (rule rtranclp_into_tranclp2)
      then show ?thesis using expands_acyclic [OF whole] expandsI.prems(1) [of w] by (auto dest: tranclp_into_rtranclp)
    qed
    then show ?thesis using expandsI.IH u less by blast
  qed
  have "type_text (the \<circ> walk T en m (insert t P)) en t ty ps = type_text f en t ty ps"
    by (rule type_text_cong) (simp add: found)
  then show ?case using expandsI.hyps \<open>t \<notin> P\<close> found by (simp add: m)
qed

lemma walk_iff:
  assumes "finite (defined_types T)" and "card (defined_types T) < n"
  shows "walk T en n {} t = Some r \<longleftrightarrow> expands T en t r"
  using walk_expands expands_walk [OF assms(1), of en t r "{}" n] assms(2) by auto

section \<open>The code follows the walk\<close>

text \<open>The table of a state without marks, compiled states and what the evaluation of conditions may change.\<close>

definition plain_extension :: "vartype_extension_t \<Rightarrow> vartype_extension_t" where
  "plain_extension x = x\<lparr>ext_valid := False, ext_condition := Literal (expr_literal_create_boolean 0 True)\<rparr>"

definition plain_type :: "'r vartype_t \<Rightarrow> 'r vartype_t" where
  "plain_type ty = ty\<lparr>compiled_state := None, expansion_in_progress := False,
     vt_extensions := map plain_extension (vt_extensions ty)\<rparr>"

definition plain_table :: "('x, 'd, 'r, 'z) ts \<Rightarrow> 'r type_table" where
  "plain_table s t = map_option plain_type (ts_types s t)"

definition marked :: "('x, 'd, 'r, 'z) ts \<Rightarrow> vartype_id set" where
  "marked s = {t. \<exists>ty. ts_types s t = Some ty \<and> expansion_in_progress ty}"

definition set_mark :: "vartype_id \<Rightarrow> bool \<Rightarrow> ('x, 'd, 'r, 'z) ts \<Rightarrow> ('x, 'd, 'r, 'z) ts" where
  "set_mark t b s = (case ts_types s t of None \<Rightarrow> s
     | Some ty \<Rightarrow> s\<lparr>ts_types := (ts_types s)(t \<mapsto> ty\<lparr>expansion_in_progress := b\<rparr>)\<rparr>)"

lemma plain_type_simps [simp]:
  "vt_name (plain_type ty) = vt_name ty" "vt_expr (plain_type ty) = vt_expr ty"
  "length (vt_extensions (plain_type ty)) = length (vt_extensions ty)"
  "i < length (vt_extensions ty) \<Longrightarrow> ext_expr (vt_extensions (plain_type ty) ! i) = ext_expr (vt_extensions ty ! i)"
  by (simp_all add: plain_type_def plain_extension_def)

lemma plain_table_Some: "plain_table s t = Some ty \<longleftrightarrow> (\<exists>ty'. ts_types s t = Some ty' \<and> ty = plain_type ty')"
  by (auto simp: plain_table_def)

lemma plain_table_set_mark [simp]: "plain_table (set_mark t b s) = plain_table s"
  by (rule ext) (simp add: plain_table_def set_mark_def plain_type_def split: option.splits)

lemma marked_set_mark:
  "ts_types s t \<noteq> None \<Longrightarrow> marked (set_mark t b s) = (if b then insert t (marked s) else marked s - {t})"
  by (auto simp: marked_def set_mark_def split: option.splits if_splits)

lemma get_regex_Done:
  assumes "ts_types s t = Some ty" and "vt_expr ty = Some ps" and "\<not> expansion_in_progress ty"
    and "andthen (vartype_regex_assemble (\<lambda>u. vartype_get_regex n E u True) expand ps) (\<lambda>result.
      case result of None \<Rightarrow> ret None
      | Some r \<Rightarrow> vartype_extension_append_regex E (\<lambda>u. vartype_get_regex n E u True) expand t r) (set_mark t True s) = Done r s2"
    and "ts_types s2 t \<noteq> None"
  shows "vartype_get_regex (Suc n) E t expand s = Done r (set_mark t False s2)"
  using assms unfolding andthen_eq_Done_iff by (auto simp: set_mark_def)

text \<open>Expressions have a part, and references lead to types of the table.\<close>

definition table_wf :: "'r type_table \<Rightarrow> bool" where
  "table_wf T \<longleftrightarrow> (\<forall>t ty. T t = Some ty \<longrightarrow>
     (\<forall>ps. vt_expr ty = Some ps \<longrightarrow> ps \<noteq> [] \<and> (\<forall>u\<in>parts_refs ps. T u \<noteq> None))
     \<and> (\<forall>x\<in>set (vt_extensions ty). ext_expr x \<noteq> [] \<and> (\<forall>u\<in>parts_refs (ext_expr x). T u \<noteq> None)))"

text \<open>
  The contract of the conditions: evaluating the condition of an extension comes back with the value the choice
  has for it, and changes nothing the expansion depends on.
\<close>

locale extension_conditions =
  fixes E :: "('x, 'd, 'r, 'z) tenv" and en :: choice and inv :: "('x, 'd, 'r, 'z) ts \<Rightarrow> bool"
  assumes enabled_ok: "inv s \<Longrightarrow> ts_types s t = Some ty \<Longrightarrow> i < length (vt_extensions ty) \<Longrightarrow>
      \<exists>s'. vartype_extension_enabled E t i s = Done (en t i) s' \<and> inv s'
        \<and> plain_table s' = plain_table s \<and> marked s' = marked s"
    and inv_set_mark: "inv s \<Longrightarrow> inv (set_mark t b s)"
begin

definition view :: "'r type_table \<Rightarrow> vartype_id set \<Rightarrow> ('x, 'd, 'r, 'z) ts \<Rightarrow> bool" where
  "view T P s \<longleftrightarrow> inv s \<and> plain_table s = T \<and> marked s = P"

definition computes ::
  "'r type_table \<Rightarrow> vartype_id set \<Rightarrow> (('x, 'd, 'r, 'z) ts, c_string option) action \<Rightarrow> c_string option \<Rightarrow> bool" where
  "computes T P m r \<longleftrightarrow> (\<forall>s. view T P s \<longrightarrow> (\<exists>s'. m s = Done r s' \<and> view T P s'))"

lemma assemble_computes:
  assumes "ps \<noteq> []" and "\<And>u. u \<in> parts_refs ps \<Longrightarrow> computes T P (g u) (h u)"
  shows "computes T P (vartype_regex_assemble g True ps)
    (if \<exists>u\<in>parts_refs ps. h u = None then None else Some (parts_text (the \<circ> h) ps))"
  using assms
proof (induction ps)
  case (Cons p ps)
  let ?first = "if ps \<noteq> [] then andthen (vartype_regex_assemble g True ps) (\<lambda>r. ret (r \<noteq> None, r)) else ret (True, None)"
  let ?ok = "\<lambda>ps. \<not> (\<exists>u\<in>parts_refs ps. h u = None)"
  let ?before = "if ps = [] then None else Some (parts_text (the \<circ> h) ps)"
  have IH: "computes T P (vartype_regex_assemble g True ps) (if \<not> ?ok ps then None else Some (parts_text (the \<circ> h) ps))"
    if "ps \<noteq> []"
    unfolding not_not by (rule Cons.IH [OF that]) (use Cons.prems(2) in simp)
  show ?case unfolding computes_def
  proof (intro allI impI)
    fix s assume s: "view T P s"
    obtain s1 where s1: "?first s = Done (ps = [] \<or> ?ok ps, if ps = [] \<or> ?ok ps then ?before else None) s1" "view T P s1"
    proof (cases "ps = []")
      case True
      then show ?thesis using that s by simp
    next
      case False
      then obtain s1 where "vartype_regex_assemble g True ps s = Done (if \<not> ?ok ps then None else Some (parts_text (the \<circ> h) ps)) s1"
        "view T P s1" using IH s unfolding computes_def by blast
      then show ?thesis using that False by (simp split: if_splits)
    qed
    show "\<exists>s'. vartype_regex_assemble g True (p # ps) s
        = Done (if \<exists>u\<in>parts_refs (p # ps). h u = None then None else Some (parts_text (the \<circ> h) (p # ps))) s' \<and> view T P s'"
    proof (cases p)
      case (VARTYPE_EXPR_STRING str)
      then show ?thesis
        using s1 by (cases "ps = []") (auto simp: strcat_save_def)
    next
      case (VARTYPE_EXPR_REF u)
      have "computes T P (g u) (h u)" using Cons.prems(2) by (simp add: VARTYPE_EXPR_REF)
      then obtain s2 where "g u s1 = Done (h u) s2" "view T P s2" using s1(2) unfolding computes_def by blast
      then show ?thesis
        using s1 VARTYPE_EXPR_REF
        by (cases "ps = []"; cases "h u") (auto simp: strcat_save_def)
    qed
  qed
qed simp

lemma append_computes:
  assumes "T t = Some ty" and "set is \<subseteq> {..<length (vt_extensions ty)}"
    and "\<And>x. x \<in> set (vt_extensions ty) \<Longrightarrow> ext_expr x \<noteq> []"
    and "\<And>i u. i \<in> set is \<Longrightarrow> en t i \<Longrightarrow> u \<in> parts_refs (ext_expr (vt_extensions ty ! i)) \<Longrightarrow> computes T P (g u) (h u)"
  shows "computes T P (append_regex_loop E g True t is r)
    (if \<exists>i\<in>set is. en t i \<and> (\<exists>u\<in>parts_refs (ext_expr (vt_extensions ty ! i)). h u = None) then None
     else Some (foldl (join_extension (the \<circ> h)) r (map ((!) (vt_extensions ty)) (filter (en t) is))))"
  using assms(2,4)
proof (induction "is" arbitrary: r)
  case Nil
  then show ?case by (simp add: computes_def)
next
  case (Cons i "is")
  let ?x = "vt_extensions ty ! i"
  let ?res = "\<lambda>is r. if \<exists>i\<in>set is. en t i \<and> (\<exists>u\<in>parts_refs (ext_expr (vt_extensions ty ! i)). h u = None) then None
     else Some (foldl (join_extension (the \<circ> h)) r (map ((!) (vt_extensions ty)) (filter (en t) is)))"
  have IH: "computes T P (append_regex_loop E g True t is r) (?res is r)" for r
    by (rule Cons.IH) (use Cons.prems in auto)
  show ?case unfolding computes_def
  proof (intro allI impI)
    fix s assume s: "view T P s"
    then obtain ty0 where ty0: "ts_types s t = Some ty0" "ty = plain_type ty0"
      using assms(1) by (auto simp: view_def plain_table_Some)
    then have i: "i < length (vt_extensions ty0)" using Cons.prems(1) by simp
    obtain s1 where s1: "vartype_extension_enabled E t i s = Done (en t i) s1" "view T P s1"
      using enabled_ok [OF _ ty0(1) i] s by (auto simp: view_def)
    obtain ty1 where ty1: "ts_types s1 t = Some ty1" "ty = plain_type ty1"
      using assms(1) s1(2) by (auto simp: view_def plain_table_Some)
    then have x: "get_extension t i s1 = Done (vt_extensions ty1 ! i) s1"
      "ext_expr (vt_extensions ty1 ! i) = ext_expr ?x"
      using Cons.prems(1) by simp_all
    show "\<exists>s'. append_regex_loop E g True t (i # is) r s = Done (?res (i # is) r) s' \<and> view T P s'"
    proof (cases "en t i")
      case False
      obtain s2 where "append_regex_loop E g True t is r s1 = Done (?res is r) s2" "view T P s2"
        using IH s1(2) unfolding computes_def by blast
      then show ?thesis using False s1(1) by (intro exI [of _ s2]) simp
    next
      case True
      have "?x \<in> set (vt_extensions ty)" using Cons.prems(1) by simp
      then have "computes T P (vartype_regex_assemble g True (ext_expr ?x))
        (if \<exists>u\<in>parts_refs (ext_expr ?x). h u = None then None else Some (parts_text (the \<circ> h) (ext_expr ?x)))"
        using assms(3) Cons.prems(2) True by (intro assemble_computes) auto
      then obtain s2 where s2: "vartype_regex_assemble g True (ext_expr ?x) s1 =
        Done (if \<exists>u\<in>parts_refs (ext_expr ?x). h u = None then None else Some (parts_text (the \<circ> h) (ext_expr ?x))) s2"
        "view T P s2" using s1(2) unfolding computes_def by blast
      obtain s3 where s3: "append_regex_loop E g True t is (join_extension (the \<circ> h) r ?x) s2
        = Done (?res is (join_extension (the \<circ> h) r ?x)) s3" "view T P s3"
        using IH s2(2) unfolding computes_def by blast
      show ?thesis
        using True s1 s2 s3 x
        by (cases "\<exists>u\<in>parts_refs (ext_expr ?x). h u = None")
           (auto simp: join_extension_def VARTYPE_EXT_PREFIX_def VARTYPE_EXT_INFIX_def VARTYPE_EXT_SUFFIX_def)
    qed
  qed
qed

lemma view_set_mark: "view T P s \<Longrightarrow> T t \<noteq> None \<Longrightarrow> view T (if b then insert t P else P - {t}) (set_mark t b s)"
  using inv_set_mark by (auto simp: view_def marked_set_mark plain_table_def)

text \<open>The text of a type, its own expression and its enabled extensions.\<close>

lemma text_computes:
  assumes wf: "table_wf T" and ty: "T t = Some ty" and ps: "vt_expr ty = Some ps"
    and sub: "\<And>u. T u \<noteq> None \<Longrightarrow> computes T P (g u) (h u)"
  shows "computes T P
    (andthen (vartype_regex_assemble g True ps) (\<lambda>result.
       case result of None \<Rightarrow> ret None | Some r \<Rightarrow> vartype_extension_append_regex E g True t r))
    (if \<exists>u\<in>type_refs en t ty ps. h u = None then None else Some (type_text (the \<circ> h) en t ty ps))"
proof -
  let ?is = "[0..<length (vt_extensions ty)]"
  let ?lost = "\<lambda>i. en t i \<and> (\<exists>u\<in>parts_refs (ext_expr (vt_extensions ty ! i)). h u = None)"
  have own: "ps \<noteq> [] \<and> (\<forall>u\<in>parts_refs ps. T u \<noteq> None)" using wf ty ps by (simp add: table_wf_def)
  have ext: "ext_expr x \<noteq> [] \<and> (\<forall>u\<in>parts_refs (ext_expr x). T u \<noteq> None)" if "x \<in> set (vt_extensions ty)" for x
    using wf ty that by (simp add: table_wf_def)
  have parts: "computes T P (vartype_regex_assemble g True ps)
      (if \<exists>u\<in>parts_refs ps. h u = None then None else Some (parts_text (the \<circ> h) ps))"
    using own sub by (intro assemble_computes) auto
  have exts: "computes T P (append_regex_loop E g True t ?is r)
      (if \<exists>i\<in>set ?is. ?lost i then None else Some (foldl (join_extension (the \<circ> h)) r (enabled_extensions en t ty)))" for r
    unfolding enabled_extensions_def
  proof (rule append_computes [of T t, OF ty])
    show "computes T P (g u) (h u)" if "i \<in> set ?is" "u \<in> parts_refs (ext_expr (vt_extensions ty ! i))" for i u
      using ext [of "vt_extensions ty ! i"] that by (intro sub) auto
  qed (use ext in auto)
  have lost: "(\<exists>u\<in>type_refs en t ty ps. h u = None) \<longleftrightarrow> (\<exists>u\<in>parts_refs ps. h u = None) \<or> (\<exists>i\<in>set ?is. ?lost i)"
    by (auto simp: type_refs_def enabled_extensions_def)
  show ?thesis unfolding computes_def
  proof (intro allI impI)
    fix s assume "view T P s"
    then obtain s1 where s1: "vartype_regex_assemble g True ps s
        = Done (if \<exists>u\<in>parts_refs ps. h u = None then None else Some (parts_text (the \<circ> h) ps)) s1" "view T P s1"
      using parts unfolding computes_def by blast
    have len: "vartype_extension_append_regex E g True t r s1 = append_regex_loop E g True t ?is r s1" for r
      using s1(2) ty by (auto simp: view_def plain_table_Some vartype_extension_append_regex_def)
    obtain s2 where "append_regex_loop E g True t ?is (parts_text (the \<circ> h) ps) s1 = Done (if \<exists>i\<in>set ?is. ?lost i then None
        else Some (foldl (join_extension (the \<circ> h)) (parts_text (the \<circ> h) ps) (enabled_extensions en t ty))) s2" "view T P s2"
      using exts s1(2) unfolding computes_def by blast
    then show "\<exists>s'. andthen (vartype_regex_assemble g True ps) (\<lambda>result. case result of None \<Rightarrow> ret None
        | Some r \<Rightarrow> vartype_extension_append_regex E g True t r) s
      = Done (if \<exists>u\<in>type_refs en t ty ps. h u = None then None else Some (type_text (the \<circ> h) en t ty ps)) s' \<and> view T P s'"
      unfolding type_text_def
      using s1 lost by (cases "\<exists>u\<in>parts_refs ps. h u = None") (simp_all add: len split del: if_split)
  qed
qed

lemma get_regex_computes:
  assumes wf: "table_wf T" and fin: "finite (defined_types T)"
  shows "T t \<noteq> None \<Longrightarrow> card (defined_types T - P) < n \<Longrightarrow>
    computes T P (vartype_get_regex n E t True) (walk T en n P t)"
proof (induction n arbitrary: P t)
  case (Suc n)
  then obtain ty where ty: "T t = Some ty" by blast
  have found: "\<exists>ty'. ts_types s t = Some ty' \<and> ty = plain_type ty' \<and> (t \<in> P \<longleftrightarrow> expansion_in_progress ty')"
    if "view T P s" for s P
    using that ty by (auto simp: view_def plain_table_Some marked_def)
  show ?case
  proof (cases "\<exists>ps. vt_expr ty = Some ps \<and> t \<notin> P")
    case False
    then have "vartype_get_regex (Suc n) E t True s = Done None s" if "view T P s" for s
      using found [OF that] by (auto split: option.splits)
    moreover have "walk T en (Suc n) P t = None" using False ty by (auto split: option.splits)
    ultimately show ?thesis by (auto simp: computes_def)
  next
    case True
    then obtain ps where ps: "vt_expr ty = Some ps" and t: "t \<notin> P" by blast
    let ?g = "\<lambda>u. vartype_get_regex n E u True" and ?h = "walk T en n (insert t P)"
    have "defined_types T - insert t P \<subset> defined_types T - P"
      using ty ps t by (auto simp: defined_types_def)
    then have "card (defined_types T - insert t P) < n"
      using psubset_card_mono [OF finite_Diff [OF fin]] Suc.prems(2) by (metis less_Suc_eq_le order_less_le_trans)
    then have body: "computes T (insert t P)
      (andthen (vartype_regex_assemble ?g True ps) (\<lambda>result.
         case result of None \<Rightarrow> ret None | Some r \<Rightarrow> vartype_extension_append_regex E ?g True t r))
      (if \<exists>u\<in>type_refs en t ty ps. ?h u = None then None else Some (type_text (the \<circ> ?h) en t ty ps))"
      using Suc.IH by (intro text_computes [OF wf ty ps]) blast
    show ?thesis unfolding computes_def
    proof (intro allI impI)
      fix s assume s: "view T P s"
      have "view T (insert t P) (set_mark t True s)" using view_set_mark [OF s, of t True] ty by simp
      then obtain s2 where s2: "andthen (vartype_regex_assemble ?g True ps) (\<lambda>result. case result of None \<Rightarrow> ret None
          | Some r \<Rightarrow> vartype_extension_append_regex E ?g True t r) (set_mark t True s)
        = Done (walk T en (Suc n) P t) s2" "view T (insert t P) s2"
        using body ty ps t unfolding computes_def by auto
      have "view T P (set_mark t False s2)" using view_set_mark [OF s2(2), of t False] ty t by simp
      moreover obtain ty0 where "ts_types s t = Some ty0" "vt_expr ty0 = Some ps" "\<not> expansion_in_progress ty0"
        using found [OF s] ps t by auto
      then have "vartype_get_regex (Suc n) E t True s = Done (walk T en (Suc n) P t) (set_mark t False s2)"
        using s2 found [OF s2(2)] by (intro get_regex_Done) auto
      ultimately show "\<exists>s'. vartype_get_regex (Suc n) E t True s = Done (walk T en (Suc n) P t) s' \<and> view T P s'"
        by blast
    qed
  qed
qed simp

lemma get_regex_expands:
  assumes "inv s" and "table_wf (plain_table s)" and "finite (defined_types (plain_table s))"
    and "card (defined_types (plain_table s)) < n" and "marked s = {}" and "ts_types s t \<noteq> None"
  shows "\<exists>result s'. vartype_get_regex n E t True s = Done result s' \<and> inv s' \<and> marked s' = {}
    \<and> plain_table s' = plain_table s \<and> (\<forall>r. result = Some r \<longleftrightarrow> expands (plain_table s) en t r)"
proof -
  have "computes (plain_table s) {} (vartype_get_regex n E t True) (walk (plain_table s) en n {} t)"
    using assms by (intro get_regex_computes) (auto simp: plain_table_def)
  then show ?thesis using assms walk_iff [OF assms(3,4)] by (auto simp: computes_def view_def)
qed

end

section \<open>Conditions that meet the contract\<close>

text \<open>Extensions without a condition of their own have the literal true; it is validated when it is first used.\<close>

definition literal_conditions :: "choice \<Rightarrow> ('x, 'd, 'r, 'z) ts \<Rightarrow> bool" where
  "literal_conditions en s \<longleftrightarrow> (\<forall>t ty i. ts_types s t = Some ty \<longrightarrow> i < length (vt_extensions ty) \<longrightarrow>
     (\<exists>scope. ext_condition (vt_extensions ty ! i) = Literal (expr_literal_create_boolean scope (en t i))))"

lemma resolve_literal: "expr_resolve_variable_expressions f g (Literal l) s = Done (True, None, Literal l) s"
  by (simp add: expr_resolve_variable_expressions_def rf_visitor_def expr_visitor_init_def rf_handle_literal_def)

lemma typecheck_literal: "expr_typecheck_expression (Literal l) s = Done (True, None, Literal l) s"
  by (simp add: expr_typecheck_expression_def tc_visitor_def expr_visitor_init_def tc_handle_literal_def)

lemma evaluate_bool_literal:
  "expr_evaluate F ctx (Literal (expr_literal_create_boolean scope b)) s = Done (expr_literal_create_boolean scope b) s"
  by (simp add: expr_literal_create_boolean_def lit_type_def checked_evaluate_def expr_literal_evaluate_def
      expr_is_assignable_to_def)

lemma bool_literal_value: "expr_get_boolean_value (expr_literal_create_boolean scope b) s = Done (Inr b) s"
  by (simp add: expr_get_boolean_value_def expr_get_value_def expr_cast_def expr_literal_create_boolean_def lit_type_def
      expr_is_assignable_to_def expr_literal_get_value_def)

lemma literal_enabled:
  assumes "ts_types s t = Some ty" and "i < length (vt_extensions ty)"
    and "ext_condition (vt_extensions ty ! i) = Literal (expr_literal_create_boolean scope b)"
  shows "\<exists>x. vartype_extension_enabled E t i s
      = Done b (s\<lparr>ts_types := (ts_types s)(t \<mapsto> ty\<lparr>vt_extensions := (vt_extensions ty)[i := x]\<rparr>)\<rparr>)
    \<and> ext_condition x = ext_condition (vt_extensions ty ! i) \<and> plain_extension x = plain_extension (vt_extensions ty ! i)"
proof (cases "ext_valid (vt_extensions ty ! i)")
  case True
  then show ?thesis
    using assms by (intro exI [of _ "vt_extensions ty ! i"])
      (simp add: vartype_extension_enabled_def vartype_extension_validate_condition_def evaluate_bool_literal
        bool_literal_value fun_upd_idem del: expr_evaluate.simps)
next
  case False
  let ?x = "(vt_extensions ty ! i)\<lparr>ext_condition := Literal (expr_literal_create_boolean scope b), ext_valid := True\<rparr>"
  have "expr_get_type (Literal (expr_literal_create_boolean scope b)) = EXPR_TYPE_BOOLEAN"
    by (simp add: expr_literal_create_boolean_def lit_type_def)
  then show ?thesis
    using assms False by (intro exI [of _ ?x])
      (simp add: vartype_extension_enabled_def vartype_extension_validate_condition_def modify_extension_def
        resolve_literal typecheck_literal evaluate_bool_literal bool_literal_value plain_extension_def
        del: expr_evaluate.simps)
qed

interpretation literal: extension_conditions E en "literal_conditions en"
  for E :: "('x, 'd, 'r, 'z) tenv" and en
proof
  fix s :: "('x, 'd, 'r, 'z) ts" and t ty i and b
  assume inv: "literal_conditions en s"
  then show "literal_conditions en (set_mark t b s)"
    by (auto simp: literal_conditions_def set_mark_def split: option.splits)
  assume ty: "ts_types s t = Some ty" and i: "i < length (vt_extensions ty)"
  obtain scope where c: "ext_condition (vt_extensions ty ! i) = Literal (expr_literal_create_boolean scope (en t i))"
    using inv ty i unfolding literal_conditions_def by blast
  let ?s = "\<lambda>x. s\<lparr>ts_types := (ts_types s)(t \<mapsto> ty\<lparr>vt_extensions := (vt_extensions ty)[i := x]\<rparr>)\<rparr>"
  obtain x where x: "vartype_extension_enabled E t i s = Done (en t i) (?s x)"
    "ext_condition x = ext_condition (vt_extensions ty ! i)" "plain_extension x = plain_extension (vt_extensions ty ! i)"
    using literal_enabled [OF ty i c, of E] by blast
  have "map plain_extension ((vt_extensions ty)[i := x]) = map plain_extension (vt_extensions ty)"
    using i x(3) by (metis list_update_id map_update)
  then have "plain_table (?s x) = plain_table s" "marked (?s x) = marked s"
    using ty by (auto simp: plain_table_def plain_type_def marked_def)
  moreover have "literal_conditions en (?s x)"
    using inv ty i x(2) c by (auto simp: literal_conditions_def nth_list_update)
  ultimately show "\<exists>s'. vartype_extension_enabled E t i s = Done (en t i) s' \<and> literal_conditions en s'
      \<and> plain_table s' = plain_table s \<and> marked s' = marked s"
    using x(1) by blast
qed

text \<open>Conditions that were validated before and whose evaluation changes nothing, whatever types are marked.\<close>

definition with_marks :: "vartype_id set \<Rightarrow> ('x, 'd, 'r, 'z) ts \<Rightarrow> ('x, 'd, 'r, 'z) ts" where
  "with_marks M s = s\<lparr>ts_types := \<lambda>t. map_option (\<lambda>ty. ty\<lparr>expansion_in_progress := t \<in> M\<rparr>) (ts_types s t)\<rparr>"

definition settled_conditions :: "('x, 'd, 'r, 'z) tenv \<Rightarrow> choice \<Rightarrow> ('x, 'd, 'r, 'z) ts \<Rightarrow> bool" where
  "settled_conditions E en s \<longleftrightarrow> (\<forall>M t ty i. ts_types s t = Some ty \<longrightarrow> i < length (vt_extensions ty) \<longrightarrow>
     ext_valid (vt_extensions ty ! i) \<and>
     (\<exists>l. expr_evaluate (expr_env.truncate E) None (ext_condition (vt_extensions ty ! i)) (with_marks M s) = Done l (with_marks M s)
        \<and> expr_get_boolean_value l (with_marks M s) = Done (Inr (en t i)) (with_marks M s)))"

lemma with_marks_marked: "with_marks (marked s) s = s"
proof -
  have "map_option (\<lambda>ty. ty\<lparr>expansion_in_progress := t \<in> marked s\<rparr>) (ts_types s t) = ts_types s t" for t
    by (cases "ts_types s t") (simp_all add: marked_def)
  then show ?thesis by (simp add: with_marks_def)
qed

lemma with_marks_set_mark [simp]: "with_marks M (set_mark t b s) = with_marks M s"
  by (auto simp: with_marks_def set_mark_def fun_eq_iff split: option.splits)

interpretation settled: extension_conditions E en "settled_conditions E en"
  for E :: "('x, 'd, 'r, 'z) tenv" and en
proof
  fix s :: "('x, 'd, 'r, 'z) ts" and t ty i and b
  assume inv: "settled_conditions E en s"
  have "\<exists>ty'. ts_types s u = Some ty' \<and> vt_extensions ty' = vt_extensions ty"
    if "ts_types (set_mark t b s) u = Some ty" for u ty
    using that by (auto simp: set_mark_def split: option.splits if_splits)
  then show "settled_conditions E en (set_mark t b s)"
    using inv unfolding settled_conditions_def with_marks_set_mark by metis
  assume ty: "ts_types s t = Some ty" and i: "i < length (vt_extensions ty)"
  have "ext_valid (vt_extensions ty ! i)" using inv ty i by (simp add: settled_conditions_def)
  moreover obtain l where "expr_evaluate (expr_env.truncate E) None (ext_condition (vt_extensions ty ! i)) s = Done l s"
    "expr_get_boolean_value l s = Done (Inr (en t i)) s"
    using inv ty i with_marks_marked [of s] unfolding settled_conditions_def by metis
  ultimately have "vartype_extension_enabled E t i s = Done (en t i) s"
    using ty i by (simp add: vartype_extension_enabled_def vartype_extension_validate_condition_def)
  then show "\<exists>s'. vartype_extension_enabled E t i s = Done (en t i) s' \<and> settled_conditions E en s'
      \<and> plain_table s' = plain_table s \<and> marked s' = marked s"
    using inv by blast
qed

section \<open>Properties\<close>

text \<open>C6: in a table of types whose references lead to types of the table and with conditions that can be
  evaluated, the expansion of a type comes back when more nested calls are allowed than there are defined types.
  It yields exactly the text the inductive definition gives; it yields none exactly if an undefined type or a
  type that refers to itself, directly or through others, can be reached; and no type stays marked.\<close>

theorem vartype_regex_expansion:
  assumes "extension_conditions E en ok" and "ok s"
    and "table_wf (plain_table s)" and "finite (defined_types (plain_table s))"
    and "card (defined_types (plain_table s)) < n" and "marked s = {}" and "ts_types s t \<noteq> None"
  shows "\<exists>result s'. vartype_get_regex n E t True s = Done result s' \<and> marked s' = {} \<and> plain_table s' = plain_table s
    \<and> (\<forall>r. result = Some r \<longleftrightarrow> expands (plain_table s) en t r)
    \<and> (result = None \<longleftrightarrow> (\<exists>u. (refers (plain_table s) en)\<^sup>*\<^sup>* t u \<and>
         (u \<notin> defined_types (plain_table s) \<or> (refers (plain_table s) en)\<^sup>+\<^sup>+ u u)))"
proof -
  obtain result s' where run: "vartype_get_regex n E t True s = Done result s'" "marked s' = {}"
    "plain_table s' = plain_table s" "\<forall>r. result = Some r \<longleftrightarrow> expands (plain_table s) en t r"
    using extension_conditions.get_regex_expands [OF assms] by blast
  moreover have "result = None \<longleftrightarrow> \<not> (\<exists>r. expands (plain_table s) en t r)"
    using run(4) by (cases result) auto
  ultimately show ?thesis unfolding expands_iff [OF assms(4)] by blast
qed

text \<open>Two types for examples: a reference with an extension, and a type that refers to itself.\<close>

definition example_type :: "c_string \<Rightarrow> vartype_regex_part_t list option \<Rightarrow> vartype_extension_t list \<Rightarrow> 'r vartype_t" where
  "example_type name expr exts =
     \<lparr>vt_name = Some name, vt_expr = expr, vt_error_msg = [], vt_comment = [],
      vt_location = \<lparr>loc_file = (0, 1), loc_line = 1, loc_column = 1\<rparr>, compiled_state = None,
      expansion_in_progress = False, vt_extensions = exts, vt_temporary = False, vt_predefined = False,
      vt_incomplete = True\<rparr>"

definition example_types :: "vartype_id \<Rightarrow> nat vartype_t option" where
  "example_types =
     [0 \<mapsto> example_type ''DIGIT'' (Some [VARTYPE_EXPR_STRING ''[0-9]'']) [],
      1 \<mapsto> example_type ''PORT'' (Some [VARTYPE_EXPR_STRING ''+'', VARTYPE_EXPR_REF 0])
        [\<lparr>ext_expr = [VARTYPE_EXPR_STRING ''any''], ext_condition = Literal (expr_literal_create_boolean 0 True),
          ext_valid = False, ext_error_msg = [], ext_comment = [], ext_location = \<lparr>loc_file = (0, 1), loc_line = 2, loc_column = 1\<rparr>\<rparr>],
      2 \<mapsto> example_type ''LOOP'' (Some [VARTYPE_EXPR_STRING [], VARTYPE_EXPR_REF 2]) []]"

definition example_store :: "(nat, nat, nat) type_store" where
  "example_store = \<lparr>st_vars = (\<lambda>_. None), ts_packages = no_packages, ts_types = example_types, ts_next = 3,
     vartypes = empty_name_map, anon_vartypes = \<lparr>elem_number = 1, last_index = -1, cells = [None]\<rparr>\<rparr>"

lemma example_table:
  "table_wf (plain_table example_store)" "defined_types (plain_table example_store) = {0, 1, 2}"
  "marked example_store = {}" "literal_conditions (\<lambda>_ _. True) example_store"
proof -
  have T: "plain_table example_store = [0 \<mapsto> plain_type (the (example_types 0)), 1 \<mapsto> plain_type (the (example_types 1)),
      2 \<mapsto> plain_type (the (example_types 2))]"
    by (rule ext) (simp add: plain_table_def example_store_def example_types_def)
  show "table_wf (plain_table example_store)"
    by (simp add: T table_wf_def example_types_def plain_type_def example_type_def plain_extension_def)
  show "defined_types (plain_table example_store) = {0, 1, 2}"
    by (auto simp: T defined_types_def example_types_def plain_type_def example_type_def)
  show "marked example_store = {}"
    by (auto simp: marked_def example_store_def example_types_def example_type_def)
  show "literal_conditions (\<lambda>_ _. True) example_store"
    by (auto simp: literal_conditions_def example_store_def example_types_def example_type_def)
qed

lemma example_walk:
  "walk (plain_table example_store) (\<lambda>_ _. True) 4 {} 1 = Some ''(([0-9])+)|(any)''"
  "walk (plain_table example_store) (\<lambda>_ _. True) 4 {} 2 = None"
  by (simp_all add: numeral_eq_Suc plain_table_def example_store_def example_types_def plain_type_def example_type_def
      type_refs_def enabled_extensions_def type_text_def join_extension_def plain_extension_def)

theorem vartype_regex_expansion_witness:
  "extension_conditions (plain_env :: (nat, nat, nat, unit) tenv) (\<lambda>_ _. True) (literal_conditions (\<lambda>_ _. True))
   \<and> literal_conditions (\<lambda>_ _. True) example_store \<and> table_wf (plain_table example_store)
   \<and> card (defined_types (plain_table example_store)) = 3 \<and> marked example_store = {}
   \<and> (\<exists>s'. vartype_get_regex 4 plain_env 1 True example_store = Done (Some ''(([0-9])+)|(any)'') s' \<and> marked s' = {})
   \<and> (\<exists>s'. vartype_get_regex 4 plain_env 2 True example_store = Done None s' \<and> marked s' = {})"
proof -
  have card: "finite (defined_types (plain_table example_store))" "card (defined_types (plain_table example_store)) < 4"
    "card (defined_types (plain_table example_store)) = 3"
    by (simp_all add: example_table)
  have exp: "expands (plain_table example_store) (\<lambda>_ _. True) 1 ''(([0-9])+)|(any)''"
    "\<not> expands (plain_table example_store) (\<lambda>_ _. True) 2 r" for r
    using walk_iff [OF card(1,2), of "\<lambda>_ _. True" 1] walk_iff [OF card(1,2), of "\<lambda>_ _. True" 2] example_walk
    by (simp_all only: option.simps) auto
  have run: "\<exists>result s'. vartype_get_regex 4 plain_env t True example_store = Done result s' \<and> marked s' = {}
      \<and> (\<forall>r. result = Some r \<longleftrightarrow> expands (plain_table example_store) (\<lambda>_ _. True) t r)" if "t \<in> {1, 2}" for t
    using vartype_regex_expansion [OF literal.extension_conditions_axioms, of "\<lambda>_ _. True" example_store 4 t plain_env]
      card example_table that by (auto simp: example_store_def example_types_def)
  have "\<exists>s'. vartype_get_regex 4 plain_env 1 True example_store = Done (Some ''(([0-9])+)|(any)'') s' \<and> marked s' = {}"
    using run [of 1] exp(1) by fastforce
  moreover have "\<exists>s'. vartype_get_regex 4 plain_env 2 True example_store = Done None s' \<and> marked s' = {}"
    using run [of 2] exp(2) by (metis insertCI not_None_eq)
  ultimately show ?thesis
    using card(3) example_table literal.extension_conditions_axioms by blast
qed

end
