(* ===== verification/Type_System.thy ===== *)
theory Type_System
  imports Type_Expansion
begin

text \<open>
  The operations on variable types: reading a regular expression into parts (\<open>vartype/regex_part.c\<close>), adding,
  extending and removing types (\<open>vartype/core.c\<close>, \<open>vartype_extension_create\<close> of \<open>vartype/extension.c\<close>),
  compiling and matching (\<open>vartype/regex.c\<close>), the predefined types (\<open>vartype/predef.c\<close>) and the life cycle of
  the module (\<open>vartype/initfini.c\<close>). The functions of the regular expression library are a record. The first
  argument of most functions bounds the nesting of references when an expression is expanded, the argument
  \<open>E\<close> is the environment in which the conditions of extensions are evaluated. Calls of
  \<open>vartype_get_regex\<close> that only serve a log message are kept, since they may validate conditions.
\<close>

section \<open>The regular expression library\<close>

text \<open>
  \<open>regcomp\<close> with the flags for extended syntax and for lines gives a compiled expression or fails;
  \<open>regexec\<close> fails or gives so many entries for the whole match and the subexpressions.
\<close>

record 'r regex_lib =
  regcomp :: "c_string \<Rightarrow> 'r option"
  re_nsub :: "'r \<Rightarrow> nat"
  regexec :: "'r \<Rightarrow> c_string \<Rightarrow> nat \<Rightarrow> (int \<times> int) list option"

section \<open>Finding and creating types\<close>

definition on_packages :: "'a package_action \<Rightarrow> (('x, 'd, 'r, 'z) ts, 'a) action" where
  "on_packages = zoom ts_packages (\<lambda>p s. s\<lparr>ts_packages := p\<rparr>)"

definition on_vartypes :: "(vartype_id name_map, 'a) action \<Rightarrow> (('x, 'd, 'r, 'z) ts, 'a) action" where
  "on_vartypes = zoom vartypes (\<lambda>m s. s\<lparr>vartypes := m\<rparr>)"

definition on_anon_vartypes :: "(vartype_id array_t, 'a) action \<Rightarrow> (('x, 'd, 'r, 'z) ts, 'a) action" where
  "on_anon_vartypes = zoom anon_vartypes (\<lambda>a s. s\<lparr>anon_vartypes := a\<rparr>)"

definition vartype_create ::
  "c_string option \<Rightarrow> vartype_regex_part_t list option \<Rightarrow> c_string \<Rightarrow> c_string \<Rightarrow> location_t \<Rightarrow>
   (('x, 'd, 'r, 'z) ts, vartype_id) action" where
  "vartype_create name expr error_msg comment location =
     andthen get_state (\<lambda>s.
       andthen (put_state (s\<lparr>ts_types := (ts_types s)(ts_next s \<mapsto>
           \<lparr>vt_name = name, vt_expr = expr, vt_error_msg = error_msg, vt_comment = comment, vt_location = location,
            compiled_state = None, expansion_in_progress = False, vt_extensions = [], vt_temporary = False,
            vt_predefined = False, vt_incomplete = True\<rparr>), ts_next := ts_next s + 1\<rparr>)) (\<lambda>_.
         ret (ts_next s)))"

definition vartype_destroy :: "vartype_id \<Rightarrow> (('x, 'd, 'r, 'z) ts, unit) action" where
  "vartype_destroy t =
     andthen (get_type t) (\<lambda>_. andthen get_state (\<lambda>s. put_state (s\<lparr>ts_types := (ts_types s)(t := None)\<rparr>)))"

definition vartype_try_get :: "('x, 'd, 'r, 'z) ts \<Rightarrow> c_string \<Rightarrow> vartype_id option" where
  "vartype_try_get s name = name_get (vartypes s) name"

definition vartype_get :: "('x, 'd, 'r, 'z) ts \<Rightarrow> c_string \<Rightarrow> vartype_id option" where
  "vartype_get s name = (case vartype_try_get s name of Some t \<Rightarrow> Some t | None \<Rightarrow> None)"

text \<open>
  \<open>vartype_add\<close> behind the parsing of the expression, with both the text and the parts of it. A type that was
  only referred to so far gets its definition; a predefined type may be defined again with the same text.
\<close>

definition vartype_may_define ::
  "nat \<Rightarrow> ('x, 'd, 'r, 'z) tenv \<Rightarrow> vartype_id \<Rightarrow> c_string option \<Rightarrow> (('x, 'd, 'r, 'z) ts, bool) action" where
  "vartype_may_define n E t expr =
     andthen (get_type t) (\<lambda>ty.
       if vt_expr ty = None then ret True
       else if vt_predefined ty then
         andthen (vartype_get_regex n E t False) (\<lambda>regex.
           andthen (deref expr) (\<lambda>e. andthen (deref regex) (\<lambda>r. ret (e = r))))
       else ret False)"

definition vartype_enter ::
  "nat \<Rightarrow> ('x, 'd, 'r, 'z) tenv \<Rightarrow> c_string option \<Rightarrow> c_string option \<Rightarrow> vartype_regex_part_t list option \<Rightarrow>
   c_string \<Rightarrow> c_string \<Rightarrow> location_t \<Rightarrow> (('x, 'd, 'r, 'z) ts, vartype_id option) action" where
  "vartype_enter n E name expr e error_msg comment location =
     andthen get_state (\<lambda>s.
       case Option.bind name (vartype_try_get s) of
         None \<Rightarrow>
           andthen (vartype_create name e error_msg comment location) (\<lambda>t.
             andthen
               (case name of
                  Some nm \<Rightarrow> andthen (on_vartypes (hashmap_put (nm, t))) (\<lambda>_. ret ())
                | None \<Rightarrow> on_anon_vartypes (append_new_elem t)) (\<lambda>_. ret (Some t)))
       | Some t \<Rightarrow>
           andthen (vartype_may_define n E t expr) (\<lambda>ok.
             if \<not> ok then ret None
             else
               andthen (modify_type t (\<lambda>ty. ty\<lparr>vt_expr := e, vt_error_msg := error_msg, vt_comment := comment,
                   vt_location := location, vt_predefined := False\<rparr>)) (\<lambda>_. ret (Some t))))"

definition vartype_get_or_add ::
  "nat \<Rightarrow> ('x, 'd, 'r, 'z) tenv \<Rightarrow> c_string \<Rightarrow> (('x, 'd, 'r, 'z) ts, vartype_id option) action" where
  "vartype_get_or_add n E name =
     andthen get_state (\<lambda>s.
       case vartype_try_get s name of
         Some t \<Rightarrow> ret (Some t)
       | None \<Rightarrow>
           andthen (on_packages (location_create_internal PACKAGE_FILE_TYPE_VARTYPE)) (\<lambda>location.
             vartype_enter n E (Some name) None None [] [] location))"

section \<open>Reading a regular expression\<close>

text \<open>The characters before the first occurrence of a text, and the string from there on.\<close>

fun strstr :: "c_string \<Rightarrow> c_string \<Rightarrow> (c_string \<times> c_string) option" where
  "strstr [] pat = (if pat = [] then Some ([], []) else None)"
| "strstr (c # s) pat =
     (if take (length pat) (c # s) = pat then Some ([], c # s)
      else map_option (\<lambda>(p, q). (c # p, q)) (strstr s pat))"

lemma strstr_Some: "strstr s pat = Some (p, q) \<Longrightarrow> s = p @ q \<and> take (length pat) q = pat"
  by (induction s pat arbitrary: p q rule: strstr.induct) (auto split: if_splits)

definition vartype_regex_add_string ::
  "vartype_regex_part_t list \<Rightarrow> c_string \<Rightarrow> bool \<Rightarrow> vartype_regex_part_t list" where
  "vartype_regex_add_string prev str force = (if str \<noteq> [] \<or> force then VARTYPE_EXPR_STRING str # prev else prev)"

definition vartype_regex_add_ref ::
  "nat \<Rightarrow> ('x, 'd, 'r, 'z) tenv \<Rightarrow> vartype_regex_part_t list \<Rightarrow> c_string \<Rightarrow>
   (('x, 'd, 'r, 'z) ts, vartype_regex_part_t list) action" where
  "vartype_regex_add_ref n E prev name =
     andthen (vartype_get_or_add n E name) (\<lambda>t. andthen (deref t) (\<lambda>t. ret (VARTYPE_EXPR_REF t # prev)))"

function vartype_regex_parse_loop ::
  "nat \<Rightarrow> ('x, 'd, 'r, 'z) tenv \<Rightarrow> vartype_regex_part_t list \<Rightarrow> c_string \<Rightarrow>
   (('x, 'd, 'r, 'z) ts, vartype_regex_part_t list) action" where
  "vartype_regex_parse_loop n E prev start =
     (case strstr start VARTYPE_REF_START of
        None \<Rightarrow> ret (vartype_regex_add_string prev start True)
      | Some (before, next) \<Rightarrow>
          (case strstr next VARTYPE_REF_END of
             None \<Rightarrow> ret (vartype_regex_add_string prev start True)
           | Some (ref, stop) \<Rightarrow>
               andthen (vartype_regex_add_ref n E (vartype_regex_add_string prev before False)
                   (drop (length VARTYPE_REF_START) ref)) (\<lambda>prev.
                 vartype_regex_parse_loop n E prev (drop 1 stop))))"
  by pat_completeness auto
termination
proof (relation "measure (\<lambda>(n, E, prev, start). length start)", goal_cases)
  case (2 n E prev start x1 before "next" x2 ref stop prev')
  then have "start = before @ ref @ stop" "take 1 stop = VARTYPE_REF_END"
    using strstr_Some [of start VARTYPE_REF_START before "next"] strstr_Some [of "next" VARTYPE_REF_END ref stop]
    by (simp_all add: VARTYPE_REF_END_def)
  then show ?case by (cases stop) (auto simp: VARTYPE_REF_END_def)
qed simp

declare vartype_regex_parse_loop.simps [simp del]

definition vartype_regex_parse ::
  "nat \<Rightarrow> ('x, 'd, 'r, 'z) tenv \<Rightarrow> c_string \<Rightarrow> (('x, 'd, 'r, 'z) ts, vartype_regex_part_t list) action" where
  "vartype_regex_parse n E expr = vartype_regex_parse_loop n E [] expr"

section \<open>Adding and extending types\<close>

definition vartype_add ::
  "nat \<Rightarrow> ('x, 'd, 'r, 'z) tenv \<Rightarrow> c_string option \<Rightarrow> c_string option \<Rightarrow> c_string \<Rightarrow> c_string \<Rightarrow> location_t \<Rightarrow>
   (('x, 'd, 'r, 'z) ts, vartype_id option) action" where
  "vartype_add n E name expr error_msg comment location =
     andthen (my_assert (name \<noteq> None \<or> expr \<noteq> None)) (\<lambda>_.
       andthen
         (case expr of
            None \<Rightarrow> ret None
          | Some x \<Rightarrow> andthen (vartype_regex_parse n E x) (\<lambda>e. ret (Some e))) (\<lambda>e.
         vartype_enter n E name expr e error_msg comment location))"

definition vartype_extension_create ::
  "nat \<Rightarrow> ('x, 'd, 'r, 'z) tenv \<Rightarrow> vartype_id \<Rightarrow> c_string \<Rightarrow> expr_t option \<Rightarrow> c_string \<Rightarrow> c_string \<Rightarrow> location_t \<Rightarrow>
   (('x, 'd, 'r, 'z) ts, unit) action" where
  "vartype_extension_create n E t expr condition error_msg comment location =
     andthen (vartype_regex_parse n E expr) (\<lambda>e.
       modify_type t (\<lambda>ty. ty\<lparr>vt_extensions := vt_extensions ty @
         [\<lparr>ext_expr = e,
           ext_condition = (case condition of Some c \<Rightarrow> c
             | None \<Rightarrow> Literal (expr_literal_create_boolean (env_global_scope E) True)),
           ext_valid = False, ext_error_msg = error_msg, ext_comment = comment, ext_location = location\<rparr>]\<rparr>))"

definition vartype_extend ::
  "nat \<Rightarrow> ('x, 'd, 'r, 'z) tenv \<Rightarrow> vartype_id \<Rightarrow> c_string \<Rightarrow> expr_t option \<Rightarrow> c_string \<Rightarrow> c_string \<Rightarrow> location_t \<Rightarrow>
   (('x, 'd, 'r, 'z) ts, bool) action" where
  "vartype_extend n E t expr condition error_msg comment location =
     andthen (get_type t) (\<lambda>ty.
       if compiled_state ty \<noteq> None then ret False
       else andthen (vartype_extension_create n E t expr condition error_msg comment location) (\<lambda>_. ret True))"

section \<open>Compiling and matching\<close>

definition VARTYPE_COMPLETE_PREFIX :: c_string where "VARTYPE_COMPLETE_PREFIX = ''^(''"
definition VARTYPE_COMPLETE_SUFFIX :: c_string where "VARTYPE_COMPLETE_SUFFIX = '')$''"

definition complete_regex :: "bool \<Rightarrow> c_string \<Rightarrow> c_string" where
  "complete_regex incomplete regex_str =
     (if incomplete then VARTYPE_COMPLETE_PREFIX else []) @ regex_str @ (if incomplete then VARTYPE_COMPLETE_SUFFIX else [])"

definition vartype_free_compiled_state :: "vartype_id \<Rightarrow> (('x, 'd, 'r, 'z) ts, unit) action" where
  "vartype_free_compiled_state t = modify_type t (\<lambda>ty. ty\<lparr>compiled_state := None\<rparr>)"

text \<open>The code allocates the compiled state before it assembles the messages and sets the expression in it last; the model
  sets all of it at the end. They differ if a condition evaluated for the messages matches a value against the type that
  is being compiled: the code would use an expression that is not initialised, the model fails an assertion.\<close>

definition vartype_compile ::
  "'r regex_lib \<Rightarrow> nat \<Rightarrow> ('x, 'd, 'r, 'z) tenv \<Rightarrow> vartype_id \<Rightarrow> (('x, 'd, 'r, 'z) ts, bool) action" where
  "vartype_compile R n E t =
     andthen (get_type t) (\<lambda>ty.
       if compiled_state ty \<noteq> None then ret True
       else
         andthen (vartype_get_regex n E t True) (\<lambda>regex_str.
           case regex_str of
             None \<Rightarrow> andthen (vartype_get_regex n E t False) (\<lambda>_. ret False)
           | Some r \<Rightarrow>
               andthen (vartype_extension_assemble_error_message E t) (\<lambda>error_msg.
               andthen (vartype_extension_assemble_comment E t) (\<lambda>comment.
                 case regcomp R (complete_regex (vt_incomplete ty) r) of
                   None \<Rightarrow>
                     andthen (vartype_get_regex n E t False) (\<lambda>_.
                       andthen (vartype_free_compiled_state t) (\<lambda>_. ret False))
                 | Some regex \<Rightarrow>
                     andthen (modify_type t (\<lambda>ty. ty\<lparr>compiled_state := Some \<lparr>cs_regex = regex,
                         complete_error_msg = error_msg, complete_comment = comment\<rparr>\<rparr>)) (\<lambda>_.
                       andthen (vartype_get_regex n E t False) (\<lambda>_. ret True))))))"

definition compiled_of :: "vartype_id \<Rightarrow> (('x, 'd, 'r, 'z) ts, 'r vartype_compiled_state_t) action" where
  "compiled_of t =
     andthen (get_type t) (\<lambda>ty. andthen (my_assert (compiled_state ty \<noteq> None)) (\<lambda>_. deref (compiled_state ty)))"

definition vartype_match ::
  "'r regex_lib \<Rightarrow> nat \<Rightarrow> ('x, 'd, 'r, 'z) tenv \<Rightarrow> vartype_id \<Rightarrow> c_string \<Rightarrow> (('x, 'd, 'r, 'z) ts, bool) action" where
  "vartype_match R n E t val =
     andthen (compiled_of t) (\<lambda>cs.
       case regexec R (cs_regex cs) val 0 of
         Some _ \<Rightarrow> ret True
       | None \<Rightarrow> andthen (vartype_get_regex n E t True) (\<lambda>_. ret False))"

definition vartype_match_ext ::
  "'r regex_lib \<Rightarrow> nat \<Rightarrow> ('x, 'd, 'r, 'z) tenv \<Rightarrow> vartype_id \<Rightarrow> c_string \<Rightarrow>
   (('x, 'd, 'r, 'z) ts, (int \<times> int) list option) action" where
  "vartype_match_ext R n E t val =
     andthen (compiled_of t) (\<lambda>cs.
       let num_sub = re_nsub R (cs_regex cs) + 1 in
       case regexec R (cs_regex cs) val num_sub of
         Some matches \<Rightarrow> ret (Some (take num_sub matches @ [(-1, -1)]))
       | None \<Rightarrow> andthen (vartype_get_regex n E t True) (\<lambda>_. ret None))"

definition vartype_get_complete_error_message :: "vartype_id \<Rightarrow> (('x, 'd, 'r, 'z) ts, c_string) action" where
  "vartype_get_complete_error_message t = andthen (compiled_of t) (\<lambda>cs. ret (complete_error_msg cs))"

definition vartype_get_complete_comment :: "vartype_id \<Rightarrow> (('x, 'd, 'r, 'z) ts, c_string) action" where
  "vartype_get_complete_comment t = andthen (compiled_of t) (\<lambda>cs. ret (complete_comment cs))"

definition vartype_add_temporary ::
  "'r regex_lib \<Rightarrow> nat \<Rightarrow> ('x, 'd, 'r, 'z) tenv \<Rightarrow> c_string \<Rightarrow> location_t \<Rightarrow> bool \<Rightarrow>
   (('x, 'd, 'r, 'z) ts, vartype_id option) action" where
  "vartype_add_temporary R n E expr location incomplete =
     andthen (vartype_regex_parse n E expr) (\<lambda>e.
     andthen (vartype_create None (Some e) [] [] location) (\<lambda>t.
     andthen (modify_type t (\<lambda>ty. ty\<lparr>vt_temporary := True, vt_incomplete := incomplete\<rparr>)) (\<lambda>_.
     andthen (vartype_compile R n E t) (\<lambda>ok.
       if ok then ret (Some t) else andthen (vartype_destroy t) (\<lambda>_. ret None)))))"

definition vartype_remove :: "vartype_id \<Rightarrow> (('x, 'd, 'r, 'z) ts, unit) action" where
  "vartype_remove t = andthen (get_type t) (\<lambda>ty. andthen (my_assert (vt_temporary ty)) (\<lambda>_. vartype_destroy t))"

section \<open>Predefined types\<close>

definition VARTYPE_PREDEFINED_UNSIGNED_INTEGER :: c_string where "VARTYPE_PREDEFINED_UNSIGNED_INTEGER = ''NUMERIC''"
definition VARTYPE_PREDEFINED_BOOLEAN :: c_string where "VARTYPE_PREDEFINED_BOOLEAN = ''YESNO''"
definition VARTYPE_PREDEFINED_INTEGER_PREFIX :: c_string where "VARTYPE_PREDEFINED_INTEGER_PREFIX = ''NUM''"

definition vartype_get_expression_type :: "'r vartype_t \<Rightarrow> expr_type" where
  "vartype_get_expression_type ty =
     (case vt_name ty of
        None \<Rightarrow> EXPR_TYPE_STRING
      | Some name \<Rightarrow>
          if name = VARTYPE_PREDEFINED_BOOLEAN then EXPR_TYPE_BOOLEAN
          else if take (length VARTYPE_PREDEFINED_INTEGER_PREFIX) name = VARTYPE_PREDEFINED_INTEGER_PREFIX
          then EXPR_TYPE_INTEGER
          else EXPR_TYPE_STRING)"

definition vartype_create_predefined_type ::
  "'r regex_lib \<Rightarrow> nat \<Rightarrow> ('x, 'd, 'r, 'z) tenv \<Rightarrow> c_string \<Rightarrow> c_string \<Rightarrow> c_string \<Rightarrow> c_string \<Rightarrow>
   (('x, 'd, 'r, 'z) ts, unit) action" where
  "vartype_create_predefined_type R n E name expr error_msg comment =
     andthen (on_packages (location_create_internal PACKAGE_FILE_TYPE_VARTYPE)) (\<lambda>location.
     andthen (vartype_add n E (Some name) (Some expr) error_msg comment location) (\<lambda>vartype.
     andthen (my_assert (vartype \<noteq> None)) (\<lambda>_.
     andthen (deref vartype) (\<lambda>t.
     andthen (modify_type t (\<lambda>ty. ty\<lparr>vt_predefined := True\<rparr>)) (\<lambda>_.
     andthen (vartype_compile R n E t) (\<lambda>result. my_assert result))))))"

definition vartype_create_predefined_types ::
  "'r regex_lib \<Rightarrow> nat \<Rightarrow> ('x, 'd, 'r, 'z) tenv \<Rightarrow> (('x, 'd, 'r, 'z) ts, unit) action" where
  "vartype_create_predefined_types R n E =
     andthen (vartype_create_predefined_type R n E VARTYPE_PREDEFINED_ANYTHING ''.*'' [] ''matches any value'') (\<lambda>_.
     andthen (vartype_create_predefined_type R n E VARTYPE_PREDEFINED_UNSIGNED_INTEGER ''0|[1-9][0-9]*''
       ''unsigned number expected'' ''unsigned integer number'') (\<lambda>_.
     vartype_create_predefined_type R n E VARTYPE_PREDEFINED_BOOLEAN ''yes|no''
       ''yes or no expected'' ''boolean value (yes or no)''))"

section \<open>The module\<close>

definition vartype_core_init :: "(('x, 'd, 'r, 'z) ts, unit) action" where
  "vartype_core_init =
     andthen (hashmap_create fst 1024 hash_ci_string compare_ci_string_keys True) (\<lambda>m.
     andthen (init_array 64) (\<lambda>a.
     andthen get_state (\<lambda>s. put_state (s\<lparr>vartypes := m, anon_vartypes := a\<rparr>))))"

definition vartype_init_module ::
  "'r regex_lib \<Rightarrow> nat \<Rightarrow> ('x, 'd, 'r, 'z) tenv \<Rightarrow> (('x, 'd, 'r, 'z) ts, unit) action" where
  "vartype_init_module R n E = andthen vartype_core_init (\<lambda>_. vartype_create_predefined_types R n E)"

primrec vartype_destroy_all :: "vartype_id list \<Rightarrow> (('x, 'd, 'r, 'z) ts, unit) action" where
  "vartype_destroy_all [] = ret ()"
| "vartype_destroy_all (t # ts) = andthen (vartype_destroy t) (\<lambda>_. vartype_destroy_all ts)"

definition vartype_core_fini :: "(('x, 'd, 'r, 'z) ts, unit) action" where
  "vartype_core_fini =
     andthen get_state (\<lambda>s.
     andthen (vartype_destroy_all (array_iter_loop (init_array_iterator (anon_vartypes s)))) (\<lambda>_.
     vartype_destroy_all (map snd (hashmap_destroy (vartypes s)))))"

text \<open>The flag the visitor clears is the second component of its state.\<close>

definition vartype_compile_action ::
  "'r regex_lib \<Rightarrow> nat \<Rightarrow> ('x, 'd, 'r, 'z) tenv \<Rightarrow> vartype_id \<Rightarrow> (('x, 'd, 'r, 'z) ts \<times> bool, bool) action" where
  "vartype_compile_action R n E t =
     andthen (zoom fst (\<lambda>s (_, result). (s, result)) (vartype_compile R n E t)) (\<lambda>ok.
     andthen get_state (\<lambda>(s, result).
     andthen (put_state (s, if ok then result else False)) (\<lambda>_. ret True)))"

definition vartype_finalize_type_system ::
  "'r regex_lib \<Rightarrow> nat \<Rightarrow> ('x, 'd, 'r, 'z) tenv \<Rightarrow> (('x, 'd, 'r, 'z) ts, bool) action" where
  "vartype_finalize_type_system R n E = (\<lambda>s.
     case andthen (hashmap_foreach (vartypes s) (\<lambda>(name, t). vartype_compile_action R n E t)) (\<lambda>_.
       run_all (vartype_compile_action R n E) (array_iter_loop (init_array_iterator (anon_vartypes s)))) (s, True) of
       Done _ (s', result) \<Rightarrow> Done result s'
     | Failed f \<Rightarrow> Failed f)"

section \<open>Well-formed type stores\<close>

text \<open>A predefined type is compiled when it is made, and a compiled type gets no extensions.\<close>

definition type_ok :: "'r vartype_t \<Rightarrow> bool" where
  "type_ok ty \<longleftrightarrow> (vt_predefined ty \<longrightarrow> compiled_state ty \<noteq> None \<and> vt_extensions ty = [])"

definition types_ok :: "('x, 'd, 'r, 'z) ts \<Rightarrow> bool" where
  "types_ok s \<longleftrightarrow> packages_ok (ts_packages s) \<and> name_map_ok (vartypes s)
     \<and> (\<forall>k nm t. hashmap_get (vartypes s) k = Some (nm, t) \<longrightarrow> (\<exists>ty. ts_types s t = Some ty \<and> vt_name ty = Some nm))
     \<and> (\<forall>t. ts_next s \<le> t \<longrightarrow> ts_types s t = None)
     \<and> table_wf (plain_table s) \<and> marked s = {}
     \<and> (\<forall>t ty. ts_types s t = Some ty \<longrightarrow> type_ok ty)
     \<and> array_inv (anon_vartypes s) \<and> (\<forall>t\<in>set (array_elems (anon_vartypes s)). ts_types s t \<noteq> None)"

definition types_grow :: "('x, 'd, 'r, 'z) ts \<Rightarrow> ('x, 'd, 'r, 'z) ts \<Rightarrow> bool" where
  "types_grow s s' \<longleftrightarrow> (\<forall>t ty. ts_types s t = Some ty \<longrightarrow> ts_types s' t = Some ty)
     \<and> (\<forall>k t. vartype_try_get s k = Some t \<longrightarrow> vartype_try_get s' k = Some t)
     \<and> (\<forall>k. vartype_try_get s k = None \<longrightarrow> (\<forall>t. vartype_try_get s' k = Some t \<longrightarrow> (\<exists>ty. ts_types s' t = Some ty \<and> vt_expr ty = None)))
     \<and> anon_vartypes s' = anon_vartypes s \<and> st_vars s' = st_vars s \<and> ts_packages s' = ts_packages s"

lemma types_grow_refl [simp]: "types_grow s s"
  by (simp add: types_grow_def)

lemma types_grow_trans:
  assumes st: "types_grow s t" and tu: "types_grow t u"
  shows "types_grow s u"
proof -
  have "\<exists>ty. ts_types u v = Some ty \<and> vt_expr ty = None"
    if k: "vartype_try_get s k = None" and v: "vartype_try_get u k = Some v" for k v
  proof (cases "vartype_try_get t k")
    case None
    then show ?thesis using tu v by (simp add: types_grow_def)
  next
    case (Some w)
    then obtain ty where "ts_types t w = Some ty" "vt_expr ty = None"
      using st k unfolding types_grow_def by blast
    moreover have "w = v" using tu Some v by (simp add: types_grow_def)
    ultimately show ?thesis using tu by (auto simp: types_grow_def)
  qed
  then show ?thesis using st tu by (simp add: types_grow_def)
qed

lemma vartype_try_get_type:
  assumes "types_ok s" and "vartype_try_get s k = Some t"
  obtains ty nm where "ts_types s t = Some ty" and "vt_name ty = Some nm" and "strcasecmp_eq k nm"
proof -
  obtain nm where "hashmap_get (vartypes s) k = Some (nm, t)"
    using assms(2) by (auto simp: vartype_try_get_def name_get_def)
  moreover from this obtain ty where "ts_types s t = Some ty" "vt_name ty = Some nm"
    using assms(1) unfolding types_ok_def by blast
  ultimately show ?thesis using that assms(1) name_map_key [of "vartypes s" k nm t] unfolding types_ok_def by blast
qed

lemma table_wf_add:
  assumes "table_wf T" and "T t = None" and "vt_extensions ty = []"
    and "\<And>ps. vt_expr ty = Some ps \<Longrightarrow> ps \<noteq> [] \<and> (\<forall>u\<in>parts_refs ps. (T(t \<mapsto> ty)) u \<noteq> None)"
  shows "table_wf (T(t \<mapsto> ty))"
  using assms unfolding table_wf_def by auto

lemma plain_table_add: "plain_table (s\<lparr>ts_types := (ts_types s)(t \<mapsto> ty)\<rparr>) = (plain_table s)(t \<mapsto> plain_type ty)"
  by (auto simp: plain_table_def)

text \<open>A new type under a name that is not in use.\<close>

lemma vartype_enter_new:
  assumes ok: "types_ok s" and new: "vartype_try_get s nm = None"
    and parts: "\<And>ps. e = Some ps \<Longrightarrow> ps \<noteq> [] \<and> (\<forall>u\<in>parts_refs ps. ts_types s u \<noteq> None)"
  shows "\<exists>s'. vartype_enter n E (Some nm) expr e em c l s = Done (Some (ts_next s)) s' \<and> types_ok s'
    \<and> vartype_try_get s' = (\<lambda>k. if strcasecmp_eq k nm then Some (ts_next s) else vartype_try_get s k)
    \<and> ts_types s' = (ts_types s)(ts_next s \<mapsto> \<lparr>vt_name = Some nm, vt_expr = e, vt_error_msg = em, vt_comment = c,
        vt_location = l, compiled_state = None, expansion_in_progress = False, vt_extensions = [],
        vt_temporary = False, vt_predefined = False, vt_incomplete = True\<rparr>)
    \<and> anon_vartypes s' = anon_vartypes s \<and> st_vars s' = st_vars s \<and> ts_packages s' = ts_packages s"
proof -
  let ?t = "ts_next s"
  let ?ty = "\<lparr>vt_name = Some nm, vt_expr = e, vt_error_msg = em, vt_comment = c,
        vt_location = l, compiled_state = None, expansion_in_progress = False, vt_extensions = [],
        vt_temporary = False, vt_predefined = False, vt_incomplete = True\<rparr>"
  obtain ds m' where m': "hashmap_put (nm, ?t) (vartypes s) = Done ds m'" "name_map_ok m'"
    "hashmap_get m' = (\<lambda>k. if strcasecmp_eq k nm then Some (nm, ?t) else hashmap_get (vartypes s) k)"
    using name_put [of "vartypes s" nm ?t] ok unfolding types_ok_def by blast
  let ?s = "s\<lparr>ts_types := (ts_types s)(?t \<mapsto> ?ty), ts_next := ?t + 1, vartypes := m'\<rparr>"
  have run: "vartype_enter n E (Some nm) expr e em c l s = Done (Some ?t) ?s"
    using new m'(1) by (simp add: vartype_enter_def vartype_create_def on_vartypes_def andthen_def)
  have fresh: "ts_types s ?t = None" using ok by (simp add: types_ok_def)
  have "plain_table ?s = (plain_table s)(?t \<mapsto> plain_type ?ty)" by (auto simp: plain_table_def)
  moreover have "table_wf ((plain_table s)(?t \<mapsto> plain_type ?ty))"
    by (rule table_wf_add) (use ok fresh parts in \<open>auto simp: types_ok_def plain_table_def plain_type_def\<close>)
  moreover have "marked ?s = {}" using ok by (auto simp: marked_def types_ok_def)
  moreover have "\<exists>ty. ts_types ?s t = Some ty \<and> vt_name ty = Some k'" if "hashmap_get m' k = Some (k', t)" for k k' t
  proof (cases "strcasecmp_eq k nm")
    case True
    then show ?thesis using that by (simp add: m'(3))
  next
    case False
    then have "hashmap_get (vartypes s) k = Some (k', t)" using that by (simp add: m'(3))
    then obtain ty where "ts_types s t = Some ty" "vt_name ty = Some k'" using ok unfolding types_ok_def by blast
    then show ?thesis using fresh by auto
  qed
  ultimately have "types_ok ?s"
    using ok m'(2) fresh unfolding types_ok_def by (auto simp: type_ok_def)
  moreover have "vartype_try_get ?s = (\<lambda>k. if strcasecmp_eq k nm then Some ?t else vartype_try_get s k)"
    by (rule ext) (simp add: vartype_try_get_def name_get_def m'(3))
  ultimately show ?thesis using run by (intro exI [of _ ?s]) simp
qed

lemma get_or_add_absent:
  assumes ok: "types_ok s" and new: "vartype_try_get s nm = None"
  shows "\<exists>t s'. vartype_get_or_add n E nm s = Done (Some t) s' \<and> types_ok s' \<and> types_grow s s' \<and> ts_types s' t \<noteq> None
    \<and> vartype_try_get s' = (\<lambda>k. if strcasecmp_eq k nm then Some t else vartype_try_get s k)"
proof -
  obtain l where l: "location_create_internal PACKAGE_FILE_TYPE_VARTYPE (ts_packages s) = Done l (ts_packages s)"
    using internal_location ok unfolding types_ok_def by blast
  obtain s' where s': "vartype_enter n E (Some nm) None None [] [] l s = Done (Some (ts_next s)) s'" "types_ok s'"
    "vartype_try_get s' = (\<lambda>k. if strcasecmp_eq k nm then Some (ts_next s) else vartype_try_get s k)"
    "ts_types s' = (ts_types s)(ts_next s \<mapsto> \<lparr>vt_name = Some nm, vt_expr = None, vt_error_msg = [], vt_comment = [],
        vt_location = l, compiled_state = None, expansion_in_progress = False, vt_extensions = [],
        vt_temporary = False, vt_predefined = False, vt_incomplete = True\<rparr>)"
    "anon_vartypes s' = anon_vartypes s \<and> st_vars s' = st_vars s \<and> ts_packages s' = ts_packages s"
    using vartype_enter_new [OF ok new, of None n E None "[]" "[]" l] by auto
  have run: "vartype_get_or_add n E nm s = Done (Some (ts_next s)) s'"
    using new l s'(1) by (simp add: vartype_get_or_add_def on_packages_def)
  have fresh: "ts_types s (ts_next s) = None" using ok by (simp add: types_ok_def)
  have "vartype_try_get s' k = Some t" if "vartype_try_get s k = Some t" for k t
    using that new s'(3) ok name_map_cong [of "vartypes s" k nm] by (auto simp: types_ok_def vartype_try_get_def name_get_def)
  then have "types_grow s s'" using s'(3,4,5) fresh by (auto simp: types_grow_def)
  then show ?thesis using run s' by auto
qed

interpretation vt: name_registry vartype_try_get "\<lambda>nm. andthen (vartype_get_or_add n E nm) deref" types_ok
  for n and E :: "('x, 'd, 'r, 'z) tenv"
proof
  fix s :: "('x, 'd, 'r, 'z) ts" and k l i
  assume ok: "types_ok s"
  show "strcasecmp_eq k l \<Longrightarrow> vartype_try_get s k = vartype_try_get s l"
    using ok name_map_cong [of "vartypes s" k l] by (simp add: types_ok_def vartype_try_get_def name_get_def)
  show "strcasecmp_eq k l" if found: "vartype_try_get s k = Some i" "vartype_try_get s l = Some i"
  proof -
    obtain ty nm where "ts_types s i = Some ty" "vt_name ty = Some nm" "strcasecmp_eq k nm"
      using vartype_try_get_type [OF ok found(1)] .
    moreover obtain ty' nm' where "ts_types s i = Some ty'" "vt_name ty' = Some nm'" "strcasecmp_eq l nm'"
      using vartype_try_get_type [OF ok found(2)] .
    ultimately show ?thesis using strcasecmp_eq_trans [of k nm l] strcasecmp_eq_sym [of l nm'] by simp
  qed
  show "vartype_try_get s k = Some i \<Longrightarrow> andthen (vartype_get_or_add n E k) deref s = Done i s"
    by (simp add: vartype_get_or_add_def andthen_def)
  show "vartype_try_get s k = None \<Longrightarrow> \<exists>i s'. andthen (vartype_get_or_add n E k) deref s = Done i s' \<and> types_ok s' \<and>
      vartype_try_get s' = (\<lambda>l. if strcasecmp_eq l k then Some i else vartype_try_get s l)"
    using get_or_add_absent [OF ok, of k n E] by (auto simp: andthen_deref_Done)
qed

lemma get_or_add_grows:
  assumes ok: "types_ok s"
  obtains t s' where "vartype_get_or_add n E nm s = Done (Some t) s'" and "types_ok s'" and "types_grow s s'"
    and "vartype_try_get s' nm = Some t" and "ts_types s' t \<noteq> None"
proof (cases "vartype_try_get s nm")
  case None
  then show ?thesis using get_or_add_absent [OF ok None, of n E] that by auto
next
  case (Some t)
  then show ?thesis using that [of t s] vartype_try_get_type [OF ok Some] ok by (auto simp: vartype_get_or_add_def andthen_def)
qed

section \<open>Reading and printing an expression\<close>

fun plain_part :: "('x, 'd, 'r, 'z) ts \<Rightarrow> vartype_regex_part_t \<Rightarrow> c_string" where
  "plain_part s (VARTYPE_EXPR_STRING str) = str"
| "plain_part s (VARTYPE_EXPR_REF u) = VARTYPE_REF_START @ (case Option.bind (ts_types s u) vt_name of Some nm \<Rightarrow> nm | None \<Rightarrow> []) @ VARTYPE_REF_END"

definition plain_text :: "('x, 'd, 'r, 'z) ts \<Rightarrow> vartype_regex_part_t list \<Rightarrow> c_string" where
  "plain_text s ps = concat (map (plain_part s) (rev ps))"

lemma plain_text_simps [simp]: "plain_text s [] = []" "plain_text s (p # ps) = plain_text s ps @ plain_part s p"
  "plain_text s (ps @ qs) = plain_text s qs @ plain_text s ps"
  by (simp_all add: plain_text_def)

lemma assemble_plain:
  assumes "ps \<noteq> []" and "\<forall>u\<in>parts_refs ps. ts_types s u \<noteq> None"
  shows "vartype_regex_assemble g False ps s = Done (Some (plain_text s ps)) s"
  using assms
proof (induction ps)
  case (Cons p ps)
  then show ?case
    by (cases "ps = []"; cases p) (auto simp: strcat_save_def split: option.splits)
qed simp

text \<open>The text depends on the names of the types only.\<close>

lemma plain_text_cong:
  "\<forall>u\<in>parts_refs ps. Option.bind (ts_types s' u) vt_name = Option.bind (ts_types s u) vt_name \<Longrightarrow>
   plain_text s' ps = plain_text s ps"
proof (induction ps)
  case (Cons p ps)
  then show ?case by (cases p) simp_all
qed simp

lemma plain_text_grow:
  "types_grow s s' \<Longrightarrow> \<forall>u\<in>parts_refs ps. ts_types s u \<noteq> None \<Longrightarrow> plain_text s' ps = plain_text s ps"
  by (rule plain_text_cong) (auto simp: types_grow_def)

lemma strcasecmp_eq_append: "strcasecmp_eq a b \<Longrightarrow> strcasecmp_eq c d \<Longrightarrow> strcasecmp_eq (a @ c) (b @ d)"
  by (simp add: strcasecmp_eq_def)

lemma strstr_reference:
  assumes "strstr start VARTYPE_REF_START = Some (before, next)" and "strstr next VARTYPE_REF_END = Some (ref, stop)"
  shows "start = before @ VARTYPE_REF_START @ drop (length VARTYPE_REF_START) ref @ VARTYPE_REF_END @ drop 1 stop"
proof -
  have s: "start = before @ next" "take 4 next = VARTYPE_REF_START" "next = ref @ stop" "take 1 stop = VARTYPE_REF_END"
    using strstr_Some [OF assms(1)] strstr_Some [OF assms(2)]
    by (simp_all add: VARTYPE_REF_START_def VARTYPE_REF_END_def numeral_eq_Suc)
  then obtain rest where stop: "stop = CHR '')'' # rest" by (cases stop) (auto simp: VARTYPE_REF_END_def)
  have "4 \<le> length ref"
  proof (rule ccontr)
    assume "\<not> 4 \<le> length ref"
    then have less: "length ref < 4" by simp
    have "CHR '')'' \<in> set (take 4 next)"
      using less unfolding s(3) stop by (simp add: take_Cons' split: if_splits)
    then show False unfolding s(2) by (simp add: VARTYPE_REF_START_def)
  qed
  then have "take 4 ref = VARTYPE_REF_START" using s by simp
  then have "ref = VARTYPE_REF_START @ drop 4 ref" by (metis append_take_drop_id)
  then show ?thesis using s stop by (simp add: VARTYPE_REF_START_def VARTYPE_REF_END_def numeral_eq_Suc)
qed

lemma strstr_char: "strstr s [c] = Some (p, q) \<Longrightarrow> c \<notin> set p"
  by (induction s "[c]" arbitrary: p q rule: strstr.induct) (auto split: if_splits)

text \<open>Two texts that differ only in the case of names of types within references.\<close>

inductive same_but_name_case :: "c_string \<Rightarrow> c_string \<Rightarrow> bool" where
  no_reference: "same_but_name_case t t"
| reference: "strcasecmp_eq nm nm' \<Longrightarrow> CHR '')'' \<notin> set nm' \<Longrightarrow> same_but_name_case rest rest' \<Longrightarrow>
    same_but_name_case (before @ VARTYPE_REF_START @ nm @ VARTYPE_REF_END @ rest) (before @ VARTYPE_REF_START @ nm' @ VARTYPE_REF_END @ rest')"

lemma same_but_name_case_strcasecmp: "same_but_name_case a b \<Longrightarrow> strcasecmp_eq a b"
  by (induction rule: same_but_name_case.induct) (simp_all only: strcasecmp_eq_append strcasecmp_eq_refl)

text \<open>The parts read are pushed on those read before; printed, they are the text that was read, up to the case of
  the names of types.\<close>

lemma parse_loop_spec:
  "types_ok s \<Longrightarrow> \<exists>qs s'. vartype_regex_parse_loop n E prev start s = Done (qs @ prev) s' \<and> types_ok s' \<and> types_grow s s'
     \<and> qs \<noteq> [] \<and> (\<forall>u\<in>parts_refs qs. ts_types s' u \<noteq> None) \<and> same_but_name_case (plain_text s' qs) start"
proof (induction n E prev start arbitrary: s rule: vartype_regex_parse_loop.induct)
  case (1 n E prev start)
  show ?case
  proof (cases "\<exists>before next ref stop. strstr start VARTYPE_REF_START = Some (before, next) \<and> strstr next VARTYPE_REF_END = Some (ref, stop)")
    case False
    then have "vartype_regex_parse_loop n E prev start s = Done ([VARTYPE_EXPR_STRING start] @ prev) s"
      by (subst vartype_regex_parse_loop.simps) (auto simp: vartype_regex_add_string_def split: option.splits)
    then show ?thesis using 1(2) by (intro exI [of _ "[VARTYPE_EXPR_STRING start]"] exI [of _ s]) (simp add: same_but_name_case.no_reference)
  next
    case True
    then obtain before "next" ref stop where split: "strstr start VARTYPE_REF_START = Some (before, next)"
      "strstr next VARTYPE_REF_END = Some (ref, stop)" by blast
    let ?name = "drop (length VARTYPE_REF_START) ref"
    obtain t s1 where s1: "vartype_get_or_add n E ?name s = Done (Some t) s1" "types_ok s1" "types_grow s s1"
      "vartype_try_get s1 ?name = Some t" "ts_types s1 t \<noteq> None"
      using get_or_add_grows [OF 1(2)] by blast
    obtain ty nm where ty: "ts_types s1 t = Some ty" "vt_name ty = Some nm" "strcasecmp_eq ?name nm"
      using vartype_try_get_type [OF s1(2,4)] .
    let ?str = "if before = [] then [] else [VARTYPE_EXPR_STRING before]"
    let ?front = "VARTYPE_EXPR_REF t # ?str"
    obtain qs s2 where s2: "vartype_regex_parse_loop n E (?front @ prev) (drop 1 stop) s1 = Done (qs @ ?front @ prev) s2"
      "types_ok s2" "types_grow s1 s2" "qs \<noteq> []" "\<forall>u\<in>parts_refs qs. ts_types s2 u \<noteq> None"
      "same_but_name_case (plain_text s2 qs) (drop 1 stop)"
      using 1(1) [OF split(1) refl split(2) refl s1(2)] by blast
    have run: "vartype_regex_parse_loop n E prev start s = Done ((qs @ ?front) @ prev) s2"
      using split s1(1) s2(1)
      by (subst vartype_regex_parse_loop.simps)
         (simp add: vartype_regex_add_ref_def vartype_regex_add_string_def split: if_splits)
    have t2: "ts_types s2 t = Some ty" using ty(1) s2(3) by (simp add: types_grow_def)
    have "plain_text s2 (qs @ ?front) = before @ VARTYPE_REF_START @ nm @ VARTYPE_REF_END @ plain_text s2 qs"
      by (simp add: t2 ty(2))
    moreover have "CHR '')'' \<notin> set ?name" using strstr_char split(2) unfolding VARTYPE_REF_END_def by (metis in_set_dropD)
    note same_but_name_case.reference [OF strcasecmp_eq_sym [OF ty(3)] this s2(6), of before]
    ultimately have "same_but_name_case (plain_text s2 (qs @ ?front)) start"
      by (simp only: strstr_reference [OF split, symmetric])
    moreover have "\<forall>u\<in>parts_refs (qs @ ?front). ts_types s2 u \<noteq> None"
      using s2(5) t2 by (auto simp: parts_refs_def)
    ultimately show ?thesis
      using run s2(2) types_grow_trans [OF s1(3) s2(3)] by (intro exI [of _ "qs @ ?front"] exI [of _ s2]) simp
  qed
qed

text \<open>C23: any text can be read as a regular expression in a well-formed type store. The store stays well-formed, the
  types it has keep their definitions, and types that appear for the first time have none yet; the expression has
  parts that refer to types of the store, and printed without expansion it is the text again, in
  which at most the case of the names of types inside references differs.\<close>

theorem regex_parse_print:
  assumes "types_ok s"
  shows "\<exists>ps s'. vartype_regex_parse n E expr s = Done ps s' \<and> types_ok s' \<and> types_grow s s'
    \<and> (\<forall>u\<in>parts_refs ps. ts_types s' u \<noteq> None)
    \<and> (\<exists>printed. vartype_regex_assemble get_regex False ps s' = Done (Some printed) s' \<and> same_but_name_case printed expr)"
proof -
  obtain ps s' where "vartype_regex_parse n E expr s = Done ps s'" "types_ok s'" "types_grow s s'" "ps \<noteq> []"
    "\<forall>u\<in>parts_refs ps. ts_types s' u \<noteq> None" "same_but_name_case (plain_text s' ps) expr"
    using parse_loop_spec [OF assms, of n E "[]" expr] unfolding vartype_regex_parse_def by auto
  then show ?thesis using assemble_plain by blast
qed

section \<open>Adding a type\<close>

lemma parse_spec:
  assumes "types_ok s"
  obtains ps s' where "vartype_regex_parse n E expr s = Done ps s'" and "types_ok s'" and "types_grow s s'" and "ps \<noteq> []"
    and "\<forall>u\<in>parts_refs ps. ts_types s' u \<noteq> None" and "strcasecmp_eq (plain_text s' ps) expr"
  using parse_loop_spec [OF assms, of n E "[]" expr] that same_but_name_case_strcasecmp unfolding vartype_regex_parse_def by auto

text \<open>The text of a type without extensions, not expanded.\<close>

lemma get_regex_plain:
  assumes ok: "types_ok s" and ty: "ts_types s t = Some ty" "vt_expr ty = Some ps" "vt_extensions ty = []" and "0 < n"
  shows "vartype_get_regex n E t False s = Done (Some (plain_text s ps)) s"
proof -
  have unmarked: "\<not> expansion_in_progress ty" using ok ty(1) by (auto simp: types_ok_def marked_def)
  have "plain_table s t = Some (plain_type ty)" using ty(1) by (simp add: plain_table_def)
  then have wf: "ps \<noteq> []" "\<forall>u\<in>parts_refs ps. ts_types s u \<noteq> None"
    using ok ty(2) by (auto simp: types_ok_def table_wf_def plain_table_def)
  let ?s = "set_mark t True s"
  have "\<forall>u\<in>parts_refs ps. ts_types ?s u \<noteq> None" using wf(2) ty(1) by (simp add: set_mark_def)
  then have "vartype_regex_assemble g False ps ?s = Done (Some (plain_text ?s ps)) ?s" for g
    using wf(1) by (rule assemble_plain [rotated])
  moreover have "plain_part ?s = plain_part s"
  proof
    show "plain_part ?s p = plain_part s p" for p using ty(1) by (cases p) (simp_all add: set_mark_def)
  qed
  then have "plain_text ?s ps = plain_text s ps" by (simp add: plain_text_def)
  moreover obtain m where "n = Suc m" using assms(5) by (cases n) auto
  moreover have "set_mark t False ?s = s" using ty(1) unmarked by (simp add: set_mark_def fun_upd_idem)
  ultimately show ?thesis
    using get_regex_Done [OF ty(1,2) unmarked, of m E False "Some (plain_text s ps)" ?s] ty
    by (simp add: vartype_extension_append_regex_def set_mark_def)
qed

lemma table_wf_update:
  assumes "table_wf T" and "T t = Some ty" and "vt_extensions ty' = vt_extensions ty"
    and "\<And>ps. vt_expr ty' = Some ps \<Longrightarrow> ps \<noteq> [] \<and> (\<forall>u\<in>parts_refs ps. T u \<noteq> None)"
  shows "table_wf (T(t \<mapsto> ty'))"
  using assms unfolding table_wf_def by (auto 4 3)

text \<open>Changing a type but for its name.\<close>

lemma types_ok_update:
  assumes ok: "types_ok s" and ty: "ts_types s t = Some ty"
    and "vt_name ty' = vt_name ty" and "\<not> expansion_in_progress ty'" and "type_ok ty'"
    and wf: "table_wf ((plain_table s)(t \<mapsto> plain_type ty'))"
  shows "types_ok (s\<lparr>ts_types := (ts_types s)(t \<mapsto> ty')\<rparr>)"
proof -
  let ?s = "s\<lparr>ts_types := (ts_types s)(t \<mapsto> ty')\<rparr>"
  have "\<exists>ty. ts_types ?s u = Some ty \<and> vt_name ty = Some nm" if found: "hashmap_get (vartypes s) k = Some (nm, u)" for k nm u
  proof -
    obtain w where "ts_types s u = Some w" "vt_name w = Some nm" using ok found unfolding types_ok_def by blast
    then show ?thesis using ty assms(3) by (cases "u = t") auto
  qed
  moreover have "ts_types ?s u = None" if "ts_next s \<le> u" for u
    using ok ty that by (auto simp: types_ok_def)
  moreover have "marked ?s = {}" using ok assms(4) by (auto simp: types_ok_def marked_def)
  moreover have "type_ok w" if "ts_types ?s u = Some w" for u w
    using ok assms(5) that by (auto simp: types_ok_def split: if_splits)
  ultimately show ?thesis using ok wf unfolding types_ok_def plain_table_add by simp
qed

lemma types_ok_define:
  assumes ok: "types_ok s" and ty: "ts_types s t = Some ty"
    and parts: "ps \<noteq> []" "\<forall>u\<in>parts_refs ps. ts_types s u \<noteq> None"
  shows "types_ok (s\<lparr>ts_types := (ts_types s)(t \<mapsto> ty\<lparr>vt_expr := Some ps, vt_error_msg := em, vt_comment := c,
     vt_location := l, vt_predefined := False\<rparr>)\<rparr>)"
proof (rule types_ok_update [OF ok ty])
  let ?ty = "ty\<lparr>vt_expr := Some ps, vt_error_msg := em, vt_comment := c, vt_location := l, vt_predefined := False\<rparr>"
  show "\<not> expansion_in_progress ?ty" using ok ty by (auto simp: types_ok_def marked_def)
  show "table_wf ((plain_table s)(t \<mapsto> plain_type ?ty))"
    by (rule table_wf_update [of _ _ "plain_type ty"])
       (use ok ty parts in \<open>auto simp: types_ok_def plain_table_def plain_type_def\<close>)
qed (simp_all add: type_ok_def)

text \<open>When a definition is rejected: the type has one already and is not a predefined type with the same text.\<close>

definition definition_rejected :: "('x, 'd, 'r, 'z) ts \<Rightarrow> c_string \<Rightarrow> c_string \<Rightarrow> bool" where
  "definition_rejected s nm expr \<longleftrightarrow> (\<exists>t ty ps. vartype_try_get s nm = Some t \<and> ts_types s t = Some ty \<and> vt_expr ty = Some ps
     \<and> \<not> (vt_predefined ty \<and> plain_text s ps = expr))"

lemma definition_rejected_grow:
  assumes ok: "types_ok s" and grow: "types_grow s s1" and t: "vartype_try_get s1 nm = Some t" and ty: "ts_types s1 t = Some ty"
  shows "definition_rejected s nm expr \<longleftrightarrow>
    (\<exists>ps. vt_expr ty = Some ps \<and> \<not> (vt_predefined ty \<and> plain_text s1 ps = expr))"
proof (cases "vartype_try_get s nm")
  case None
  then obtain w where "ts_types s1 t = Some w" "vt_expr w = None" using grow t unfolding types_grow_def by blast
  then have "vt_expr ty = None" using ty by simp
  then show ?thesis using None by (simp add: definition_rejected_def)
next
  case (Some t0)
  then have "t0 = t" using grow t unfolding types_grow_def by auto
  moreover obtain ty0 where "ts_types s t0 = Some ty0" using vartype_try_get_type [OF ok Some] .
  ultimately have ty0: "ts_types s t = Some ty" using grow ty unfolding types_grow_def by auto
  have "plain_text s1 ps = plain_text s ps" if "vt_expr ty = Some ps" for ps
  proof (rule plain_text_grow [OF grow])
    have "plain_table s t = Some (plain_type ty)" using ty0 by (simp add: plain_table_def)
    then show "\<forall>u\<in>parts_refs ps. ts_types s u \<noteq> None"
      using ok that by (auto simp: types_ok_def table_wf_def plain_table_def)
  qed
  then show ?thesis using Some \<open>t0 = t\<close> ty0 by (auto simp: definition_rejected_def)
qed

lemma vartype_may_define_spec:
  assumes ok: "types_ok s" and ty: "ts_types s t = Some ty" and "0 < n"
  shows "vartype_may_define n E t (Some expr) s
    = Done (\<not> (\<exists>ps. vt_expr ty = Some ps \<and> \<not> (vt_predefined ty \<and> plain_text s ps = expr))) s"
proof (cases "vt_expr ty")
  case None
  then show ?thesis using ty by (simp add: vartype_may_define_def)
next
  case (Some ps)
  then show ?thesis
  proof (cases "vt_predefined ty")
    case True
    then have "vt_extensions ty = []" using ok ty by (auto simp: types_ok_def type_ok_def)
    then show ?thesis
      using True Some ty get_regex_plain [OF ok ty Some _ assms(3), of E] by (auto simp: vartype_may_define_def)
  qed (use ty in \<open>simp add: vartype_may_define_def\<close>)
qed

text \<open>C21: the outcome of defining a type. The call comes back and the store stays well-formed. It is rejected
  exactly if the type, under any spelling of its name, has a definition already, unless that is a predefined type
  and the text is the same; then nothing but undefined types is added. Otherwise the type found under the name has
  the definition, the messages and the location of the call, and all other types are as before.\<close>

theorem vartype_add_spec:
  assumes ok: "types_ok s" and "0 < n"
  shows "\<exists>result s'. vartype_add n E (Some nm) (Some expr) em c l s = Done result s' \<and> types_ok s'
    \<and> (result = None \<longleftrightarrow> definition_rejected s nm expr) \<and> (result = None \<longrightarrow> types_grow s s')
    \<and> (\<forall>t. result = Some t \<longrightarrow> vartype_try_get s' nm = Some t
       \<and> (\<exists>ty ps. ts_types s' t = Some ty \<and> vt_expr ty = Some ps \<and> strcasecmp_eq (plain_text s' ps) expr
            \<and> vt_error_msg ty = em \<and> vt_comment ty = c \<and> vt_location ty = l)
       \<and> (\<forall>u ty. u \<noteq> t \<longrightarrow> ts_types s u = Some ty \<longrightarrow> ts_types s' u = Some ty))"
proof -
  obtain ps s1 where s1: "vartype_regex_parse n E expr s = Done ps s1" "types_ok s1" "types_grow s s1" "ps \<noteq> []"
    "\<forall>u\<in>parts_refs ps. ts_types s1 u \<noteq> None" "strcasecmp_eq (plain_text s1 ps) expr"
    using parse_spec [OF ok] .
  have start: "vartype_add n E (Some nm) (Some expr) em c l s = vartype_enter n E (Some nm) (Some expr) (Some ps) em c l s1"
    using s1(1) by (simp add: vartype_add_def)
  have keep: "ts_types s u = Some ty \<Longrightarrow> ts_types s1 u = Some ty" for u ty
    using s1(3) by (simp add: types_grow_def)
  show ?thesis
  proof (cases "vartype_try_get s1 nm")
    case None
    then have new: "vartype_try_get s nm = None" using s1(3) by (cases "vartype_try_get s nm") (auto simp: types_grow_def)
    obtain s2 where s2: "vartype_enter n E (Some nm) (Some expr) (Some ps) em c l s1 = Done (Some (ts_next s1)) s2" "types_ok s2"
      "vartype_try_get s2 = (\<lambda>k. if strcasecmp_eq k nm then Some (ts_next s1) else vartype_try_get s1 k)"
      "ts_types s2 = (ts_types s1)(ts_next s1 \<mapsto> \<lparr>vt_name = Some nm, vt_expr = Some ps, vt_error_msg = em, vt_comment = c,
        vt_location = l, compiled_state = None, expansion_in_progress = False, vt_extensions = [],
        vt_temporary = False, vt_predefined = False, vt_incomplete = True\<rparr>)"
      using vartype_enter_new [OF s1(2) None, of "Some ps" n E "Some expr" em c l] s1(4,5) by auto
    have fresh: "ts_types s1 (ts_next s1) = None" using s1(2) by (simp add: types_ok_def)
    have "plain_text s2 ps = plain_text s1 ps"
      by (rule plain_text_cong) (use s1(5) s2(4) fresh in auto)
    then show ?thesis
      using start s2 s1(6) new keep fresh by (intro exI [of _ "Some (ts_next s1)"] exI [of _ s2]) (auto simp: definition_rejected_def)
  next
    case (Some t)
    obtain ty where ty: "ts_types s1 t = Some ty" using vartype_try_get_type [OF s1(2) Some] by blast
    let ?taken = "\<exists>qs. vt_expr ty = Some qs \<and> \<not> (vt_predefined ty \<and> plain_text s1 qs = expr)"
    have rejected: "definition_rejected s nm expr \<longleftrightarrow> ?taken" by (rule definition_rejected_grow [OF ok s1(3) Some ty])
    have may: "vartype_may_define n E t (Some expr) s1 = Done (\<not> ?taken) s1"
      by (rule vartype_may_define_spec [OF s1(2) ty assms(2)])
    show ?thesis
    proof (cases ?taken)
      case True
      then show ?thesis
        using start may Some s1(2,3) rejected
        by (intro exI [of _ None] exI [of _ s1]) (simp add: vartype_enter_def andthen_def)
    next
      case False
      let ?ty = "ty\<lparr>vt_expr := Some ps, vt_error_msg := em, vt_comment := c, vt_location := l, vt_predefined := False\<rparr>"
      let ?s = "s1\<lparr>ts_types := (ts_types s1)(t \<mapsto> ?ty)\<rparr>"
      have run: "vartype_add n E (Some nm) (Some expr) em c l s = Done (Some t) ?s"
        using start may False Some ty by (simp add: vartype_enter_def)
      have "types_ok ?s" by (rule types_ok_define [OF s1(2) ty s1(4,5)])
      moreover have "plain_text ?s ps = plain_text s1 ps" by (rule plain_text_cong) (simp add: ty)
      moreover have "vartype_try_get ?s nm = Some t" using Some by (simp add: vartype_try_get_def)
      ultimately show ?thesis
        using run False rejected s1(6) keep by (intro exI [of _ "Some t"] exI [of _ ?s]) simp
    qed
  qed
qed

text \<open>A store without types, for examples.\<close>

definition no_types :: "package_store \<Rightarrow> (nat, nat, nat) type_store" where
  "no_types pk = \<lparr>st_vars = (\<lambda>_. None), ts_packages = pk, ts_types = (\<lambda>_. None), ts_next = 0, vartypes = empty_name_map,
     anon_vartypes = \<lparr>elem_number = 64, last_index = -1, cells = replicate 64 None\<rparr>\<rparr>"

lemma no_types_ok: "packages_ok pk \<Longrightarrow> types_ok (no_types pk)"
  by (auto simp: types_ok_def no_types_def empty_name_map_ok empty_name_map_get table_wf_def plain_table_def marked_def
      array_inv_def array_elems_def)

definition example_location :: location_t where
  "example_location = \<lparr>loc_file = (1, 1), loc_line = 3, loc_column = 1\<rparr>"

theorem regex_parse_print_witness:
  "\<exists>s :: (nat, nat, nat) type_store. types_ok s
     \<and> (\<exists>ps s' printed. vartype_regex_parse 1 plain_env ''[(RE:digit)]+'' s = Done ps s' \<and> types_ok s'
        \<and> vartype_regex_assemble (\<lambda>t. ret None) False ps s' = Done (Some printed) s' \<and> same_but_name_case printed ''[(RE:digit)]+'')"
proof -
  obtain pk where "packages_ok pk" using package_core_init_ok [of no_packages] by blast
  then have ok: "types_ok (no_types pk)" by (rule no_types_ok)
  then show ?thesis
    using regex_parse_print [OF ok, of 1 plain_env "''[(RE:digit)]+''" "\<lambda>t. ret None"] by blast
qed

theorem vartype_add_spec_witness:
  "\<exists>s :: (nat, nat, nat) type_store. types_ok s \<and> (0::nat) < 1
     \<and> (\<exists>t s' ty. vartype_add 1 plain_env (Some ''PORT'') (Some ''(RE:DIGIT)+'') ''port expected'' [] example_location s = Done (Some t) s'
        \<and> types_ok s' \<and> vartype_try_get s' ''PORT'' = Some t \<and> ts_types s' t = Some ty \<and> vt_error_msg ty = ''port expected'')"
  (is "\<exists>s. ?P s")
proof -
  obtain pk where "packages_ok pk" using package_core_init_ok [of no_packages] by blast
  then have ok: "types_ok (no_types pk)" by (rule no_types_ok)
  moreover have "\<not> definition_rejected (no_types pk) ''PORT'' ''(RE:DIGIT)+''"
    by (simp add: definition_rejected_def vartype_try_get_def name_get_def no_types_def empty_name_map_get)
  ultimately have "?P (no_types pk)"
    using vartype_add_spec [OF ok, of 1 plain_env "''PORT''" "''(RE:DIGIT)+''" "''port expected''" "[]" example_location]
    by (auto simp: not_None_eq)
  then show ?thesis by blast
qed

section \<open>Predefined types\<close>

text \<open>A type whose expression is a single string and that has no extensions.\<close>

lemma get_regex_string:
  assumes "ts_types s t = Some ty" and "vt_expr ty = Some [VARTYPE_EXPR_STRING str]" and "vt_extensions ty = []"
    and "\<not> expansion_in_progress ty" and "0 < n"
  shows "vartype_get_regex n E t expand s = Done (Some str) s"
proof -
  obtain m where "n = Suc m" using assms(5) by (cases n) auto
  moreover have "set_mark t False (set_mark t True s) = s"
    using assms(1,4) by (simp add: set_mark_def fun_upd_idem)
  ultimately show ?thesis
    using get_regex_Done [OF assms(1,2,4), of m E expand "Some str" "set_mark t True s"] assms
    by (simp add: vartype_extension_append_regex_def set_mark_def strcat_save_def)
qed

lemma compile_string:
  assumes ty: "ts_types s t = Some ty" "vt_expr ty = Some [VARTYPE_EXPR_STRING str]" "vt_extensions ty = []"
    "\<not> expansion_in_progress ty" "compiled_state ty = None" "vt_incomplete ty" and "0 < n"
    and rx: "regcomp R (complete_regex True str) = Some rx"
  shows "vartype_compile R n E t s = Done True (s\<lparr>ts_types := (ts_types s)(t \<mapsto> ty\<lparr>compiled_state :=
    Some \<lparr>cs_regex = rx, complete_error_msg = vt_error_msg ty, complete_comment = vt_comment ty\<rparr>\<rparr>)\<rparr>)"
proof -
  let ?ty = "ty\<lparr>compiled_state := Some \<lparr>cs_regex = rx, complete_error_msg = vt_error_msg ty, complete_comment = vt_comment ty\<rparr>\<rparr>"
  let ?s = "s\<lparr>ts_types := (ts_types s)(t \<mapsto> ?ty)\<rparr>"
  have "vartype_get_regex n E t False ?s = Done (Some str) ?s"
    by (rule get_regex_string [of _ _ ?ty]) (use assms in simp_all)
  then show ?thesis
    using get_regex_string [OF ty(1-4) assms(7), of E True] ty rx
    by (simp add: vartype_compile_def vartype_extension_assemble_error_message_def vartype_extension_assemble_comment_def)
qed

lemma parse_string:
  "strstr expr VARTYPE_REF_START = None \<Longrightarrow> vartype_regex_parse n E expr s = Done [VARTYPE_EXPR_STRING expr] s"
  by (simp add: vartype_regex_parse_def vartype_regex_parse_loop.simps vartype_regex_add_string_def)

definition predefined_as :: "'r regex_lib \<Rightarrow> ('x, 'd, 'r, 'z) ts \<Rightarrow> c_string \<Rightarrow> c_string \<Rightarrow> c_string \<Rightarrow> c_string \<Rightarrow> bool" where
  "predefined_as R s nm expr em c \<longleftrightarrow> (\<exists>t ty rx. vartype_try_get s nm = Some t \<and> ts_types s t = Some ty
     \<and> vt_name ty = Some nm \<and> vt_expr ty = Some [VARTYPE_EXPR_STRING expr] \<and> vt_predefined ty
     \<and> regcomp R (complete_regex True expr) = Some rx
     \<and> compiled_state ty = Some \<lparr>cs_regex = rx, complete_error_msg = em, complete_comment = c\<rparr>)"

lemma predefined_as_mono:
  assumes "predefined_as R s nm expr em c"
    and "\<And>t. vartype_try_get s nm = Some t \<Longrightarrow> vartype_try_get s' nm = Some t"
    and "\<And>t. ts_types s t \<noteq> None \<Longrightarrow> ts_types s' t = ts_types s t"
  shows "predefined_as R s' nm expr em c"
proof -
  obtain t ty rx where t: "vartype_try_get s nm = Some t" "ts_types s t = Some ty" "vt_name ty = Some nm"
    "vt_expr ty = Some [VARTYPE_EXPR_STRING expr]" "vt_predefined ty" "regcomp R (complete_regex True expr) = Some rx"
    "compiled_state ty = Some \<lparr>cs_regex = rx, complete_error_msg = em, complete_comment = c\<rparr>"
    using assms(1) unfolding predefined_as_def by blast
  then show ?thesis using assms(2,3) unfolding predefined_as_def by (metis option.discI)
qed

lemma create_predefined_spec:
  assumes ok: "types_ok s" and new: "vartype_try_get s nm = None" and "strstr expr VARTYPE_REF_START = None"
    and rx: "regcomp R (complete_regex True expr) = Some rx" and "0 < n"
  shows "\<exists>s'. vartype_create_predefined_type R n E nm expr em c s = Done () s' \<and> types_ok s'
    \<and> vartype_try_get s' = (\<lambda>k. if strcasecmp_eq k nm then Some (ts_next s) else vartype_try_get s k)
    \<and> predefined_as R s' nm expr em c
    \<and> (\<forall>nm' expr' em' c'. predefined_as R s nm' expr' em' c' \<longrightarrow> predefined_as R s' nm' expr' em' c')"
proof -
  obtain l where l: "location_create_internal PACKAGE_FILE_TYPE_VARTYPE (ts_packages s) = Done l (ts_packages s)"
    using internal_location ok unfolding types_ok_def by blast
  let ?t = "ts_next s"
  let ?ty = "\<lparr>vt_name = Some nm, vt_expr = Some [VARTYPE_EXPR_STRING expr], vt_error_msg = em, vt_comment = c, vt_location = l,
    compiled_state = None, expansion_in_progress = False, vt_extensions = [], vt_temporary = False, vt_predefined = False,
    vt_incomplete = True\<rparr>"
  obtain s1 where s1: "vartype_enter n E (Some nm) (Some expr) (Some [VARTYPE_EXPR_STRING expr]) em c l s = Done (Some ?t) s1"
    "types_ok s1" "vartype_try_get s1 = (\<lambda>k. if strcasecmp_eq k nm then Some ?t else vartype_try_get s k)"
    "ts_types s1 = (ts_types s)(?t \<mapsto> ?ty)"
    using vartype_enter_new [OF ok new, of "Some [VARTYPE_EXPR_STRING expr]" n E "Some expr" em c l] by auto
  let ?cs = "Some \<lparr>cs_regex = rx, complete_error_msg = em, complete_comment = c\<rparr>"
  let ?s2 = "s1\<lparr>ts_types := (ts_types s)(?t \<mapsto> ?ty\<lparr>vt_predefined := True\<rparr>)\<rparr>"
  let ?new = "?ty\<lparr>vt_predefined := True, compiled_state := ?cs\<rparr>"
  let ?s3 = "s1\<lparr>ts_types := (ts_types s1)(?t \<mapsto> ?new)\<rparr>"
  have "vartype_compile R n E ?t ?s2 = Done True ?s3"
    using compile_string [of ?s2 ?t "?ty\<lparr>vt_predefined := True\<rparr>" expr n R rx E] assms(5) rx s1(4) by simp
  then have run: "vartype_create_predefined_type R n E nm expr em c s = Done () ?s3"
    using l s1(1,4) by (simp add: vartype_create_predefined_type_def on_packages_def vartype_add_def
        parse_string [OF assms(3)] andthen_def)
  have "types_ok ?s3"
  proof (rule types_ok_update [OF s1(2), where ty = ?ty])
    show "table_wf ((plain_table s1)(?t \<mapsto> plain_type ?new))"
      by (rule table_wf_update [of _ _ "plain_type ?ty"])
         (use s1(2,4) in \<open>auto simp: types_ok_def plain_table_def plain_type_def\<close>)
  qed (simp_all add: s1(4) type_ok_def)
  moreover have get: "vartype_try_get ?s3 = (\<lambda>k. if strcasecmp_eq k nm then Some ?t else vartype_try_get s k)"
    using s1(3) by (simp add: vartype_try_get_def fun_eq_iff)
  moreover have "predefined_as R ?s3 nm expr em c" using rx get by (auto simp: predefined_as_def)
  moreover have "predefined_as R ?s3 nm' expr' em' c'" if "predefined_as R s nm' expr' em' c'" for nm' expr' em' c'
  proof (rule predefined_as_mono [OF that])
    have fresh: "ts_types s ?t = None" using ok by (simp add: types_ok_def)
    show "ts_types s u \<noteq> None \<Longrightarrow> ts_types ?s3 u = ts_types s u" for u using fresh s1(4) by auto
    show "vartype_try_get s nm' = Some u \<Longrightarrow> vartype_try_get ?s3 nm' = Some u" for u
      unfolding get using new vt.find_cong [OF ok, of nm' nm] by auto
  qed
  ultimately show ?thesis using run by blast
qed

text \<open>Initialising the module comes back and makes the three predefined types, compiled with their error messages
  and comments, in a well-formed store with no other types, provided the library compiles their expressions.\<close>

lemma vartype_init_predefined:
  assumes "packages_ok (ts_packages s)" and "ts_types s = (\<lambda>_. None)" and "0 < n"
    and "\<forall>expr\<in>{''.*'', ''0|[1-9][0-9]*'', ''yes|no''}. regcomp R (complete_regex True expr) \<noteq> None"
  shows "\<exists>s'. vartype_init_module R n E s = Done () s' \<and> types_ok s'
    \<and> predefined_as R s' ''NONE'' ''.*'' [] ''matches any value''
    \<and> predefined_as R s' ''NUMERIC'' ''0|[1-9][0-9]*'' ''unsigned number expected'' ''unsigned integer number''
    \<and> predefined_as R s' ''YESNO'' ''yes|no'' ''yes or no expected'' ''boolean value (yes or no)''
    \<and> (\<forall>k. vartype_try_get s' k \<noteq> None \<longleftrightarrow> strupper k \<in> {''NONE'', ''NUMERIC'', ''YESNO''})"
proof -
  obtain m :: "vartype_id name_map" where m: "hashmap_create fst 1024 hash_ci_string compare_ci_string_keys True s = Done m s"
    "name_map_ok m" "hashmap_get m = (\<lambda>_. None)"
    using hashmap_create_ci [of True s] .
  obtain a :: "vartype_id array_t" where a: "init_array 64 s = Done a s" "array_inv a" "array_elems a = []"
    using init_array_inv [of 64 s] by auto
  let ?s0 = "s\<lparr>vartypes := m, anon_vartypes := a\<rparr>"
  have init: "vartype_core_init s = Done () ?s0" using m(1) a(1) by (simp add: vartype_core_init_def)
  have ok: "types_ok ?s0"
    using assms(1,2) m a by (auto simp: types_ok_def table_wf_def plain_table_def marked_def)
  obtain r1 r2 r3 where rx: "regcomp R (complete_regex True ''.*'') = Some r1"
    "regcomp R (complete_regex True ''0|[1-9][0-9]*'') = Some r2" "regcomp R (complete_regex True ''yes|no'') = Some r3"
    using assms(4) by auto
  have refs: "strstr ''.*'' VARTYPE_REF_START = None" "strstr ''0|[1-9][0-9]*'' VARTYPE_REF_START = None"
    "strstr ''yes|no'' VARTYPE_REF_START = None" by code_simp+
  have up: "strcasecmp_eq k ''NONE'' \<longleftrightarrow> strupper k = ''NONE''" "strcasecmp_eq k ''NUMERIC'' \<longleftrightarrow> strupper k = ''NUMERIC''"
    "strcasecmp_eq k ''YESNO'' \<longleftrightarrow> strupper k = ''YESNO''" for k
    unfolding strcasecmp_eq_strupper by (simp_all add: strupper_def toupper_def islower_def)
  have ne: "strupper ''NONE'' = ''NONE''" "strupper ''NUMERIC'' = ''NUMERIC''" "strupper ''YESNO'' = ''YESNO''" by code_simp+
  have none: "vartype_try_get ?s0 k = None" for k using m(3) by (simp add: vartype_try_get_def name_get_def)
  obtain s1 where s1: "vartype_create_predefined_type R n E ''NONE'' ''.*'' [] ''matches any value'' ?s0 = Done () s1" "types_ok s1"
    "vartype_try_get s1 = (\<lambda>k. if strcasecmp_eq k ''NONE'' then Some (ts_next ?s0) else vartype_try_get ?s0 k)"
    "predefined_as R s1 ''NONE'' ''.*'' [] ''matches any value''"
    using create_predefined_spec [OF ok none refs(1) rx(1) assms(3)] by blast
  have new1: "vartype_try_get s1 ''NUMERIC'' = None" unfolding s1(3) using none by (simp add: up ne)
  obtain s2 where s2: "vartype_create_predefined_type R n E ''NUMERIC'' ''0|[1-9][0-9]*'' ''unsigned number expected''
      ''unsigned integer number'' s1 = Done () s2" "types_ok s2"
    "vartype_try_get s2 = (\<lambda>k. if strcasecmp_eq k ''NUMERIC'' then Some (ts_next s1) else vartype_try_get s1 k)"
    "predefined_as R s2 ''NUMERIC'' ''0|[1-9][0-9]*'' ''unsigned number expected'' ''unsigned integer number''"
    "\<And>nm expr em c. predefined_as R s1 nm expr em c \<Longrightarrow> predefined_as R s2 nm expr em c"
    using create_predefined_spec [OF s1(2) new1 refs(2) rx(2) assms(3)] by blast
  have new2: "vartype_try_get s2 ''YESNO'' = None" unfolding s2(3) s1(3) using none by (simp add: up ne)
  obtain s3 where s3: "vartype_create_predefined_type R n E ''YESNO'' ''yes|no'' ''yes or no expected''
      ''boolean value (yes or no)'' s2 = Done () s3" "types_ok s3"
    "vartype_try_get s3 = (\<lambda>k. if strcasecmp_eq k ''YESNO'' then Some (ts_next s2) else vartype_try_get s2 k)"
    "predefined_as R s3 ''YESNO'' ''yes|no'' ''yes or no expected'' ''boolean value (yes or no)''"
    "\<And>nm expr em c. predefined_as R s2 nm expr em c \<Longrightarrow> predefined_as R s3 nm expr em c"
    using create_predefined_spec [OF s2(2) new2 refs(3) rx(3) assms(3)] by blast
  have "vartype_try_get s3 k \<noteq> None \<longleftrightarrow> strupper k \<in> {''NONE'', ''NUMERIC'', ''YESNO''}" for k
    unfolding s3(3) s2(3) s1(3) up using none by auto
  moreover have "vartype_init_module R n E s = Done () s3"
    using init s1(1) s2(1) s3(1) by (simp add: vartype_init_module_def vartype_create_predefined_types_def
        VARTYPE_PREDEFINED_ANYTHING_def VARTYPE_PREDEFINED_UNSIGNED_INTEGER_def VARTYPE_PREDEFINED_BOOLEAN_def)
  ultimately show ?thesis using s3(2,4,5) s2(4,5) s1(4) by blast
qed

text \<open>A library for examples that compiles every expression to a number and matches nothing.\<close>

definition example_lib :: "nat regex_lib" where
  "example_lib = \<lparr>regcomp = \<lambda>str. Some (length str), re_nsub = \<lambda>r. 0, regexec = \<lambda>r v k. None\<rparr>"

text \<open>C39: a package may define a predefined type again with the same expression. The type then has the messages of
  the package, but the compiled state made for the predefined type stays: compiling the type does nothing, and
  the complete error message and comment, which are the ones reported, are still those of the program.\<close>

theorem predefined_messages_kept:
  assumes ok: "types_ok s" and "0 < n" and t: "vartype_try_get s nm = Some t" and ty: "ts_types s t = Some ty"
    and "vt_predefined ty" and "vt_expr ty = Some ps" and "plain_text s ps = expr" and cs: "compiled_state ty = Some cs"
  shows "\<exists>s' ty'. vartype_add n E (Some nm) (Some expr) em c l s = Done (Some t) s' \<and> ts_types s' t = Some ty'
    \<and> vt_error_msg ty' = em \<and> vt_comment ty' = c
    \<and> vartype_compile R n E t s' = Done True s'
    \<and> vartype_get_complete_error_message t s' = Done (complete_error_msg cs) s'
    \<and> vartype_get_complete_comment t s' = Done (complete_comment cs) s'"
proof -
  obtain qs s1 where s1: "vartype_regex_parse n E expr s = Done qs s1" "types_ok s1" "types_grow s s1"
    using parse_spec [OF ok] by blast
  have t1: "vartype_try_get s1 nm = Some t" "ts_types s1 t = Some ty" using s1(3) t ty by (simp_all add: types_grow_def)
  have "\<not> definition_rejected s nm expr" using assms by (simp add: definition_rejected_def)
  then have "vartype_may_define n E t (Some expr) s1 = Done True s1"
    using vartype_may_define_spec [OF s1(2) t1(2) assms(2), of E expr] definition_rejected_grow [OF ok s1(3) t1] by simp
  then have run: "vartype_add n E (Some nm) (Some expr) em c l s = Done (Some t) (s1\<lparr>ts_types := (ts_types s1)(t \<mapsto>
      ty\<lparr>vt_expr := Some qs, vt_error_msg := em, vt_comment := c, vt_location := l, vt_predefined := False\<rparr>)\<rparr>)"
    using s1(1) t1 by (simp add: vartype_add_def vartype_enter_def andthen_def)
  show ?thesis
    unfolding run using cs
    by (simp add: vartype_compile_def vartype_get_complete_error_message_def vartype_get_complete_comment_def compiled_of_def)
qed

theorem predefined_messages_kept_witness:
  "\<exists>(s :: (nat, nat, nat) type_store) t ty s'. types_ok s \<and> vartype_try_get s ''YESNO'' = Some t \<and> ts_types s t = Some ty
     \<and> vt_predefined ty
     \<and> vartype_add 1 plain_env (Some ''YESNO'') (Some ''yes|no'') ''ja oder nein'' [] example_location s = Done (Some t) s'
     \<and> vartype_get_complete_error_message t s' = Done ''yes or no expected'' s'"
proof -
  obtain pk where "packages_ok pk" using package_core_init_ok [of no_packages] by blast
  then have ok: "types_ok (no_types pk)" by (rule no_types_ok)
  have new: "vartype_try_get (no_types pk) ''YESNO'' = None" "strstr ''yes|no'' VARTYPE_REF_START = None"
    by (simp add: vartype_try_get_def name_get_def no_types_def empty_name_map_get) code_simp
  obtain s :: "(nat, nat, nat) type_store" where s: "types_ok s" "predefined_as example_lib s ''YESNO'' ''yes|no'' ''yes or no expected'' []"
  proof -
    have "regcomp example_lib (complete_regex True ''yes|no'') = Some (length (complete_regex True ''yes|no''))"
      by (simp add: example_lib_def)
    from create_predefined_spec [OF ok new this zero_less_one, of plain_env "''yes or no expected''" "[]"] show ?thesis
      using that by blast
  qed
  then obtain t ty where t: "vartype_try_get s ''YESNO'' = Some t" "ts_types s t = Some ty" "vt_predefined ty"
    "vt_expr ty = Some [VARTYPE_EXPR_STRING ''yes|no'']"
    "\<exists>rx. compiled_state ty = Some \<lparr>cs_regex = rx, complete_error_msg = ''yes or no expected'', complete_comment = []\<rparr>"
    unfolding predefined_as_def by blast
  then show ?thesis
    using predefined_messages_kept [OF s(1) _ t(1-4), of 1 "''yes|no''"] s(1) by fastforce
qed

end
