(* ===== verification/Type_Compile.thy ===== *)
theory Type_Compile
  imports Type_System
begin

text \<open>
  Compiling a type and matching values against it, \<open>vartype_compile\<close> and \<open>vartype_match\<close> of
  \<open>vartype/regex.c\<close>, for types with references and extensions. The contract of the conditions is extended: they
  do not depend on which types are compiled.
\<close>

definition set_compiled ::
  "vartype_id \<Rightarrow> 'r vartype_compiled_state_t option \<Rightarrow> ('x, 'd, 'r, 'z) ts \<Rightarrow> ('x, 'd, 'r, 'z) ts" where
  "set_compiled t cs s = (case ts_types s t of None \<Rightarrow> s
     | Some ty \<Rightarrow> s\<lparr>ts_types := (ts_types s)(t \<mapsto> ty\<lparr>compiled_state := cs\<rparr>)\<rparr>)"

lemma plain_table_set_compiled [simp]: "plain_table (set_compiled t cs s) = plain_table s"
  by (rule ext) (simp add: plain_table_def set_compiled_def plain_type_def split: option.splits)

lemma marked_set_compiled [simp]: "marked (set_compiled t cs s) = marked s"
  by (auto simp: marked_def set_compiled_def split: option.splits if_splits)

definition compiled_table :: "('x, 'd, 'r, 'z) ts \<Rightarrow> vartype_id \<Rightarrow> 'r vartype_compiled_state_t option" where
  "compiled_table s t = Option.bind (ts_types s t) compiled_state"

lemma compiled_table_set_mark [simp]: "compiled_table (set_mark t b s) = compiled_table s"
  by (rule ext) (simp add: compiled_table_def set_mark_def split: option.splits)

definition enabled_text :: "choice \<Rightarrow> (vartype_extension_t \<Rightarrow> c_string) \<Rightarrow> vartype_id \<Rightarrow> 'r vartype_t \<Rightarrow> c_string" where
  "enabled_text en txt t ty = concat (map txt (enabled_extensions en t ty))"

context extension_conditions
begin

lemma view_type:
  assumes "view T P s" and "T t = Some ty"
  obtains ty' where "ts_types s t = Some ty'" and "ty = plain_type ty'" and "expansion_in_progress ty' \<longleftrightarrow> t \<in> P"
  using assms by (auto simp: view_def plain_table_Some marked_def)

lemma view_refs: "view T P s \<Longrightarrow> \<forall>u\<in>S. T u \<noteq> None \<Longrightarrow> \<forall>u\<in>S. ts_types s u \<noteq> None"
  by (auto simp: view_def plain_table_def)

lemma enabled_view:
  assumes "view T P s" and "T t = Some ty" and "i < length (vt_extensions ty)"
  obtains s' x where "vartype_extension_enabled E t i s = Done (en t i) s'" and "view T P s'"
    and "get_extension t i s' = Done x s'" and "plain_extension x = vt_extensions ty ! i"
proof -
  obtain ty0 where ty0: "ts_types s t = Some ty0" "ty = plain_type ty0" using view_type [OF assms(1,2)] .
  then obtain s' where s': "vartype_extension_enabled E t i s = Done (en t i) s'" "view T P s'"
    using enabled_ok [of s t ty0 i] assms(1,3) by (auto simp: view_def)
  obtain ty1 where "ts_types s' t = Some ty1" "ty = plain_type ty1" using view_type [OF s'(2) assms(2)] .
  then show ?thesis using that s' assms(3) by (simp add: plain_type_def)
qed

lemma append_plain_comes_back:
  assumes wf: "table_wf T" and ty: "T t = Some ty"
  shows "set is \<subseteq> {..<length (vt_extensions ty)} \<Longrightarrow> view T P s \<Longrightarrow>
    \<exists>r' s'. append_regex_loop E g False t is r s = Done r' s' \<and> view T P s'"
proof (induction "is" arbitrary: r s)
  case (Cons i "is")
  then have i: "i < length (vt_extensions ty)" by simp
  obtain s1 x where s1: "vartype_extension_enabled E t i s = Done (en t i) s1" "view T P s1"
    "get_extension t i s1 = Done x s1" "plain_extension x = vt_extensions ty ! i"
    using enabled_view [OF Cons.prems(2) ty i] .
  have "vt_extensions ty ! i \<in> set (vt_extensions ty)" using Cons.prems(1) by simp
  moreover have "ext_expr x = ext_expr (vt_extensions ty ! i)" by (simp add: s1(4) [symmetric] plain_extension_def)
  ultimately have "ext_expr x \<noteq> []" "\<forall>u\<in>parts_refs (ext_expr x). T u \<noteq> None" using wf ty by (auto simp: table_wf_def)
  then have asm: "vartype_regex_assemble g False (ext_expr x) s1 = Done (Some (plain_text s1 (ext_expr x))) s1"
    using view_refs [OF s1(2)] by (intro assemble_plain)
  have IH: "\<exists>r' s'. append_regex_loop E g False t is r s1 = Done r' s' \<and> view T P s'" for r
    using Cons.IH s1(2) Cons.prems(1) by simp
  show ?case
  proof (cases "en t i")
    case True
    then show ?thesis using s1(1,3) asm IH by (simp add: andthen_def)
  next
    case False
    then show ?thesis using s1(1) IH [of r] by (simp add: andthen_def)
  qed
qed simp

lemma get_regex_plain_comes_back:
  assumes wf: "table_wf T" and s: "view T P s" and ty: "T t = Some ty" and "0 < n"
  shows "\<exists>r s'. vartype_get_regex n E t False s = Done r s' \<and> view T P s'"
proof -
  obtain m where m: "n = Suc m" using assms(4) by (cases n) auto
  obtain ty0 where ty0: "ts_types s t = Some ty0" "ty = plain_type ty0" "expansion_in_progress ty0 \<longleftrightarrow> t \<in> P"
    using view_type [OF s ty] .
  show ?thesis
  proof (cases "\<exists>ps. vt_expr ty0 = Some ps \<and> t \<notin> P")
    case False
    then show ?thesis using s ty0 m by (auto split: option.splits)
  next
    case True
    then obtain ps where ps: "vt_expr ty0 = Some ps" "t \<notin> P" by blast
    let ?s = "set_mark t True s"
    have s1: "view T (insert t P) ?s" using view_set_mark [OF s, of t True] ty by simp
    have "ps \<noteq> []" "\<forall>u\<in>parts_refs ps. T u \<noteq> None" using wf ty ty0 ps by (auto simp: table_wf_def)
    then have asm: "vartype_regex_assemble g False ps ?s = Done (Some (plain_text ?s ps)) ?s" for g
      using view_refs [OF s1] by (intro assemble_plain)
    let ?g = "\<lambda>u. vartype_get_regex m E u True"
    obtain ty1 where ty1: "ts_types ?s t = Some ty1" "ty = plain_type ty1" using view_type [OF s1 ty] .
    obtain r s2 where s2: "append_regex_loop E ?g False t [0..<length (vt_extensions ty)] (plain_text ?s ps) ?s = Done r s2"
      "view T (insert t P) s2"
      using append_plain_comes_back [OF wf ty _ s1] by (metis atLeastLessThan_upt lessThan_atLeast0 subset_refl)
    have len: "length (vt_extensions ty) = length (vt_extensions ty1)" by (simp add: ty1(2))
    have "ts_types s2 t \<noteq> None" using view_type [OF s2(2) ty] by auto
    then have "vartype_get_regex n E t False s = Done r (set_mark t False s2)"
      unfolding m using asm s2(1) [unfolded len] ty0(3) ty1(1) ps(2)
      by (intro get_regex_Done [OF ty0(1) ps(1)]) (simp_all add: vartype_extension_append_regex_def)
    moreover have "view T P (set_mark t False s2)" using view_set_mark [OF s2(2), of t False] ty ps(2) by simp
    ultimately show ?thesis by blast
  qed
qed

lemma assemble_texts_view:
  assumes ty: "T t = Some ty" and same: "\<And>x. txt (plain_extension x) = txt x"
  shows "set is \<subseteq> {..<length (vt_extensions ty)} \<Longrightarrow> view T P s \<Longrightarrow> \<exists>s'. assemble_texts E txt t is r s
    = Done (r @ concat (map (\<lambda>i. txt (vt_extensions ty ! i)) (filter (en t) is))) s' \<and> view T P s'"
proof (induction "is" arbitrary: r s)
  case (Cons i "is")
  then have i: "i < length (vt_extensions ty)" by simp
  obtain s1 x where s1: "vartype_extension_enabled E t i s = Done (en t i) s1" "view T P s1"
    "get_extension t i s1 = Done x s1" "plain_extension x = vt_extensions ty ! i"
    using enabled_view [OF Cons.prems(2) ty i] .
  have x: "txt (vt_extensions ty ! i) = txt x" using same [of x] s1(4) by simp
  have IH: "\<exists>s'. assemble_texts E txt t is r s1
      = Done (r @ concat (map (\<lambda>i. txt (vt_extensions ty ! i)) (filter (en t) is))) s' \<and> view T P s'" for r
    using Cons.IH s1(2) Cons.prems(1) by simp
  show ?case
  proof (cases "en t i")
    case True
    then show ?thesis using s1(1,3) IH [of "r @ txt x"] x by (simp add: andthen_def)
  next
    case False
    then show ?thesis using s1(1) IH [of r] by (simp add: andthen_def)
  qed
qed simp

end

locale compiled_conditions = extension_conditions +
  assumes inv_set_compiled: "inv s \<Longrightarrow> inv (set_compiled t cs s)"
    and enabled_compiled: "inv s \<Longrightarrow> vartype_extension_enabled E t i s = Done b s' \<Longrightarrow> compiled_table s' = compiled_table s"
begin

lemma keep_compiled: "extension_conditions E en (\<lambda>s. inv s \<and> compiled_table s = C)"
proof
  fix s t ty i b
  assume s: "inv s \<and> compiled_table s = C"
  then show "inv (set_mark t b s) \<and> compiled_table (set_mark t b s) = C" using inv_set_mark by simp
  assume "ts_types s t = Some ty" "i < length (vt_extensions ty)"
  then obtain s' where "vartype_extension_enabled E t i s = Done (en t i) s'" "inv s'" "plain_table s' = plain_table s" "marked s' = marked s"
    using enabled_ok s by blast
  then show "\<exists>s'. vartype_extension_enabled E t i s = Done (en t i) s' \<and> (inv s' \<and> compiled_table s' = C)
      \<and> plain_table s' = plain_table s \<and> marked s' = marked s"
    using enabled_compiled s by blast
qed

end

sublocale compiled_conditions < keep: extension_conditions E en "\<lambda>s. inv s \<and> compiled_table s = C" for C
  by (rule keep_compiled)

context compiled_conditions
begin

lemma modify_compiled:
  assumes "keep.view C T P s" and "T t = Some ty"
  shows "modify_type t (\<lambda>ty. ty\<lparr>compiled_state := cs\<rparr>) s = Done () (set_compiled t cs s)"
    and "compiled_table (set_compiled t cs s) t = cs"
    and "keep.view (compiled_table (set_compiled t cs s)) T P (set_compiled t cs s)"
proof -
  obtain ty' where "ts_types s t = Some ty'" using keep.view_type [OF assms] .
  then show "modify_type t (\<lambda>ty. ty\<lparr>compiled_state := cs\<rparr>) s = Done () (set_compiled t cs s)"
    "compiled_table (set_compiled t cs s) t = cs"
    by (simp_all add: set_compiled_def compiled_table_def)
  show "keep.view (compiled_table (set_compiled t cs s)) T P (set_compiled t cs s)"
    using assms(1) inv_set_compiled by (simp add: keep.view_def)
qed

lemma assemble_message:
  assumes view: "keep.view C (plain_table s0) {} s" and ty: "ts_types s0 t = Some ty"
    and same: "\<And>x. f (plain_extension x) = f x" "\<And>ty. g (plain_type ty) = g ty"
  shows "\<exists>s'. andthen (get_type t) (\<lambda>ty. assemble_texts E f t [0..<length (vt_extensions ty)] (g ty)) s
    = Done (g ty @ enabled_text en f t ty) s' \<and> keep.view C (plain_table s0) {} s'"
proof -
  have T: "plain_table s0 t = Some (plain_type ty)" using ty by (simp add: plain_table_def)
  obtain ty1 where ty1: "ts_types s t = Some ty1" "plain_type ty = plain_type ty1" using keep.view_type [OF view T] .
  then have eq: "length (vt_extensions ty1) = length (vt_extensions (plain_type ty))" "g ty1 = g ty"
    using same(2) [of ty1] same(2) [of ty] by simp_all
  have "enabled_text en f t ty = concat (map (\<lambda>i. f (vt_extensions (plain_type ty) ! i))
      (filter (en t) [0..<length (vt_extensions (plain_type ty))]))"
    using same(1) by (auto simp: enabled_text_def enabled_extensions_def plain_type_def intro!: arg_cong [where f = concat])
  then show ?thesis
    using keep.assemble_texts_view [of "plain_table s0" t "plain_type ty" f "[0..<length (vt_extensions (plain_type ty))]" C "{}" s "g ty"]
      T same(1) view ty1(1) eq
    by (auto simp: lessThan_atLeast0)
qed

lemma compile_spec:
  assumes s: "inv s" "marked s = {}" "table_wf (plain_table s)" "finite (defined_types (plain_table s))"
    and n: "card (defined_types (plain_table s)) < n" and ty: "ts_types s t = Some ty" "compiled_state ty = None"
  defines "msg \<equiv> vt_error_msg ty @ enabled_text en ext_error_msg t ty"
    and "comment \<equiv> vt_comment ty @ enabled_text en (\<lambda>x. CHR 0x0A # ext_comment x) t ty"
  shows "\<exists>s'. inv s' \<and> marked s' = {} \<and> plain_table s' = plain_table s \<and>
    (if \<exists>r rx. expands (plain_table s) en t r \<and> regcomp R (complete_regex (vt_incomplete ty) r) = Some rx
     then vartype_compile R n E t s = Done True s' \<and> (\<exists>r rx. expands (plain_table s) en t r
       \<and> regcomp R (complete_regex (vt_incomplete ty) r) = Some rx
       \<and> compiled_table s' t = Some \<lparr>cs_regex = rx, complete_error_msg = msg, complete_comment = comment\<rparr>)
     else vartype_compile R n E t s = Done False s' \<and> compiled_table s' t = None)"
proof -
  let ?T = "plain_table s"
  have T: "?T t = Some (plain_type ty)" using ty(1) by (simp add: plain_table_def)
  have pos: "0 < n" using n by simp
  let ?C = "compiled_table s"
  have view0: "keep.view ?C ?T {} s" using s by (simp add: keep.view_def)
  obtain result s1 where s1: "vartype_get_regex n E t True s = Done result s1" "keep.view ?C ?T {} s1"
    "\<forall>r. result = Some r \<longleftrightarrow> expands ?T en t r"
    using keep.get_regex_expands [of s ?C n t] s n ty(1) by (auto simp: keep.view_def)
  show ?thesis
  proof (cases result)
    case None
    obtain r s2 where s2: "vartype_get_regex n E t False s1 = Done r s2" "keep.view ?C ?T {} s2"
      using keep.get_regex_plain_comes_back [OF s(3) s1(2) T pos] by blast
    then have "vartype_compile R n E t s = Done False s2"
      using ty s1(1) None by (simp add: vartype_compile_def andthen_def)
    moreover have "\<not> expands ?T en t r" for r using s1(3) None by simp
    ultimately show ?thesis using s2(2) ty by (intro exI [of _ s2]) (simp add: keep.view_def compiled_table_def)
  next
    case (Some r)
    have exp: "expands ?T en t r" "expands ?T en t q \<Longrightarrow> q = r" for q
      using s1(3) Some by (blast, metis option.inject)
    obtain s2 where s2: "vartype_extension_assemble_error_message E t s1 = Done msg s2" "keep.view ?C ?T {} s2"
      using assemble_message [OF s1(2) ty(1), of ext_error_msg vt_error_msg] by (auto simp: vartype_extension_assemble_error_message_def msg_def plain_extension_def
          plain_type_def)
    obtain s3 where s3: "vartype_extension_assemble_comment E t s2 = Done comment s3" "keep.view ?C ?T {} s3"
      using assemble_message [OF s2(2) ty(1), of "\<lambda>x. CHR 0x0A # ext_comment x" vt_comment] by (auto simp: vartype_extension_assemble_comment_def comment_def plain_extension_def
          plain_type_def)
    show ?thesis
    proof (cases "regcomp R (complete_regex (vt_incomplete ty) r)")
      case None
      obtain q s4 where s4: "vartype_get_regex n E t False s3 = Done q s4" "keep.view ?C ?T {} s4"
        using keep.get_regex_plain_comes_back [OF s(3) s3(2) T pos] by blast
      note free = modify_compiled [OF s4(2) T, of None]
      have "vartype_compile R n E t s = Done False (set_compiled t None s4)"
        using ty s1(1) Some s2(1) s3(1) s4(1) None free(1)
        by (simp add: vartype_compile_def vartype_free_compiled_state_def andthen_def)
      moreover have "\<not> (\<exists>r rx. expands ?T en t r \<and> regcomp R (complete_regex (vt_incomplete ty) r) = Some rx)"
        using exp(2) None by auto
      ultimately show ?thesis
        using free(2,3) by (intro exI [of _ "set_compiled t None s4"]) (simp add: keep.view_def)
    next
      case (Some rx)
      let ?cs = "Some \<lparr>cs_regex = rx, complete_error_msg = msg, complete_comment = comment\<rparr>"
      let ?s4 = "set_compiled t ?cs s3"
      note mod = modify_compiled [OF s3(2) T, of ?cs]
      obtain q s5 where s5: "vartype_get_regex n E t False ?s4 = Done q s5" "keep.view (compiled_table ?s4) ?T {} s5"
        using keep.get_regex_plain_comes_back [OF s(3) mod(3) T pos] by blast
      then have "vartype_compile R n E t s = Done True s5"
        using ty s1(1) \<open>result = Some r\<close> s2(1) s3(1) mod(1) Some by (simp add: vartype_compile_def andthen_def)
      moreover have ex: "\<exists>r rx. expands ?T en t r \<and> regcomp R (complete_regex (vt_incomplete ty) r) = Some rx"
        using exp(1) Some by blast
      moreover have "compiled_table s5 t = ?cs" "inv s5" "marked s5 = {}" "plain_table s5 = ?T"
        using s5(2) mod(2) by (simp_all add: keep.view_def)
      ultimately show ?thesis unfolding if_P [OF ex] using exp(1) Some by (intro exI [of _ s5]) blast
    qed
  qed
qed

end

lemma enabled_in_range:
  assumes "vartype_extension_enabled E t i s = Done b s'"
  obtains ty where "ts_types s t = Some ty" and "i < length (vt_extensions ty)"
proof (cases "ts_types s t")
  case None
  then show ?thesis
    using assms by (simp add: vartype_extension_enabled_def vartype_extension_validate_condition_def get_extension_def andthen_def)
next
  case (Some ty)
  then have "i < length (vt_extensions ty)"
    using assms by (auto simp: vartype_extension_enabled_def vartype_extension_validate_condition_def get_extension_def andthen_def
        split: if_splits)
  then show ?thesis using Some that by blast
qed

interpretation literal_compiled: compiled_conditions E en "literal_conditions en"
  for E :: "('x, 'd, 'r, 'z) tenv" and en
proof
  fix s s' :: "('x, 'd, 'r, 'z) ts" and t i b cs
  assume inv: "literal_conditions en s"
  then show "literal_conditions en (set_compiled t cs s)"
    by (auto simp: literal_conditions_def set_compiled_def split: option.splits)
  assume run: "vartype_extension_enabled E t i s = Done b s'"
  then obtain ty where ty: "ts_types s t = Some ty" "i < length (vt_extensions ty)" by (rule enabled_in_range)
  then obtain scope where "ext_condition (vt_extensions ty ! i) = Literal (expr_literal_create_boolean scope (en t i))"
    using inv unfolding literal_conditions_def by blast
  then obtain x where "s' = s\<lparr>ts_types := (ts_types s)(t \<mapsto> ty\<lparr>vt_extensions := (vt_extensions ty)[i := x]\<rparr>)\<rparr>"
    using literal_enabled [OF ty, of scope "en t i" E] run by auto
  then show "compiled_table s' = compiled_table s" using ty by (auto simp: compiled_table_def)
qed

section \<open>Properties\<close>

text \<open>C25: compiling a type succeeds exactly if its references can be expanded and the library accepts the expansion,
  put between a circumflex with a parenthesis and a parenthesis with a dollar sign unless the type is complete.
  Then matching any value comes back with the verdict of the library on that expression, and the complete error
  message is that of the type followed by those of the enabled extensions.\<close>

theorem vartype_compile_match:
  assumes cond: "compiled_conditions E en ok" and s: "ok s" "marked s = {}" "table_wf (plain_table s)"
      "finite (defined_types (plain_table s))" "card (defined_types (plain_table s)) < n"
    and ty: "ts_types s t = Some ty" "compiled_state ty = None"
  shows "if \<exists>r rx. expands (plain_table s) en t r \<and> regcomp R (complete_regex (vt_incomplete ty) r) = Some rx
    then \<exists>r rx s'. expands (plain_table s) en t r \<and> regcomp R (complete_regex (vt_incomplete ty) r) = Some rx
      \<and> vartype_compile R n E t s = Done True s'
      \<and> (\<forall>v. \<exists>s''. vartype_match R n E t v s' = Done (regexec R rx v 0 \<noteq> None) s'')
      \<and> vartype_get_complete_error_message t s' = Done (vt_error_msg ty @ enabled_text en ext_error_msg t ty) s'
    else \<exists>s'. vartype_compile R n E t s = Done False s'"
proof (cases "\<exists>r rx. expands (plain_table s) en t r \<and> regcomp R (complete_regex (vt_incomplete ty) r) = Some rx")
  case True
  obtain r rx s' where s': "ok s'" "marked s' = {}" "plain_table s' = plain_table s" "vartype_compile R n E t s = Done True s'"
    "expands (plain_table s) en t r" "regcomp R (complete_regex (vt_incomplete ty) r) = Some rx"
    "compiled_table s' t = Some \<lparr>cs_regex = rx, complete_error_msg = vt_error_msg ty @ enabled_text en ext_error_msg t ty,
       complete_comment = vt_comment ty @ enabled_text en (\<lambda>x. CHR 0x0A # ext_comment x) t ty\<rparr>"
    using compiled_conditions.compile_spec [OF cond s ty, of R] unfolding if_P [OF True] by blast
  then obtain ty' where ty': "ts_types s' t = Some ty'" "compiled_state ty' = Some \<lparr>cs_regex = rx,
     complete_error_msg = vt_error_msg ty @ enabled_text en ext_error_msg t ty,
     complete_comment = vt_comment ty @ enabled_text en (\<lambda>x. CHR 0x0A # ext_comment x) t ty\<rparr>"
    by (auto simp: compiled_table_def bind_eq_Some_conv)
  obtain x s2 where log: "vartype_get_regex n E t True s' = Done x s2"
    using extension_conditions.get_regex_expands [OF compiled_conditions.axioms(1) [OF cond] s'(1), of n t] s' s ty' by auto
  have "\<exists>s''. vartype_match R n E t v s' = Done (regexec R rx v 0 \<noteq> None) s''" for v
    using ty' log by (cases "regexec R rx v 0") (simp_all add: vartype_match_def compiled_of_def andthen_def)
  moreover have "vartype_get_complete_error_message t s' = Done (vt_error_msg ty @ enabled_text en ext_error_msg t ty) s'"
    using ty' by (simp add: vartype_get_complete_error_message_def compiled_of_def)
  ultimately show ?thesis unfolding if_P [OF True] using s'(4-6) by blast
next
  case False
  then show ?thesis using compiled_conditions.compile_spec [OF cond s ty, of R] unfolding if_not_P [OF False] by blast
qed

theorem vartype_compile_match_witness:
  "compiled_conditions (plain_env :: (nat, nat, nat, unit) tenv) (\<lambda>_ _. True) (literal_conditions (\<lambda>_ _. True))
   \<and> literal_conditions (\<lambda>_ _. True) example_store \<and> marked example_store = {}
   \<and> regcomp example_lib ''^((([0-9])+)|(any))$'' = Some 20
   \<and> (\<exists>s'. vartype_compile example_lib 4 plain_env 1 example_store = Done True s'
        \<and> (\<exists>s''. vartype_match example_lib 4 plain_env 1 ''any'' s' = Done False s''))"
proof -
  have card: "finite (defined_types (plain_table example_store))" "card (defined_types (plain_table example_store)) < 4"
    by (simp_all add: example_table)
  have exp: "expands (plain_table example_store) (\<lambda>_ _. True) 1 ''(([0-9])+)|(any)''"
    using walk_iff [OF card, of "\<lambda>_ _. True" 1] example_walk by simp
  have ty: "ts_types example_store 1 = Some (the (example_types 1))" "compiled_state (the (example_types 1)) = None"
    by (simp_all add: example_store_def example_types_def example_type_def)
  have "\<exists>r rx. expands (plain_table example_store) (\<lambda>_ _. True) 1 r
      \<and> regcomp example_lib (complete_regex (vt_incomplete (the (example_types 1))) r) = Some rx"
    using exp by (auto simp: example_lib_def)
  then obtain rx s' where "vartype_compile example_lib 4 plain_env 1 example_store = Done True s'"
    "\<forall>v. \<exists>s''. vartype_match example_lib 4 plain_env 1 v s' = Done (regexec example_lib rx v 0 \<noteq> None) s''"
    using vartype_compile_match [OF literal_compiled.compiled_conditions_axioms example_table(4,3,1) card ty, of example_lib plain_env]
    by auto
  then show ?thesis
    using literal_compiled.compiled_conditions_axioms example_table by (auto simp: example_lib_def)
qed

end
