(* ===== verification/Var_Scope.thy ===== *)
theory Var_Scope
  imports Type_Regex
begin

text \<open>
  Scopes and their members, \<open>var/scope.c\<close>: a scope has a parent, unless it is the global one, and a hash map of its
  members, variables and variable templates. What happens to a member that is removed is decided by its destructor,
  which is an argument here. A scope is addressed by its identifier; the parent of a scope exists when the scope is
  created, so chains of parents are shorter than the number of scopes created so far, which bounds the two
  recursions along them.
\<close>

section \<open>State\<close>

datatype scope_member = Member_variable var_id | Member_template template_id

record var_scope_t =
  scope_location :: location_t
  scope_parent :: "scope_id option"
  scope_members :: "scope_member name_map"

record ('d, 'r) var_template_t =
  tmpl_name :: c_string
  tmpl_location :: location_t
  tmpl_type :: vartype_id
  tmpl_scope :: scope_id
  tmpl_instances :: "var_id list"
  tmpl_priority :: var_priority_t
  tmpl_props :: "'d var_properties_t"
  tmpl_condition :: "expr_t option"
  tmpl_cond_valid :: bool
  tmpl_regex :: 'r
  tmpl_def_value :: "expr_t option"

record ('x, 'd, 'r) scope_store = "('x, 'd, 'r) type_store" +
  ss_scopes :: "scope_id \<Rightarrow> var_scope_t option"
  ss_next_scope :: scope_id
  ss_next_var :: var_id
  ss_templates :: "template_id \<Rightarrow> ('d, 'r) var_template_t option"
  ss_next_template :: template_id
  global_scope :: "scope_id option"
  var_array_bound_type :: "vartype_id option"
  var_varname_type :: "vartype_id option"

type_synonym ('x, 'd, 'r, 'z) ss = "('x, 'd, 'r, 'z) scope_store_scheme"
type_synonym ('x, 'd, 'r, 'z) senv = "(('x, 'd, 'r, 'z) ss, 'x) var_env"

definition get_scope :: "scope_id \<Rightarrow> (('x, 'd, 'r, 'z) ss, var_scope_t) action" where
  "get_scope sc = andthen get_state (\<lambda>s. deref (ss_scopes s sc))"

definition put_scope :: "scope_id \<Rightarrow> var_scope_t \<Rightarrow> (('x, 'd, 'r, 'z) ss, unit) action" where
  "put_scope sc scope = andthen get_state (\<lambda>s. put_state (s\<lparr>ss_scopes := (ss_scopes s)(sc \<mapsto> scope)\<rparr>))"

lemma get_scope_apply [simp]:
  "get_scope sc s = (case ss_scopes s sc of None \<Rightarrow> Failed Invalid_access | Some scope \<Rightarrow> Done scope s)"
  by (simp add: get_scope_def andthen_def)

lemma put_scope_apply [simp]: "put_scope sc scope s = Done () (s\<lparr>ss_scopes := (ss_scopes s)(sc \<mapsto> scope)\<rparr>)"
  by (simp add: put_scope_def andthen_def)

section \<open>Operations\<close>

definition var_get_global_scope :: "(('x, 'd, 'r, 'z) ss, scope_id option) action" where
  "var_get_global_scope = andthen get_state (\<lambda>s. ret (global_scope s))"

definition var_scope_create :: "location_t \<Rightarrow> scope_id option \<Rightarrow> (('x, 'd, 'r, 'z) ss, scope_id) action" where
  "var_scope_create location parent =
     andthen (hashmap_create fst 1024 hash_ci_string compare_ci_string_keys True) (\<lambda>m.
     andthen get_state (\<lambda>s.
     andthen (put_state (s\<lparr>ss_scopes := (ss_scopes s)(ss_next_scope s \<mapsto>
         \<lparr>scope_location = location, scope_parent = parent, scope_members = m\<rparr>), ss_next_scope := ss_next_scope s + 1\<rparr>)) (\<lambda>_.
       ret (ss_next_scope s))))"

primrec scope_search ::
  "nat \<Rightarrow> scope_id \<Rightarrow> c_string \<Rightarrow> bool \<Rightarrow> (('x, 'd, 'r, 'z) ss, scope_member option) action" where
  "scope_search 0 sc name recursive = raise Out_of_fuel"
| "scope_search (Suc n) sc name recursive =
     andthen (get_scope sc) (\<lambda>scope.
       case name_get (scope_members scope) name of
         Some member \<Rightarrow> ret (Some member)
       | None \<Rightarrow>
           (case scope_parent scope of
              Some parent \<Rightarrow> if recursive then scope_search n parent name recursive else ret None
            | None \<Rightarrow> ret None))"

definition var_scope_try_get_member ::
  "scope_id \<Rightarrow> c_string \<Rightarrow> bool \<Rightarrow> (('x, 'd, 'r, 'z) ss, scope_member option) action" where
  "var_scope_try_get_member sc name recursive =
     andthen get_state (\<lambda>s. scope_search (ss_next_scope s) sc name recursive)"

text \<open>The result is the member that is in the way, if there is one.\<close>

definition var_scope_add_member ::
  "scope_id \<Rightarrow> c_string \<Rightarrow> scope_member \<Rightarrow> (('x, 'd, 'r, 'z) ss, scope_member option) action" where
  "var_scope_add_member sc name member =
     andthen (var_scope_try_get_member sc name False) (\<lambda>old_member.
       case old_member of
         Some old \<Rightarrow> ret (Some old)
       | None \<Rightarrow>
           andthen (get_scope sc) (\<lambda>scope.
             case hashmap_put (name, member) (scope_members scope) of
               Done _ m \<Rightarrow> andthen (put_scope sc (scope\<lparr>scope_members := m\<rparr>)) (\<lambda>_. ret None)
             | Failed e \<Rightarrow> raise e))"

text \<open>The entry is taken out of the hash map before its destructor runs.\<close>

definition var_scope_remove_member ::
  "(scope_member \<Rightarrow> (('x, 'd, 'r, 'z) ss, unit) action) \<Rightarrow> scope_id \<Rightarrow> c_string \<Rightarrow> (('x, 'd, 'r, 'z) ss, bool) action" where
  "var_scope_remove_member destroy sc name =
     andthen (get_scope sc) (\<lambda>scope.
       case hashmap_remove name (scope_members scope) of
         Failed e \<Rightarrow> raise e
       | Done (found, destroyed) m \<Rightarrow>
           andthen (put_scope sc (scope\<lparr>scope_members := m\<rparr>)) (\<lambda>_.
           andthen (run_all destroy (map snd destroyed)) (\<lambda>_. ret found)))"

text \<open>
  The visitor may have a state of its own besides the variables, which the C code passes as a pointer to data of the
  visitor; \<open>view\<close> tells where the variables are.
\<close>

primrec scope_foreach ::
  "('s \<Rightarrow> ('x, 'd, 'r, 'z) ss) \<Rightarrow> nat \<Rightarrow> scope_id \<Rightarrow> bool \<Rightarrow> (scope_member \<Rightarrow> ('s, bool) action) \<Rightarrow> ('s, bool) action" where
  "scope_foreach view 0 sc recursive visitor = raise Out_of_fuel"
| "scope_foreach view (Suc n) sc recursive visitor =
     andthen get_state (\<lambda>s.
     andthen (deref (ss_scopes (view s) sc)) (\<lambda>scope.
     andthen (hashmap_foreach (scope_members scope) (\<lambda>e. visitor (snd e))) (\<lambda>go_on.
       if \<not> go_on then ret False
       else
         (case scope_parent scope of
            Some parent \<Rightarrow> if recursive then scope_foreach view n parent recursive visitor else ret True
          | None \<Rightarrow> ret True))))"

definition var_scope_foreach_member ::
  "('s \<Rightarrow> ('x, 'd, 'r, 'z) ss) \<Rightarrow> scope_id \<Rightarrow> bool \<Rightarrow> (scope_member \<Rightarrow> ('s, bool) action) \<Rightarrow> ('s, bool) action" where
  "var_scope_foreach_member view sc recursive visitor =
     andthen get_state (\<lambda>s. scope_foreach view (ss_next_scope (view s)) sc recursive visitor)"

text \<open>The adapters pass on members of one kind.\<close>

definition var_scope_variable_visitor ::
  "(var_id \<Rightarrow> ('s, bool) action) \<Rightarrow> scope_member \<Rightarrow> ('s, bool) action" where
  "var_scope_variable_visitor visitor member =
     (case member of Member_variable v \<Rightarrow> visitor v | Member_template _ \<Rightarrow> ret True)"

definition var_scope_template_visitor ::
  "(template_id \<Rightarrow> ('s, bool) action) \<Rightarrow> scope_member \<Rightarrow> ('s, bool) action" where
  "var_scope_template_visitor visitor member =
     (case member of Member_variable _ \<Rightarrow> ret True | Member_template t \<Rightarrow> visitor t)"

text \<open>
  \<open>hashmap_destroy\<close> with the destructor of members. It walks over the cells of the buckets; destroying a template
  removes its instances from the same map, so every cell is read when the walk comes to it.
\<close>

definition cell_positions :: "'i name_map \<Rightarrow> (nat \<times> nat) list" where
  "cell_positions m = concat (map (\<lambda>i. map (Pair i) [0..<length (entries (buckets m ! i))]) [0..<length (buckets m)])"

definition destroy_cell ::
  "(scope_member \<Rightarrow> (('x, 'd, 'r, 'z) ss, unit) action) \<Rightarrow> scope_id \<Rightarrow> nat \<times> nat \<Rightarrow> (('x, 'd, 'r, 'z) ss, unit) action" where
  "destroy_cell destroy sc p =
     andthen (get_scope sc) (\<lambda>scope.
       case entries (buckets (scope_members scope) ! fst p) ! snd p of
         Some e \<Rightarrow> destroy (snd e)
       | None \<Rightarrow> ret ())"

definition var_scope_destroy ::
  "(scope_member \<Rightarrow> (('x, 'd, 'r, 'z) ss, unit) action) \<Rightarrow> scope_id \<Rightarrow> (('x, 'd, 'r, 'z) ss, unit) action" where
  "var_scope_destroy destroy sc =
     andthen (get_scope sc) (\<lambda>scope.
     andthen (put_scope sc (scope\<lparr>scope_members := (scope_members scope)\<lparr>in_destroy := True\<rparr>\<rparr>)) (\<lambda>_.
     andthen (run_all (destroy_cell destroy sc) (cell_positions (scope_members scope))) (\<lambda>_.
     andthen get_state (\<lambda>s. put_state (s\<lparr>ss_scopes := (ss_scopes s)(sc := None)\<rparr>)))))"

definition var_scope_init :: "(('x, 'd, 'r, 'z) ss, unit) action" where
  "var_scope_init =
     andthen (zoom ts_packages (\<lambda>p s. s\<lparr>ts_packages := p\<rparr>) (location_create_internal PACKAGE_FILE_TYPE_CONFIG)) (\<lambda>location.
     andthen (var_scope_create location None) (\<lambda>sc.
     andthen get_state (\<lambda>s. put_state (s\<lparr>global_scope := Some sc\<rparr>))))"

section \<open>Looking up members\<close>

text \<open>Parents are older than the scopes they enclose, and every scope has a working map of members.\<close>

definition scopes_ok :: "('x, 'd, 'r, 'z) ss \<Rightarrow> bool" where
  "scopes_ok s \<longleftrightarrow> (\<forall>sc scope. ss_scopes s sc = Some scope \<longrightarrow>
     sc < ss_next_scope s \<and> name_map_ok (scope_members scope)
     \<and> (\<forall>p. scope_parent scope = Some p \<longrightarrow> p < sc \<and> ss_scopes s p \<noteq> None))"

lemma scopes_okD:
  assumes "scopes_ok s" and "ss_scopes s sc = Some scope"
  shows "sc < ss_next_scope s" and "name_map_ok (scope_members scope)"
    and "scope_parent scope = Some p \<Longrightarrow> p < sc" and "scope_parent scope = Some p \<Longrightarrow> ss_scopes s p \<noteq> None"
  using assms unfolding scopes_ok_def by blast+

text \<open>The member a name means in a scope: its own, or else the one it means in the parent.\<close>

inductive visible :: "('x, 'd, 'r, 'z) ss \<Rightarrow> c_string \<Rightarrow> scope_id \<Rightarrow> scope_member \<Rightarrow> bool" for s name where
  own: "ss_scopes s sc = Some scope \<Longrightarrow> name_get (scope_members scope) name = Some m \<Longrightarrow> visible s name sc m"
| enclosing: "ss_scopes s sc = Some scope \<Longrightarrow> name_get (scope_members scope) name = None \<Longrightarrow>
    scope_parent scope = Some p \<Longrightarrow> visible s name p m \<Longrightarrow> visible s name sc m"

inductive_cases visibleE: "visible s name sc m"

lemma visible_own: "ss_scopes s sc = Some scope \<Longrightarrow> name_get (scope_members scope) name = Some m \<Longrightarrow> visible s name sc x \<longleftrightarrow> x = m"
  by (auto intro: visible.own elim: visibleE)

lemma visible_enclosing:
  "ss_scopes s sc = Some scope \<Longrightarrow> name_get (scope_members scope) name = None \<Longrightarrow>
   visible s name sc x \<longleftrightarrow> (\<exists>p. scope_parent scope = Some p \<and> visible s name p x)"
  by (auto intro: visible.enclosing elim: visibleE)

lemma scope_search_spec:
  assumes "scopes_ok s" and "ss_scopes s sc \<noteq> None" and "sc < n"
  shows "\<exists>r. scope_search n sc name True s = Done r s \<and> (\<forall>m. r = Some m \<longleftrightarrow> visible s name sc m)"
  using assms(2,3)
proof (induction n arbitrary: sc)
  case (Suc n)
  then obtain scope where scope: "ss_scopes s sc = Some scope" by auto
  show ?case
  proof (cases "name_get (scope_members scope) name")
    case (Some m)
    then show ?thesis using scope by (auto simp: visible_own)
  next
    case None
    show ?thesis
    proof (cases "scope_parent scope")
      case None': None
      then show ?thesis using scope None by (simp add: visible_enclosing)
    next
      case (Some p)
      have "ss_scopes s p \<noteq> None" "p < n"
        using scopes_okD(3,4) [OF assms(1) scope Some] Suc.prems(2) by auto
      from Suc.IH [OF this] show ?thesis using scope None Some by (simp add: visible_enclosing)
    qed
  qed
qed simp

lemma try_get_member_spec:
  assumes "scopes_ok s" and "ss_scopes s sc \<noteq> None"
  shows "\<exists>r. var_scope_try_get_member sc name True s = Done r s \<and> (\<forall>m. r = Some m \<longleftrightarrow> visible s name sc m)"
proof -
  have "sc < ss_next_scope s" using assms scopes_okD(1) by blast
  from scope_search_spec [OF assms this] show ?thesis by (simp add: var_scope_try_get_member_def)
qed

lemma try_get_member_own:
  assumes "scopes_ok s" and "ss_scopes s sc = Some scope"
  shows "var_scope_try_get_member sc name False s = Done (name_get (scope_members scope) name) s"
proof -
  obtain n where "ss_next_scope s = Suc n" using scopes_okD(1) [OF assms] by (cases "ss_next_scope s") auto
  then show ?thesis
    using assms(2) by (simp add: var_scope_try_get_member_def split: option.splits)
qed

lemma add_member_present:
  assumes "scopes_ok s" and "ss_scopes s sc = Some scope" and "name_get (scope_members scope) name = Some old"
  shows "var_scope_add_member sc name m s = Done (Some old) s"
  using assms by (simp add: var_scope_add_member_def try_get_member_own)

text \<open>The scopes with one member more.\<close>

lemma add_member_absent:
  assumes ok: "scopes_ok s" and sc: "ss_scopes s sc = Some scope" and new: "name_get (scope_members scope) name = None"
  obtains mm where "var_scope_add_member sc name m s = Done None (s\<lparr>ss_scopes := (ss_scopes s)(sc \<mapsto> scope\<lparr>scope_members := mm\<rparr>)\<rparr>)"
    and "name_map_ok mm" and "hashmap_get mm = (\<lambda>k. if strcasecmp_eq k name then Some (name, m) else hashmap_get (scope_members scope) k)"
proof -
  from name_put [OF scopes_okD(2) [OF ok sc]] obtain ds mm where mm:
    "hashmap_put (name, m) (scope_members scope) = Done ds mm" "name_map_ok mm"
    "hashmap_get mm = (\<lambda>k. if strcasecmp_eq k name then Some (name, m) else hashmap_get (scope_members scope) k)" .
  show ?thesis
    by (rule that [OF _ mm(2,3)]) (simp add: var_scope_add_member_def try_get_member_own [OF ok sc] new sc mm(1))
qed

lemma scopes_ok_members:
  assumes "scopes_ok s" and "ss_scopes s sc = Some scope" and "name_map_ok mm"
  shows "scopes_ok (s\<lparr>ss_scopes := (ss_scopes s)(sc \<mapsto> scope\<lparr>scope_members := mm\<rparr>)\<rparr>)"
  using assms unfolding scopes_ok_def by auto

lemma visible_unchanged:
  assumes "\<forall>sc' \<le> sc. map_option scope_parent (ss_scopes s' sc') = map_option scope_parent (ss_scopes s sc')
      \<and> map_option (\<lambda>scope. name_get (scope_members scope) k) (ss_scopes s' sc')
        = map_option (\<lambda>scope. name_get (scope_members scope) k) (ss_scopes s sc')"
    and "scopes_ok s"
  shows "visible s' k sc x \<longleftrightarrow> visible s k sc x"
  using assms(1)
proof (induction sc rule: less_induct)
  case (less sc)
  show ?case
  proof (cases "ss_scopes s sc")
    case None
    then have "ss_scopes s' sc = None" using less.prems by (metis map_option_is_None order_refl)
    then show ?thesis using None by (auto elim: visibleE)
  next
    case (Some scope)
    then obtain scope' where scope': "ss_scopes s' sc = Some scope'" "scope_parent scope' = scope_parent scope"
      "name_get (scope_members scope') k = name_get (scope_members scope) k"
      using less.prems by (cases "ss_scopes s' sc") (auto dest: spec [of _ sc])
    have "visible s' k p x \<longleftrightarrow> visible s k p x" if "scope_parent scope = Some p" for p
      using less.IH [of p] less.prems scopes_okD(3) [OF assms(2) Some that] by auto
    then show ?thesis
      using Some scope' by (cases "name_get (scope_members scope) k") (auto simp: visible_own visible_enclosing)
  qed
qed

text \<open>A scope sees through to another one if neither it nor a scope between them has a member of the name.\<close>

inductive sees_through :: "('x, 'd, 'r, 'z) ss \<Rightarrow> c_string \<Rightarrow> scope_id \<Rightarrow> scope_id \<Rightarrow> bool" for s name sc where
  itself: "ss_scopes s sc \<noteq> None \<Longrightarrow> sees_through s name sc sc"
| nested: "ss_scopes s sc' = Some scope \<Longrightarrow> name_get (scope_members scope) name = None \<Longrightarrow>
    scope_parent scope = Some p \<Longrightarrow> sees_through s name sc p \<Longrightarrow> sees_through s name sc sc'"

inductive_cases sees_throughE: "sees_through s name sc sc'"

lemma sees_through_younger: "sees_through s name sc sc' \<Longrightarrow> scopes_ok s \<Longrightarrow> sc \<le> sc'"
  by (induction rule: sees_through.induct) (auto dest: scopes_okD(3))

lemma visible_added:
  assumes ok: "scopes_ok s" and sc: "ss_scopes s sc = Some scope" and new: "name_get (scope_members scope) k = None"
    and mm: "name_get mm k = Some m" and s': "s' = s\<lparr>ss_scopes := (ss_scopes s)(sc \<mapsto> scope\<lparr>scope_members := mm\<rparr>)\<rparr>"
  shows "visible s' k sc' x \<longleftrightarrow> (if sees_through s k sc sc' then x = m else visible s k sc' x)"
proof (induction sc' rule: less_induct)
  case (less sc')
  consider "sc' = sc" | "sc' \<noteq> sc" "ss_scopes s sc' = None" | scope' where "sc' \<noteq> sc" "ss_scopes s sc' = Some scope'"
    by blast
  then show ?case
  proof cases
    case 1
    then show ?thesis using sc mm visible_own [of s' sc "scope\<lparr>scope_members := mm\<rparr>" k m x]
      by (simp add: s' sees_through.itself)
  next
    case 2
    then show ?thesis by (auto simp: s' elim: visibleE sees_throughE)
  next
    case (3 scope')
    have through: "sees_through s k sc sc' \<longleftrightarrow> name_get (scope_members scope') k = None
        \<and> (\<exists>p. scope_parent scope' = Some p \<and> sees_through s k sc p)"
      using 3 by (auto intro: sees_through.nested elim: sees_throughE)
    have s'_sc': "ss_scopes s' sc' = Some scope'" using 3 by (simp add: s')
    show ?thesis
    proof (cases "name_get (scope_members scope') k")
      case None
      have "visible s' k p x \<longleftrightarrow> (if sees_through s k sc p then x = m else visible s k p x)" if "scope_parent scope' = Some p" for p
        using less.IH [OF scopes_okD(3) [OF ok 3(2) that]] .
      then show ?thesis using None 3 s'_sc' through by (auto simp: visible_enclosing)
    next
      case (Some y)
      then show ?thesis using 3 s'_sc' through by (simp add: visible_own)
    qed
  qed
qed

text \<open>C22: looking up a name in well-formed scopes always comes back, with the member of the nearest enclosing scope that
  has one of this name. Adding a member is refused, without a change, exactly if the scope itself has a member
  of this name; otherwise the name means the new member in the scope and in the scopes nested in it that have no
  member of the name in between, in all other scopes it means what it meant, in particular in all older ones, and so do
  other names everywhere.\<close>

theorem scope_shadowing:
  assumes ok: "scopes_ok s" and sc: "ss_scopes s sc = Some scope"
  shows "\<exists>old s'. var_scope_add_member sc name m s = Done old s' \<and> scopes_ok s'
    \<and> old = name_get (scope_members scope) name \<and> (old \<noteq> None \<longrightarrow> s' = s)
    \<and> (\<forall>t\<in>{s, s'}. \<forall>sc' k. ss_scopes s sc' \<noteq> None \<longrightarrow>
         (\<exists>r. var_scope_try_get_member sc' k True t = Done r t \<and> (\<forall>x. r = Some x \<longleftrightarrow> visible t k sc' x)))
    \<and> (old = None \<longrightarrow> (\<forall>x. visible s' name sc x \<longleftrightarrow> x = m)
         \<and> (\<forall>sc' k x. visible s' k sc' x \<longleftrightarrow>
              (if strcasecmp_eq k name \<and> sees_through s k sc sc' then x = m else visible s k sc' x))
         \<and> (\<forall>sc' k x. sc' < sc \<or> \<not> strcasecmp_eq k name \<longrightarrow> visible s' k sc' x \<longleftrightarrow> visible s k sc' x))"
proof (cases "name_get (scope_members scope) name")
  case (Some old)
  then show ?thesis
    using add_member_present [OF ok sc Some] try_get_member_spec [OF ok] ok by (intro exI [of _ "Some old"] exI [of _ s]) simp
next
  case None
  obtain mm where mm: "var_scope_add_member sc name m s = Done None (s\<lparr>ss_scopes := (ss_scopes s)(sc \<mapsto> scope\<lparr>scope_members := mm\<rparr>)\<rparr>)"
    "name_map_ok mm" "hashmap_get mm = (\<lambda>k. if strcasecmp_eq k name then Some (name, m) else hashmap_get (scope_members scope) k)"
    using add_member_absent [OF ok sc None] by blast
  define s' where "s' = s\<lparr>ss_scopes := (ss_scopes s)(sc \<mapsto> scope\<lparr>scope_members := mm\<rparr>)\<rparr>"
  have ok': "scopes_ok s'" unfolding s'_def by (rule scopes_ok_members [OF ok sc mm(2)])
  have "ss_scopes s' sc' \<noteq> None" if "ss_scopes s sc' \<noteq> None" for sc' using that by (simp add: s'_def)
  then have look: "\<forall>t\<in>{s, s'}. \<forall>sc' k. ss_scopes s sc' \<noteq> None \<longrightarrow>
      (\<exists>r. var_scope_try_get_member sc' k True t = Done r t \<and> (\<forall>x. r = Some x \<longleftrightarrow> visible t k sc' x))"
    using try_get_member_spec [OF ok] try_get_member_spec [OF ok'] by blast
  have own: "\<forall>x. visible s' name sc x \<longleftrightarrow> x = m"
    by (intro allI visible_own [of _ _ "scope\<lparr>scope_members := mm\<rparr>"]) (simp_all add: s'_def name_get_def mm(3))
  have others: "visible s' k sc' x \<longleftrightarrow> visible s k sc' x" if "sc' < sc \<or> \<not> strcasecmp_eq k name" for sc' k x
    using that by (intro visible_unchanged [OF _ ok]) (auto simp: s'_def sc name_get_def mm(3))
  have same: "visible s' k sc' x \<longleftrightarrow> (if sees_through s k sc sc' then x = m else visible s k sc' x)" if "strcasecmp_eq k name" for sc' k x
    using that None name_get_cong [OF scopes_okD(2) [OF ok sc] that]
    by (intro visible_added [OF ok sc _ _ s'_def]) (simp_all add: name_get_def mm(3))
  have "visible s' k sc' x \<longleftrightarrow>
      (if strcasecmp_eq k name \<and> sees_through s k sc sc' then x = m else visible s k sc' x)" for sc' k x
    by (cases "strcasecmp_eq k name") (simp_all only: same others simp_thms if_False disj_not1)
  then show ?thesis
    using mm(1) ok' look own others None unfolding s'_def by (intro exI [of _ None] exI [of _ s']) (simp add: s'_def)
qed

text \<open>A scope inside the global one, both without members.\<close>

definition empty_scope :: "scope_id option \<Rightarrow> var_scope_t" where
  "empty_scope parent = \<lparr>scope_location = \<lparr>loc_file = (0, 0), loc_line = 0, loc_column = 0\<rparr>, scope_parent = parent,
     scope_members = empty_name_map\<rparr>"

definition two_scopes :: "(nat, nat, nat) scope_store" where
  "two_scopes = \<lparr>st_vars = (\<lambda>_. None), ts_packages = no_packages, ts_types = (\<lambda>_. None), ts_next = 0,
     vartypes = empty_name_map, anon_vartypes = \<lparr>elem_number = 64, last_index = -1, cells = replicate 64 None\<rparr>,
     ss_scopes = [0 \<mapsto> empty_scope None, 1 \<mapsto> empty_scope (Some 0)], ss_next_scope = 2, ss_next_var = 0,
     ss_templates = (\<lambda>_. None), ss_next_template = 0, global_scope = Some 0, var_array_bound_type = None,
     var_varname_type = None\<rparr>"

lemma two_scopes_ok: "scopes_ok two_scopes"
  by (auto simp: scopes_ok_def two_scopes_def empty_scope_def empty_name_map_ok split: if_splits)

theorem scope_shadowing_witness:
  "\<exists>old s'. var_scope_add_member 1 ''DNS_N'' (Member_variable 7) two_scopes = Done old s' \<and> scopes_ok s' \<and> old = None
    \<and> (\<forall>x. visible s' ''DNS_N'' 1 x \<longleftrightarrow> x = Member_variable 7)
    \<and> (\<forall>x. visible s' ''DNS_N'' 0 x \<longleftrightarrow> visible two_scopes ''DNS_N'' 0 x)"
proof -
  have "ss_scopes two_scopes 1 = Some (empty_scope (Some 0))" by (simp add: two_scopes_def)
  from scope_shadowing [OF two_scopes_ok this, of "''DNS_N''" "Member_variable 7"] obtain old s' where
    run: "var_scope_add_member 1 ''DNS_N'' (Member_variable 7) two_scopes = Done old s'" "scopes_ok s'"
    and old: "old = name_get (scope_members (empty_scope (Some 0))) ''DNS_N''"
    and new: "old = None \<longrightarrow> (\<forall>x. visible s' ''DNS_N'' 1 x \<longleftrightarrow> x = Member_variable 7)
      \<and> (\<forall>sc' k x. visible s' k sc' x \<longleftrightarrow>
           (if strcasecmp_eq k ''DNS_N'' \<and> sees_through two_scopes k 1 sc' then x = Member_variable 7 else visible two_scopes k sc' x))
      \<and> (\<forall>sc' k x. sc' < 1 \<or> \<not> strcasecmp_eq k ''DNS_N'' \<longrightarrow> visible s' k sc' x \<longleftrightarrow> visible two_scopes k sc' x)"
    by (elim exE conjE) (rule that)
  have "old = None" unfolding old by (simp add: empty_scope_def name_get_def empty_name_map_get)
  with new have seen: "visible s' ''DNS_N'' 1 x \<longleftrightarrow> x = Member_variable 7" "visible s' ''DNS_N'' 0 x \<longleftrightarrow> visible two_scopes ''DNS_N'' 0 x" for x
    by blast+
  show ?thesis using run seen \<open>old = None\<close> by blast
qed

end
