(* ===== verification/Var_Define.thy ===== *)
theory Var_Define
  imports Var_Scope Array_Growth Type_System
begin

text \<open>
  Defining and destroying variables and variable templates: the functions of \<open>var/core.c\<close> that change what variables
  exist, \<open>var/template.c\<close> and \<open>var/initfini.c\<close>. An instance of a variable is a value here, so invalidating the
  instances of a destroyed variable is that its identifier leads nowhere. Adding an array adds its missing bound
  variable first, and looking that up may make it from a template: the nested call of \<open>var_add\<close> is
  the argument \<open>add\<close> of the functions between, and \<open>var_add\<close> below ties the knot for so many nested calls. The name
  of a bound has one placeholder less than the name of its array, so the depth is that of the number of
  placeholders.
\<close>

section \<open>Fresh identifiers and templates\<close>

definition get_template :: "template_id \<Rightarrow> (('x, 'd, 'r, 'z) ss, ('d, 'r) var_template_t) action" where
  "get_template t = andthen get_state (\<lambda>s. deref (ss_templates s t))"

definition modify_template ::
  "template_id \<Rightarrow> (('d, 'r) var_template_t \<Rightarrow> ('d, 'r) var_template_t) \<Rightarrow> (('x, 'd, 'r, 'z) ss, unit) action" where
  "modify_template t f =
     andthen (get_template t) (\<lambda>tmpl.
       andthen get_state (\<lambda>s. put_state (s\<lparr>ss_templates := (ss_templates s)(t \<mapsto> f tmpl)\<rparr>)))"

definition modify_var :: "var_id \<Rightarrow> (('x, 'd) var_t \<Rightarrow> ('x, 'd) var_t) \<Rightarrow> (('x, 'd, 'z) st, unit) action" where
  "modify_var v f = andthen (get_var v) (\<lambda>var. put_var v (f var))"

definition new_var :: "('x, 'd) var_t \<Rightarrow> (('x, 'd, 'r, 'z) ss, var_id) action" where
  "new_var var =
     andthen get_state (\<lambda>s.
       andthen (put_state (s\<lparr>st_vars := (st_vars s)(ss_next_var s \<mapsto> var), ss_next_var := ss_next_var s + 1\<rparr>)) (\<lambda>_.
         ret (ss_next_var s)))"

section \<open>Caches and clients\<close>

text \<open>The recursion follows the bound variables, each one level below the last.\<close>

primrec invalidate_conditions :: "nat \<Rightarrow> var_id \<Rightarrow> (('x, 'd, 'z) st, unit) action" where
  "invalidate_conditions 0 v = raise Out_of_fuel"
| "invalidate_conditions (Suc n) v =
     andthen (modify_var v (\<lambda>var. if var_condition var \<noteq> None then var\<lparr>var_condition := None, var_cond_valid := False\<rparr> else var)) (\<lambda>_.
       andthen (get_var v) (\<lambda>var.
         case var_n var of
           Some b \<Rightarrow> invalidate_conditions n b
         | None \<Rightarrow> ret ()))"

definition var_invalidate_condition :: "var_id \<Rightarrow> (('x, 'd, 'z) st, unit) action" where
  "var_invalidate_condition v = andthen (get_var v) (\<lambda>var. invalidate_conditions (var_level var + 1) v)"

definition var_invalidate_default_value :: "var_id \<Rightarrow> (('x, 'd, 'z) st, unit) action" where
  "var_invalidate_default_value v = modify_var v (\<lambda>var. var\<lparr>var_def_value := None\<rparr>)"

definition var_register_client :: "var_id \<Rightarrow> var_id \<Rightarrow> (('x, 'd, 'z) st, unit) action" where
  "var_register_client v client =
     andthen (modify_var v (\<lambda>var. var\<lparr>var_n_clients := var_n_clients var @ [client]\<rparr>)) (\<lambda>_. var_invalidate_condition v)"

definition var_unregister_client :: "var_id \<Rightarrow> var_id \<Rightarrow> (('x, 'd, 'z) st, unit) action" where
  "var_unregister_client v client =
     andthen (get_var v) (\<lambda>var.
       if client \<in> set (var_n_clients var) then
         andthen (put_var v (var\<lparr>var_n_clients := remove1 client (var_n_clients var)\<rparr>)) (\<lambda>_. var_invalidate_condition v)
       else ret ())"

section \<open>Properties\<close>

definition var_properties_set_comment :: "'d var_properties_t \<Rightarrow> c_string \<Rightarrow> 'd var_properties_t" where
  "var_properties_set_comment props comment = props\<lparr>prop_comment := comment\<rparr>"

definition var_properties_set_default_value :: "'d var_properties_t \<Rightarrow> expr_t option \<Rightarrow> 'd var_properties_t" where
  "var_properties_set_default_value props def_value = props\<lparr>prop_def_value := def_value\<rparr>"

definition var_properties_set_disabled_value :: "'d var_properties_t \<Rightarrow> c_string option \<Rightarrow> 'd var_properties_t" where
  "var_properties_set_disabled_value props dis_value = props\<lparr>prop_dis_value := dis_value\<rparr>"

definition var_properties_set_condition :: "'d var_properties_t \<Rightarrow> expr_t \<Rightarrow> 'd var_properties_t" where
  "var_properties_set_condition props condition = props\<lparr>prop_condition := condition\<rparr>"

definition var_properties_set_extra :: "'d var_properties_t \<Rightarrow> 'd var_extra_t option \<Rightarrow> 'd var_properties_t" where
  "var_properties_set_extra props extra = props\<lparr>prop_extra := extra\<rparr>"

definition var_properties_check :: "'d var_properties_t \<Rightarrow> c_string \<Rightarrow> bool" where
  "var_properties_check props name = True"

fun clients_optional :: "var_id list \<Rightarrow> (('x, 'd, 'z) st, bool) action" where
  "clients_optional [] = ret True"
| "clients_optional (c # cs) =
     andthen (get_var c) (\<lambda>client. if \<not> prop_optional (var_props client) then ret False else clients_optional cs)"

definition var_set_properties :: "var_id \<Rightarrow> 'd var_properties_t \<Rightarrow> (('x, 'd, 'z) st, bool) action" where
  "var_set_properties v props =
     andthen (get_var v) (\<lambda>var.
       if \<not> var_properties_check props (var_name var) then ret False
       else
         andthen (if prop_optional props then clients_optional (var_n_clients var) else ret True) (\<lambda>ok.
           if \<not> ok then ret False
           else
             andthen (modify_var v (\<lambda>var. var\<lparr>var_props := props\<rparr>)) (\<lambda>_.
             andthen (var_invalidate_condition v) (\<lambda>_.
             andthen (var_invalidate_default_value v) (\<lambda>_. ret True)))))"

section \<open>Destroying variables\<close>

definition var_template_unregister_instance :: "template_id \<Rightarrow> var_id \<Rightarrow> (('x, 'd, 'r, 'z) ss, unit) action" where
  "var_template_unregister_instance t v =
     modify_template t (\<lambda>tmpl. tmpl\<lparr>tmpl_instances := remove1 v (tmpl_instances tmpl)\<rparr>)"

definition var_template_register_instance :: "template_id \<Rightarrow> var_id \<Rightarrow> (('x, 'd, 'r, 'z) ss, unit) action" where
  "var_template_register_instance t v =
     modify_template t (\<lambda>tmpl. tmpl\<lparr>tmpl_instances := tmpl_instances tmpl @ [v]\<rparr>)"

definition var_destroy :: "var_id \<Rightarrow> (('x, 'd, 'r, 'z) ss, unit) action" where
  "var_destroy v =
     andthen (var_invalidate_condition v) (\<lambda>_.
     andthen (var_invalidate_default_value v) (\<lambda>_.
     andthen (get_var v) (\<lambda>var.
     andthen (case var_n var of Some b \<Rightarrow> var_unregister_client b v | None \<Rightarrow> ret ()) (\<lambda>_.
     andthen (run_all (\<lambda>c. modify_var c (\<lambda>client. client\<lparr>var_n := None\<rparr>)) (var_n_clients var)) (\<lambda>_.
     andthen (case var_template var of Some t \<Rightarrow> var_template_unregister_instance t v | None \<Rightarrow> ret ()) (\<lambda>_.
     andthen get_state (\<lambda>s. put_state (s\<lparr>st_vars := (st_vars s)(v := None)\<rparr>))))))))"

text \<open>Templates are destroyed after their instances, which are taken out of their scope.\<close>

primrec invalidate_instances ::
  "(var_id \<Rightarrow> (('x, 'd, 'r, 'z) ss, unit) action) \<Rightarrow> nat \<Rightarrow> template_id \<Rightarrow> (('x, 'd, 'r, 'z) ss, unit) action" where
  "invalidate_instances remove 0 t =
     andthen (get_template t) (\<lambda>tmpl. if tmpl_instances tmpl = [] then ret () else raise Out_of_fuel)"
| "invalidate_instances remove (Suc n) t =
     andthen (get_template t) (\<lambda>tmpl.
       case tmpl_instances tmpl of
         [] \<Rightarrow> ret ()
       | v # _ \<Rightarrow> andthen (remove v) (\<lambda>_. invalidate_instances remove n t))"

definition var_template_destroy ::
  "(var_id \<Rightarrow> (('x, 'd, 'r, 'z) ss, unit) action) \<Rightarrow> template_id \<Rightarrow> (('x, 'd, 'r, 'z) ss, unit) action" where
  "var_template_destroy remove t =
     andthen (get_template t) (\<lambda>tmpl.
     andthen (invalidate_instances remove (length (tmpl_instances tmpl)) t) (\<lambda>_.
     andthen get_state (\<lambda>s. put_state (s\<lparr>ss_templates := (ss_templates s)(t := None)\<rparr>))))"

text \<open>The destructor of a member; a template leads to variables, and these to no template.\<close>

primrec destroy_member :: "nat \<Rightarrow> scope_member \<Rightarrow> (('x, 'd, 'r, 'z) ss, unit) action" where
  "destroy_member 0 member = raise Out_of_fuel"
| "destroy_member (Suc n) member =
     (case member of
        Member_variable v \<Rightarrow> var_destroy v
      | Member_template t \<Rightarrow>
          var_template_destroy (\<lambda>v.
            andthen (get_var v) (\<lambda>var.
            andthen (var_scope_remove_member (destroy_member n) (var_scope var) (var_name var)) (\<lambda>_. ret ()))) t)"

definition var_remove :: "var_id \<Rightarrow> (('x, 'd, 'r, 'z) ss, unit) action" where
  "var_remove v =
     andthen (get_var v) (\<lambda>var.
     andthen (var_scope_remove_member (destroy_member 2) (var_scope var) (var_name var)) (\<lambda>_. ret ()))"

definition var_template_remove :: "template_id \<Rightarrow> (('x, 'd, 'r, 'z) ss, unit) action" where
  "var_template_remove t =
     andthen (get_template t) (\<lambda>tmpl.
     andthen (var_scope_remove_member (destroy_member 2) (tmpl_scope tmpl) (tmpl_name tmpl)) (\<lambda>_. ret ()))"

section \<open>Looking up variables\<close>

type_synonym ('x, 'd, 'r, 'z) adder =
  "scope_id \<Rightarrow> c_string \<Rightarrow> vartype_id \<Rightarrow> var_priority_t \<Rightarrow> location_t \<Rightarrow> 'd var_properties_t \<Rightarrow>
   (('x, 'd, 'r, 'z) ss, var_id option) action"

definition var_template_instantiate ::
  "('x, 'd, 'r, 'z) senv \<Rightarrow> ('x, 'd, 'r, 'z) adder \<Rightarrow> template_id \<Rightarrow> c_string \<Rightarrow> (('x, 'd, 'r, 'z) ss, var_id option) action" where
  "var_template_instantiate E add t name =
     andthen (get_template t) (\<lambda>tmpl.
     andthen (on_packages (location_clone (tmpl_location tmpl))) (\<lambda>location.
     andthen get_state (\<lambda>s.
     andthen (add (tmpl_scope tmpl) name (tmpl_type tmpl) (tmpl_priority tmpl) location
         (var_properties_clone (var_expr_type E s) (tmpl_props tmpl))) (\<lambda>var.
       case var of
         Some v \<Rightarrow>
           andthen (modify_var v (\<lambda>var. var\<lparr>var_template := Some t\<rparr>)) (\<lambda>_.
           andthen (var_template_register_instance t v) (\<lambda>_. ret (Some v)))
       | None \<Rightarrow> ret None))))"

text \<open>The visitor leaves what it made in the request, the second component of its state.\<close>

definition var_template_try_deduce_instantiation ::
  "'r regex_lib \<Rightarrow> ('x, 'd, 'r, 'z) senv \<Rightarrow> ('x, 'd, 'r, 'z) adder \<Rightarrow> c_string \<Rightarrow> template_id \<Rightarrow>
   (('x, 'd, 'r, 'z) ss \<times> var_id option, bool) action" where
  "var_template_try_deduce_instantiation R E add name t =
     andthen (zoom fst (\<lambda>s (_, i). (s, i)) (get_template t)) (\<lambda>tmpl.
       case regexec R (tmpl_regex tmpl) name 0 of
         Some _ \<Rightarrow>
           andthen (zoom fst (\<lambda>s (_, i). (s, i)) (var_template_instantiate E add t name)) (\<lambda>v.
           andthen get_state (\<lambda>(s, _). andthen (put_state (s, v)) (\<lambda>_. ret False)))
       | None \<Rightarrow> ret True)"

definition var_scope_foreach_template ::
  "('s \<Rightarrow> ('x, 'd, 'r, 'z) ss) \<Rightarrow> scope_id \<Rightarrow> bool \<Rightarrow> (template_id \<Rightarrow> ('s, bool) action) \<Rightarrow> ('s, bool) action" where
  "var_scope_foreach_template view sc recursive visitor =
     var_scope_foreach_member view sc recursive (var_scope_template_visitor visitor)"

definition var_template_instantiate_from_string ::
  "'r regex_lib \<Rightarrow> ('x, 'd, 'r, 'z) senv \<Rightarrow> ('x, 'd, 'r, 'z) adder \<Rightarrow> scope_id \<Rightarrow> c_string \<Rightarrow> bool \<Rightarrow>
   (('x, 'd, 'r, 'z) ss, var_id option) action" where
  "var_template_instantiate_from_string R E add sc name recursive = (\<lambda>s.
     case var_scope_foreach_template fst sc recursive (var_template_try_deduce_instantiation R E add name) (s, None) of
       Done through (s, inst) \<Rightarrow> Done (if through then None else inst) s
     | Failed e \<Rightarrow> Failed e)"

definition var_scope_do_try_get ::
  "'r regex_lib \<Rightarrow> ('x, 'd, 'r, 'z) senv \<Rightarrow> ('x, 'd, 'r, 'z) adder \<Rightarrow> scope_id \<Rightarrow> c_string \<Rightarrow> bool \<Rightarrow> bool \<Rightarrow>
   (('x, 'd, 'r, 'z) ss, var_id option) action" where
  "var_scope_do_try_get R E add sc name recursive considerTemplates =
     andthen (var_scope_try_get_member sc name recursive) (\<lambda>member.
       case member of
         Some (Member_variable v) \<Rightarrow> ret (Some v)
       | Some (Member_template t) \<Rightarrow> ret None
       | None \<Rightarrow>
           if considerTemplates then var_template_instantiate_from_string R E add sc name recursive else ret None)"

section \<open>Adding variables to a scope\<close>

definition var_redefine :: "var_id \<Rightarrow> var_id \<Rightarrow> (('x, 'd, 'r, 'z) ss, bool) action" where
  "var_redefine target source =
     andthen (get_var target) (\<lambda>t.
     andthen (get_var source) (\<lambda>s.
     andthen (my_assert (var_name t = var_name s)) (\<lambda>_.
     andthen (my_assert (var_scope t = var_scope s)) (\<lambda>_.
       if \<not> prop_weak (var_props t) then ret False
       else if var_type t \<noteq> var_type s then ret False
       else if var_priority t \<noteq> var_priority s then ret False
       else
         andthen (var_set_properties target (var_props s)) (\<lambda>ok.
           if ok then
             andthen (modify_var target (\<lambda>t. t\<lparr>var_location := var_location s, var_priority := var_priority s\<rparr>)) (\<lambda>_.
             andthen (var_destroy source) (\<lambda>_. ret True))
           else ret False)))))"

text \<open>Templates are not considered here, so that no nested call is needed.\<close>

definition var_scope_add_var ::
  "'r regex_lib \<Rightarrow> ('x, 'd, 'r, 'z) senv \<Rightarrow> scope_id \<Rightarrow> var_id \<Rightarrow> (('x, 'd, 'r, 'z) ss, var_id option) action" where
  "var_scope_add_var R E sc v =
     andthen (get_var v) (\<lambda>var.
     andthen (var_scope_do_try_get R E (\<lambda>_ _ _ _ _ _. raise Out_of_fuel) sc (var_name var) False False) (\<lambda>var_old.
       case var_old of
         Some old \<Rightarrow> andthen (var_redefine old v) (\<lambda>ok. ret (if ok then Some old else None))
       | None \<Rightarrow>
           andthen (var_scope_add_member sc (var_name var) (Member_variable v)) (\<lambda>old.
             ret (case old of None \<Rightarrow> Some v | Some _ \<Rightarrow> None))))"

definition var_get_array_bound_type :: "(('x, 'd, 'r, 'z) ss, vartype_id) action" where
  "var_get_array_bound_type =
     andthen get_state (\<lambda>s.
       case var_array_bound_type s of
         Some t \<Rightarrow> ret t
       | None \<Rightarrow>
           (let t = vartype_get s VARTYPE_PREDEFINED_UNSIGNED_INTEGER in
            andthen (put_state (s\<lparr>var_array_bound_type := t\<rparr>)) (\<lambda>_.
            andthen (my_assert (t \<noteq> None)) (\<lambda>_. deref t))))"

definition var_check_array_bound ::
  "var_id \<Rightarrow> 'd var_properties_t \<Rightarrow> var_priority_t \<Rightarrow> (('x, 'd, 'r, 'z) ss, bool) action" where
  "var_check_array_bound b props priority =
     andthen (get_var b) (\<lambda>var_n.
     andthen var_get_array_bound_type (\<lambda>t.
       if var_type var_n \<noteq> t then ret False
       else if var_priority var_n \<noteq> priority then ret False
       else if prop_optional (var_props var_n) \<and> \<not> prop_optional props then ret False
       else ret True))"

definition VAR_N_SUFFIX :: char where "VAR_N_SUFFIX = CHR ''N''"
definition VAR_N_DEF_VALUE :: c_string where "VAR_N_DEF_VALUE = ''0''"

definition array_bound_properties :: "('x, 'd, 'z) env \<Rightarrow> 'd var_properties_t" where
  "array_bound_properties E =
     var_properties_set_disabled_value
       (var_properties_set_default_value ((var_properties_create E)\<lparr>prop_optional := False, prop_weak := True\<rparr>)
         (Some (Literal (expr_literal_create_integer (env_global_scope E) 0))))
       (Some VAR_N_DEF_VALUE)"

text \<open>The result is the bound, if it is there or could be made and fits, and whether it was made.\<close>

definition var_get_or_add_array_bound ::
  "'r regex_lib \<Rightarrow> ('x, 'd, 'r, 'z) senv \<Rightarrow> ('x, 'd, 'r, 'z) adder \<Rightarrow> scope_id \<Rightarrow> c_string \<Rightarrow> 'd var_properties_t \<Rightarrow>
   var_priority_t \<Rightarrow> location_t \<Rightarrow> (('x, 'd, 'r, 'z) ss, var_id option \<times> bool) action" where
  "var_get_or_add_array_bound R E add sc name props priority location =
     andthen (var_scope_do_try_get R E add sc name False True) (\<lambda>b.
       case b of
         Some b \<Rightarrow>
           andthen (var_check_array_bound b props priority) (\<lambda>ok. ret (if ok then Some b else None, False))
       | None \<Rightarrow>
           andthen (on_packages (location_clone location)) (\<lambda>new_location.
           andthen var_get_array_bound_type (\<lambda>t.
           andthen (add sc name t priority new_location (array_bound_properties E)) (\<lambda>b.
           andthen (my_assert (b \<noteq> None)) (\<lambda>_. ret (b, True))))))"

text \<open>The text before the last placeholder of a name, if it has one.\<close>

fun before_last_placeholder :: "c_string \<Rightarrow> c_string option" where
  "before_last_placeholder [] = None"
| "before_last_placeholder (c # cs) =
     (case before_last_placeholder cs of
        Some p \<Rightarrow> Some (c # p)
      | None \<Rightarrow> if c = VAR_PLACEHOLDER then Some [] else None)"

definition array_bound_name :: "c_string \<Rightarrow> c_string option" where
  "array_bound_name name = map_option (\<lambda>p. p @ [VAR_N_SUFFIX]) (before_last_placeholder name)"

text \<open>The bound of the new variable: none for a variable that is no array, or a failure.\<close>

definition var_find_array_bound ::
  "'r regex_lib \<Rightarrow> ('x, 'd, 'r, 'z) senv \<Rightarrow> ('x, 'd, 'r, 'z) adder \<Rightarrow> scope_id \<Rightarrow> c_string \<Rightarrow> c_string option \<Rightarrow>
   var_priority_t \<Rightarrow> location_t \<Rightarrow> 'd var_properties_t \<Rightarrow> (('x, 'd, 'r, 'z) ss, var_id option option) action" where
  "var_find_array_bound R E add sc name explicit priority location props =
     (case array_bound_name name of
        Some computed \<Rightarrow>
          andthen (var_get_or_add_array_bound R E add sc (case explicit of Some n \<Rightarrow> n | None \<Rightarrow> computed)
              props priority location) (\<lambda>(b, created).
            case b of
              None \<Rightarrow> ret None
            | Some b \<Rightarrow>
                andthen (get_var b) (\<lambda>var_n.
                  if explicit \<noteq> None \<and> count_list name VAR_PLACEHOLDER \<noteq> var_level var_n + 1 then
                    andthen (if created then var_remove b else ret ()) (\<lambda>_. ret None)
                  else ret (Some (Some b))))
      | None \<Rightarrow> if explicit \<noteq> None then ret None else ret (Some None))"

definition var_create ::
  "'r regex_lib \<Rightarrow> ('x, 'd, 'r, 'z) senv \<Rightarrow> ('x, 'd, 'r, 'z) adder \<Rightarrow> scope_id \<Rightarrow> c_string \<Rightarrow> c_string option \<Rightarrow>
   vartype_id \<Rightarrow> var_priority_t \<Rightarrow> location_t \<Rightarrow> 'd var_properties_t \<Rightarrow> (('x, 'd, 'r, 'z) ss, var_id option) action" where
  "var_create R E add sc name explicit type priority location props =
     andthen (var_find_array_bound R E add sc name explicit priority location props) (\<lambda>bound.
       case bound of
         None \<Rightarrow> ret None
       | Some b \<Rightarrow>
           (let level = (case b of None \<Rightarrow> 0 | Some _ \<Rightarrow> count_list name VAR_PLACEHOLDER) in
            andthen (new_var
              \<lparr>var_name = name, var_location = location, var_template = None, var_type = type, var_scope = sc,
               var_level = level, var_n = b, var_n_clients = [], var_slot = var_slot_init 0 level,
               var_priority = priority, var_props = props, var_condition = None, var_cond_valid = False,
               var_def_value = None\<rparr>) (\<lambda>v.
            andthen (case b of Some b \<Rightarrow> var_register_client b v | None \<Rightarrow> ret ()) (\<lambda>_.
            andthen (var_scope_add_var R E sc v) (\<lambda>var_added.
              case var_added of
                None \<Rightarrow> andthen (var_destroy v) (\<lambda>_. ret None)
              | Some a \<Rightarrow> ret (Some a))))))"

text \<open>
  The first argument bounds the nesting of calls, the second the expansion of the type of names, which refers to no
  other type.
\<close>

primrec var_add_with_array_bound ::
  "nat \<Rightarrow> nat \<Rightarrow> 'r regex_lib \<Rightarrow> ('x, 'd, 'r, 'z) senv \<Rightarrow> scope_id \<Rightarrow> c_string \<Rightarrow> c_string option \<Rightarrow> vartype_id \<Rightarrow>
   var_priority_t \<Rightarrow> location_t \<Rightarrow> 'd var_properties_t \<Rightarrow> (('x, 'd, 'r, 'z) ss, var_id option) action" where
  "var_add_with_array_bound 0 k R E sc name explicit type priority location props = raise Out_of_fuel"
| "var_add_with_array_bound (Suc n) k R E sc name explicit type priority location props =
     andthen get_state (\<lambda>s.
     andthen (deref (var_varname_type s)) (\<lambda>names.
     andthen (vartype_match R k E names name) (\<lambda>valid.
       if \<not> valid then ret None
       else if \<not> var_properties_check props name then ret None
       else
         var_create R E (\<lambda>sc name. var_add_with_array_bound n k R E sc name None) sc name explicit type priority
           location props)))"

definition var_add :: "nat \<Rightarrow> nat \<Rightarrow> 'r regex_lib \<Rightarrow> ('x, 'd, 'r, 'z) senv \<Rightarrow> ('x, 'd, 'r, 'z) adder" where
  "var_add n k R E sc name = var_add_with_array_bound n k R E sc name None"

section \<open>Looking up variables from outside\<close>

definition var_scope_try_get ::
  "nat \<Rightarrow> nat \<Rightarrow> 'r regex_lib \<Rightarrow> ('x, 'd, 'r, 'z) senv \<Rightarrow> scope_id \<Rightarrow> c_string \<Rightarrow> bool \<Rightarrow>
   (('x, 'd, 'r, 'z) ss, var_id option) action" where
  "var_scope_try_get n k R E sc name recursive = var_scope_do_try_get R E (var_add n k R E) sc name recursive True"

definition var_scope_get ::
  "nat \<Rightarrow> nat \<Rightarrow> 'r regex_lib \<Rightarrow> ('x, 'd, 'r, 'z) senv \<Rightarrow> scope_id \<Rightarrow> c_string \<Rightarrow> bool \<Rightarrow>
   (('x, 'd, 'r, 'z) ss, var_id option) action" where
  "var_scope_get n k R E sc name recursive =
     andthen (var_scope_try_get n k R E sc name recursive) (\<lambda>var.
       case var of Some v \<Rightarrow> ret (Some v) | None \<Rightarrow> ret None)"

definition var_try_get ::
  "nat \<Rightarrow> nat \<Rightarrow> 'r regex_lib \<Rightarrow> ('x, 'd, 'r, 'z) senv \<Rightarrow> c_string \<Rightarrow> (('x, 'd, 'r, 'z) ss, var_id option) action" where
  "var_try_get n k R E name =
     andthen var_get_global_scope (\<lambda>sc. andthen (deref sc) (\<lambda>sc. var_scope_try_get n k R E sc name True))"

definition var_get ::
  "nat \<Rightarrow> nat \<Rightarrow> 'r regex_lib \<Rightarrow> ('x, 'd, 'r, 'z) senv \<Rightarrow> c_string \<Rightarrow> (('x, 'd, 'r, 'z) ss, var_id option) action" where
  "var_get n k R E name =
     andthen (var_try_get n k R E name) (\<lambda>var. case var of Some v \<Rightarrow> ret (Some v) | None \<Rightarrow> ret None)"

definition var_scope_foreach ::
  "('s \<Rightarrow> ('x, 'd, 'r, 'z) ss) \<Rightarrow> scope_id \<Rightarrow> bool \<Rightarrow> (var_id \<Rightarrow> ('s, bool) action) \<Rightarrow> ('s, bool) action" where
  "var_scope_foreach view sc recursive visitor =
     var_scope_foreach_member view sc recursive (var_scope_variable_visitor visitor)"

text \<open>The result of the check is the data of the visitor.\<close>

definition var_check_values ::
  "('x, 'd, 'r, 'z) senv \<Rightarrow> nat \<Rightarrow> (('x, 'd, 'r, 'z) ss, bool) action" where
  "var_check_values E fuel = (\<lambda>s.
     case andthen (deref (global_scope s)) (\<lambda>sc.
         var_scope_foreach fst sc True (\<lambda>v.
           andthen (zoom fst (\<lambda>s (_, r). (s, r)) (var_check_variable E fuel v)) (\<lambda>ok.
           andthen get_state (\<lambda>(s, r). andthen (put_state (s, r \<and> ok)) (\<lambda>_. ret True))))) (s, True) of
       Done _ (s, r) \<Rightarrow> Done r s
     | Failed e \<Rightarrow> Failed e)"

end
