(* ===== verification/Var_Template.thy ===== *)
theory Var_Template
  imports Var_Define
begin

text \<open>
  The rest of \<open>var/template.c\<close>: adding and looking up templates, their conditions and default values; and
  \<open>var/initfini.c\<close>, the start and the end of the variable component.
\<close>

section \<open>Adding and finding templates\<close>

definition var_scope_try_get_template ::
  "scope_id \<Rightarrow> c_string \<Rightarrow> bool \<Rightarrow> (('x, 'd, 'r, 'z) ss, template_id option) action" where
  "var_scope_try_get_template sc name recursive =
     andthen (var_scope_try_get_member sc name recursive) (\<lambda>member.
       ret (case member of Some (Member_template t) \<Rightarrow> Some t | _ \<Rightarrow> None))"

definition var_scope_get_template ::
  "scope_id \<Rightarrow> c_string \<Rightarrow> bool \<Rightarrow> (('x, 'd, 'r, 'z) ss, template_id option) action" where
  "var_scope_get_template sc name recursive =
     andthen (var_scope_try_get_template sc name recursive) (\<lambda>tmpl.
       case tmpl of Some t \<Rightarrow> ret (Some t) | None \<Rightarrow> ret None)"

definition var_scope_add_template :: "scope_id \<Rightarrow> template_id \<Rightarrow> (('x, 'd, 'r, 'z) ss, bool) action" where
  "var_scope_add_template sc t =
     andthen (get_template t) (\<lambda>tmpl.
     andthen (var_scope_add_member sc (tmpl_name tmpl) (Member_template t)) (\<lambda>old. ret (old = None)))"

definition var_template_try_get :: "c_string \<Rightarrow> (('x, 'd, 'r, 'z) ss, template_id option) action" where
  "var_template_try_get name =
     andthen var_get_global_scope (\<lambda>sc. andthen (deref sc) (\<lambda>sc. var_scope_try_get_template sc name True))"

definition var_template_get :: "c_string \<Rightarrow> (('x, 'd, 'r, 'z) ss, template_id option) action" where
  "var_template_get name =
     andthen (var_template_try_get name) (\<lambda>tmpl. case tmpl of Some t \<Rightarrow> ret (Some t) | None \<Rightarrow> ret None)"

definition new_template :: "('d, 'r) var_template_t \<Rightarrow> (('x, 'd, 'r, 'z) ss, template_id) action" where
  "new_template tmpl =
     andthen get_state (\<lambda>s.
       andthen (put_state (s\<lparr>ss_templates := (ss_templates s)(ss_next_template s \<mapsto> tmpl),
           ss_next_template := ss_next_template s + 1\<rparr>)) (\<lambda>_.
         ret (ss_next_template s)))"

definition template_regex :: "c_string \<Rightarrow> c_string" where
  "template_regex name = ''^('' @ name @ '')$''"

definition var_template_add ::
  "'r regex_lib \<Rightarrow> scope_id \<Rightarrow> c_string \<Rightarrow> vartype_id \<Rightarrow> var_priority_t \<Rightarrow> location_t \<Rightarrow> 'd var_properties_t \<Rightarrow>
   (('x, 'd, 'r, 'z) ss, template_id option) action" where
  "var_template_add R sc name type priority location props =
     (if \<not> var_properties_check props name then ret None
      else
        andthen (my_assert (regcomp R (template_regex name) \<noteq> None)) (\<lambda>_.
        andthen (deref (regcomp R (template_regex name))) (\<lambda>regex.
        andthen (new_template
          \<lparr>tmpl_name = name, tmpl_location = location, tmpl_type = type, tmpl_scope = sc, tmpl_instances = [],
           tmpl_priority = priority, tmpl_props = props, tmpl_condition = None, tmpl_cond_valid = False,
           tmpl_regex = regex, tmpl_def_value = None\<rparr>) (\<lambda>t.
        andthen (var_scope_add_template sc t) (\<lambda>ok.
          if ok then ret (Some t)
          else andthen (var_template_destroy var_remove t) (\<lambda>_. ret None))))))"

section \<open>Conditions and default values of templates\<close>

definition var_template_compute_condition :: "('x, 'd, 'r, 'z) senv \<Rightarrow> template_id \<Rightarrow> (('x, 'd, 'r, 'z) ss, unit) action" where
  "var_template_compute_condition E t =
     andthen (get_template t) (\<lambda>tmpl.
       if tmpl_condition tmpl \<noteq> None then ret ()
       else
         andthen get_state (\<lambda>s.
         andthen (check_condition E (expr_clone (var_expr_type E s) (prop_condition (tmpl_props tmpl)))) (\<lambda>(valid, condition).
           modify_template t (\<lambda>tmpl. tmpl\<lparr>tmpl_condition := Some condition,
             tmpl_cond_valid := tmpl_cond_valid tmpl \<or> valid\<rparr>))))"

definition var_template_get_condition :: "('x, 'd, 'r, 'z) senv \<Rightarrow> template_id \<Rightarrow> (('x, 'd, 'r, 'z) ss, expr_t) action" where
  "var_template_get_condition E t =
     andthen (var_template_compute_condition E t) (\<lambda>_. andthen (get_template t) (\<lambda>tmpl. deref (tmpl_condition tmpl)))"

definition var_template_has_valid_condition :: "('x, 'd, 'r, 'z) senv \<Rightarrow> template_id \<Rightarrow> (('x, 'd, 'r, 'z) ss, bool) action" where
  "var_template_has_valid_condition E t =
     andthen (var_template_compute_condition E t) (\<lambda>_. andthen (get_template t) (\<lambda>tmpl. ret (tmpl_cond_valid tmpl)))"

definition var_template_compute_default_value ::
  "('x, 'd, 'r, 'z) senv \<Rightarrow> template_id \<Rightarrow> (('x, 'd, 'r, 'z) ss, unit) action" where
  "var_template_compute_default_value E t =
     andthen (get_template t) (\<lambda>tmpl.
       case (tmpl_def_value tmpl, prop_def_value (tmpl_props tmpl)) of
         (None, Some d) \<Rightarrow>
           andthen get_state (\<lambda>s.
             andthen (expr_resolve_variable_expressions (env_create_from_string E) (var_expr_type E)
                 (expr_clone (var_expr_type E s) d)) (\<lambda>(ok, failed_ref, def_value).
               if \<not> ok then ret ()
               else andthen (expr_typecheck_expression def_value) (\<lambda>(ok, error_expr, def_value).
                 if \<not> ok then ret ()
                 else modify_template t (\<lambda>tmpl. tmpl\<lparr>tmpl_def_value := Some def_value\<rparr>))))
       | _ \<Rightarrow> ret ())"

definition var_template_get_default_value ::
  "('x, 'd, 'r, 'z) senv \<Rightarrow> template_id \<Rightarrow> (('x, 'd, 'r, 'z) ss, expr_t option) action" where
  "var_template_get_default_value E t =
     andthen (var_template_compute_default_value E t) (\<lambda>_. andthen (get_template t) (\<lambda>tmpl. ret (tmpl_def_value tmpl)))"

definition var_template_has_valid_default_value ::
  "('x, 'd, 'r, 'z) senv \<Rightarrow> template_id \<Rightarrow> (('x, 'd, 'r, 'z) ss, bool) action" where
  "var_template_has_valid_default_value E t =
     andthen (var_template_compute_default_value E t) (\<lambda>_. andthen (get_template t) (\<lambda>tmpl.
       ret (prop_def_value (tmpl_props tmpl) = None \<or> tmpl_def_value tmpl \<noteq> None)))"

section \<open>The module\<close>

definition VAR_NAME_REGEX :: c_string where
  "VAR_NAME_REGEX = ''^[A-Z][A-Z0-9]*(_([A-Z][A-Z0-9]*|%))*$''"

definition var_init_module :: "nat \<Rightarrow> 'r regex_lib \<Rightarrow> ('x, 'd, 'r, 'z) senv \<Rightarrow> (('x, 'd, 'r, 'z) ss, unit) action" where
  "var_init_module k R E =
     andthen var_scope_init (\<lambda>_.
     andthen (on_packages (location_create_internal PACKAGE_FILE_TYPE_EXTCHECK)) (\<lambda>location.
     andthen (vartype_add_temporary R k E VAR_NAME_REGEX location False) (\<lambda>t.
     andthen get_state (\<lambda>s.
     andthen (put_state (s\<lparr>var_varname_type := t\<rparr>)) (\<lambda>_. my_assert (t \<noteq> None))))))"

definition var_scope_fini :: "(('x, 'd, 'r, 'z) ss, unit) action" where
  "var_scope_fini =
     andthen get_state (\<lambda>s.
     andthen (deref (global_scope s)) (\<lambda>sc.
     andthen (var_scope_destroy (destroy_member 2) sc) (\<lambda>_.
     andthen get_state (\<lambda>s. put_state (s\<lparr>global_scope := None\<rparr>)))))"

definition var_fini_module :: "(('x, 'd, 'r, 'z) ss, unit) action" where
  "var_fini_module =
     andthen get_state (\<lambda>s.
     andthen (deref (var_varname_type s)) (\<lambda>t.
     andthen (vartype_remove t) (\<lambda>_.
     andthen get_state (\<lambda>s.
     andthen (put_state (s\<lparr>var_varname_type := None\<rparr>)) (\<lambda>_. var_scope_fini)))))"

end
