(* ===== verification/Var_Add.thy ===== *)
theory Var_Add
  imports Var_Template
begin

text \<open>
  What defining variables keeps and achieves: the invariant that ties variables, array bounds and scopes together,
  that adding an array of any number of levels adds the bounds that are missing, and that a variable can be
  defined again exactly if it is weak.
\<close>

section \<open>Names of array bounds\<close>

abbreviation placeholders :: "c_string \<Rightarrow> nat" where
  "placeholders name \<equiv> count_list name VAR_PLACEHOLDER"

lemma tolower_placeholder: "tolower c = VAR_PLACEHOLDER \<longleftrightarrow> c = VAR_PLACEHOLDER"
proof -
  have "tolower c = VAR_PLACEHOLDER \<longleftrightarrow> (of_char (tolower c) :: nat) = of_char VAR_PLACEHOLDER" by simp
  also have "\<dots> \<longleftrightarrow> (of_char c :: nat) = of_char VAR_PLACEHOLDER"
    by (auto simp: of_char_tolower isupper_def VAR_PLACEHOLDER_def)
  finally show ?thesis by simp
qed

lemma placeholders_tolower: "count_list (map tolower a) VAR_PLACEHOLDER = placeholders a"
  by (induction a) (auto simp: tolower_placeholder)

lemma strcasecmp_placeholders: "strcasecmp_eq a b \<Longrightarrow> placeholders a = placeholders b"
  by (metis placeholders_tolower strcasecmp_eq_def)

lemma before_last_placeholder_count:
  "(case before_last_placeholder name of None \<Rightarrow> placeholders name = 0 | Some p \<Rightarrow> placeholders name = Suc (placeholders p))"
  by (induction name) (auto split: option.splits)

lemma array_bound_name_count:
  "array_bound_name name = Some b \<Longrightarrow> placeholders name = Suc (placeholders b)"
  "array_bound_name name = None \<longleftrightarrow> placeholders name = 0"
  using before_last_placeholder_count [of name]
  by (auto simp: array_bound_name_def VAR_N_SUFFIX_def VAR_PLACEHOLDER_def split: option.splits)

function bound_names :: "c_string \<Rightarrow> c_string list" where
  "bound_names name = (case array_bound_name name of None \<Rightarrow> [] | Some b \<Rightarrow> b # bound_names b)"
  by pat_completeness auto
termination
  by (relation "measure placeholders") (auto dest: array_bound_name_count(1))

declare bound_names.simps [simp del]

lemma bound_names_simps:
  "array_bound_name name = None \<Longrightarrow> bound_names name = []"
  "array_bound_name name = Some b \<Longrightarrow> bound_names name = b # bound_names b"
  by (simp_all add: bound_names.simps)

lemma bound_names_fewer: "b \<in> set (bound_names name) \<Longrightarrow> placeholders b < placeholders name"
proof (induction name rule: bound_names.induct)
  case (1 name)
  then show ?case
    by (cases "array_bound_name name") (auto simp: bound_names_simps dest: array_bound_name_count(1))
qed

section \<open>The invariant\<close>

definition var_linked :: "(var_id \<Rightarrow> ('x, 'd) var_t option) \<Rightarrow> var_id \<Rightarrow> ('x, 'd) var_t \<Rightarrow> bool" where
  "var_linked vs v x \<longleftrightarrow>
     slot_wf (var_level x) (var_slot x) \<and> var_level x = placeholders (var_name x)
     \<and> (case var_n x of
          None \<Rightarrow> var_level x = 0
        | Some b \<Rightarrow> (\<exists>y. vs b = Some y \<and> var_level x = Suc (var_level y) \<and> v \<in> set (var_n_clients y)))
     \<and> (\<forall>c \<in> set (var_n_clients x). \<exists>y. vs c = Some y \<and> var_n y = Some v) \<and> distinct (var_n_clients x)"

definition vars_ok :: "('x, 'd, 'r, 'z) ss \<Rightarrow> bool" where
  "vars_ok s \<longleftrightarrow> scopes_ok s
     \<and> (\<forall>v x. st_vars s v = Some x \<longrightarrow> v < ss_next_var s \<and> var_linked (st_vars s) v x)
     \<and> (\<forall>sc scope k nm v. ss_scopes s sc = Some scope \<longrightarrow> hashmap_get (scope_members scope) k = Some (nm, Member_variable v) \<longrightarrow>
          (\<exists>x. st_vars s v = Some x \<and> var_name x = nm \<and> var_scope x = sc))"

lemma vars_okD:
  assumes "vars_ok s"
  shows "scopes_ok s" and "st_vars s v = Some x \<Longrightarrow> v < ss_next_var s" and "st_vars s v = Some x \<Longrightarrow> var_linked (st_vars s) v x"
    and "ss_scopes s sc = Some scope \<Longrightarrow> hashmap_get (scope_members scope) k = Some (nm, Member_variable v) \<Longrightarrow>
      \<exists>x. st_vars s v = Some x \<and> var_name x = nm \<and> var_scope x = sc"
  using assms unfolding vars_ok_def by blast+

lemma var_linkedD:
  assumes "var_linked vs v x"
  shows "slot_wf (var_level x) (var_slot x)" and "var_level x = placeholders (var_name x)"
    and "var_n x = None \<Longrightarrow> var_level x = 0"
    and "var_n x = Some b \<Longrightarrow> \<exists>y. vs b = Some y \<and> var_level x = Suc (var_level y) \<and> v \<in> set (var_n_clients y)"
    and "c \<in> set (var_n_clients x) \<Longrightarrow> \<exists>y. vs c = Some y \<and> var_n y = Some v" and "distinct (var_n_clients x)"
  using assms unfolding var_linked_def by (auto split: option.splits)

text \<open>The variables are as the functions that grow arrays need them.\<close>

lemma vars_ok_store_wf:
  assumes ok: "vars_ok s" and L: "\<forall>v x. st_vars s v = Some x \<longrightarrow> var_level x \<le> L"
  shows "store_wf L s"
  unfolding store_wf_def
proof (intro allI impI conjI ballI)
  fix v x
  assume v: "st_vars s v = Some x"
  note link = vars_okD(3) [OF ok v]
  show "slot_wf (var_level x) (var_slot x)" by (rule var_linkedD(1) [OF link])
  show "var_level x \<le> L" using L v by blast
  show "\<exists>n y. var_n x = Some n \<and> st_vars s n = Some y \<and> Suc (var_level y) = var_level x" if "0 < var_level x"
    using var_linkedD(3,4) [OF link] that by (cases "var_n x") auto
  fix c
  assume "c \<in> set (var_n_clients x)"
  then obtain y where y: "st_vars s c = Some y" "var_n y = Some v" using var_linkedD(5) [OF link] by blast
  then show "\<exists>y. st_vars s c = Some y \<and> var_level y = Suc (var_level x)"
    using var_linkedD(4) [OF vars_okD(3) [OF ok y(1)] y(2)] v by auto
qed

section \<open>Clearing the caches of conditions\<close>

definition uncached :: "('x, 'd) var_t \<Rightarrow> ('x, 'd) var_t" where
  "uncached x = x\<lparr>var_condition := None, var_cond_valid := False\<rparr>"

definition same_but_caches :: "(var_id \<Rightarrow> ('x, 'd) var_t option) \<Rightarrow> (var_id \<Rightarrow> ('x, 'd) var_t option) \<Rightarrow> bool" where
  "same_but_caches vs vs' \<longleftrightarrow> (\<forall>v. map_option uncached (vs' v) = map_option uncached (vs v))"

lemma modify_var_Done [simp]:
  "st_vars s v = Some x \<Longrightarrow> modify_var v f s = Done () (s\<lparr>st_vars := (st_vars s)(v \<mapsto> f x)\<rparr>)"
  by (simp add: modify_var_def)

lemma uncached_same:
  assumes "uncached x = uncached y"
  shows "var_name x = var_name y" "var_location x = var_location y" "var_template x = var_template y" "var_type x = var_type y"
    "var_scope x = var_scope y" "var_level x = var_level y" "var_n x = var_n y" "var_n_clients x = var_n_clients y"
    "var_slot x = var_slot y" "var_priority x = var_priority y" "var_props x = var_props y" "var_def_value x = var_def_value y"
  using assms by (cases x; cases y; simp add: uncached_def)+

lemma same_but_caches_Some:
  assumes "same_but_caches vs vs'" and "vs v = Some x"
  obtains y where "vs' v = Some y" and "uncached y = uncached x"
  using assms unfolding same_but_caches_def by (metis (no_types, lifting) map_option_eq_Some)

lemma same_but_caches_sym: "same_but_caches vs vs' \<Longrightarrow> same_but_caches vs' vs"
  by (simp add: same_but_caches_def)

lemma same_but_caches_trans: "same_but_caches vs vs' \<Longrightarrow> same_but_caches vs' vs'' \<Longrightarrow> same_but_caches vs vs''"
  by (simp add: same_but_caches_def)

definition bounds_exist :: "(var_id \<Rightarrow> ('x, 'd) var_t option) \<Rightarrow> bool" where
  "bounds_exist vs \<longleftrightarrow> (\<forall>v x b. vs v = Some x \<longrightarrow> var_n x = Some b \<longrightarrow> (\<exists>y. vs b = Some y \<and> var_level x = Suc (var_level y)))"

lemma bounds_existD:
  assumes "bounds_exist vs" and "vs v = Some x" and "var_n x = Some b"
  obtains y where "vs b = Some y" and "var_level x = Suc (var_level y)"
  using assms unfolding bounds_exist_def by blast

lemma bounds_exist_same:
  assumes "bounds_exist vs" and "same_but_caches vs vs'"
  shows "bounds_exist vs'"
  unfolding bounds_exist_def
proof (intro allI impI)
  fix v x b
  assume x: "vs' v = Some x" "var_n x = Some b"
  obtain x0 where x0: "vs v = Some x0" "uncached x0 = uncached x"
    using same_but_caches_Some [OF same_but_caches_sym [OF assms(2)] x(1)] by blast
  then have "var_n x0 = Some b" using x(2) uncached_same(7) by metis
  then obtain y0 where y0: "vs b = Some y0" "var_level x0 = Suc (var_level y0)" using bounds_existD [OF assms(1) x0(1)] by blast
  then obtain y where "vs' b = Some y" "uncached y = uncached y0" using same_but_caches_Some [OF assms(2)] by blast
  then show "\<exists>y. vs' b = Some y \<and> var_level x = Suc (var_level y)"
    using y0(2) x0(2) uncached_same(6) by metis
qed

lemma invalidate_conditions_ok:
  assumes "bounds_exist (st_vars s)"
    and "st_vars s v = Some x" and "var_level x < n"
  shows "\<exists>vs. invalidate_conditions n v s = Done () (s\<lparr>st_vars := vs\<rparr>) \<and> same_but_caches (st_vars s) vs"
  using assms
proof (induction n arbitrary: s v x)
  case (Suc n)
  define x' where "x' = (if var_condition x \<noteq> None then x\<lparr>var_condition := None, var_cond_valid := False\<rparr> else x)"
  let ?s = "s\<lparr>st_vars := (st_vars s)(v \<mapsto> x')\<rparr>"
  have n: "var_n x' = var_n x" and "uncached x' = uncached x" by (simp_all add: x'_def uncached_def)
  then have same: "same_but_caches (st_vars s) (st_vars ?s)"
    using Suc.prems(2) by (simp add: same_but_caches_def)
  have step: "invalidate_conditions (Suc n) v s = (case var_n x of Some b \<Rightarrow> invalidate_conditions n b | None \<Rightarrow> ret ()) ?s"
    using Suc.prems(2) by (cases "var_n x") (simp_all add: x'_def)
  show ?case
  proof (cases "var_n x")
    case None
    then have "invalidate_conditions (Suc n) v s = Done () ?s" using step by simp
    moreover have "same_but_caches (st_vars s) ((st_vars s)(v \<mapsto> x'))" using same by simp
    ultimately show ?thesis by blast
  next
    case (Some b)
    then obtain y where y: "st_vars s b = Some y" "var_level x = Suc (var_level y)"
      using bounds_existD [OF Suc.prems(1,2)] by blast
    obtain y' where y': "st_vars ?s b = Some y'" "var_level y' = var_level y"
      using same_but_caches_Some [OF same y(1)] uncached_same(6) by metis
    note chain = bounds_exist_same [OF Suc.prems(1) same]
    have "var_level y' < n" using Suc.prems(3) y(2) y'(2) by simp
    from Suc.IH [OF chain y'(1) this] obtain vs where vs:
      "invalidate_conditions n b ?s = Done () (?s\<lparr>st_vars := vs\<rparr>)" "same_but_caches (st_vars ?s) vs" by blast
    have "invalidate_conditions (Suc n) v s = Done () (s\<lparr>st_vars := vs\<rparr>)"
      using step Some vs(1) by simp
    then show ?thesis using same_but_caches_trans [OF same vs(2)] by blast
  qed
qed simp

lemma invalidate_condition_ok:
  assumes "bounds_exist (st_vars s)" and "st_vars s v = Some x"
  obtains vs where "var_invalidate_condition v s = Done () (s\<lparr>st_vars := vs\<rparr>)" and "same_but_caches (st_vars s) vs"
proof -
  have "var_level x < var_level x + 1" by simp
  from invalidate_conditions_ok [OF assms this] assms(2) that show ?thesis
    by (auto simp: var_invalidate_condition_def)
qed

lemma scopes_ok_cong: "ss_scopes s' = ss_scopes s \<Longrightarrow> ss_next_scope s' = ss_next_scope s \<Longrightarrow> scopes_ok s \<Longrightarrow> scopes_ok s'"
  by (simp add: scopes_ok_def)

section \<open>Linking a new variable\<close>

lemma vars_linked_bounds: "(\<And>v x. vs v = Some x \<Longrightarrow> var_linked vs v x) \<Longrightarrow> bounds_exist vs"
  unfolding bounds_exist_def by (meson var_linkedD(4))

lemma var_linked_same:
  assumes link: "var_linked vs v x" and same: "same_but_caches vs vs'" and x: "uncached x' = uncached x"
  shows "var_linked vs' v x'"
proof -
  have "(\<exists>y. vs' b = Some y \<and> P (uncached y)) \<longleftrightarrow> (\<exists>y. vs b = Some y \<and> P (uncached y))" for b P
    using same_but_caches_Some [OF same] same_but_caches_Some [OF same_but_caches_sym [OF same]] by metis
  from this [of _ "\<lambda>y. l = Suc (var_level y) \<and> v \<in> set (var_n_clients y)" for l] this [of _ "\<lambda>y. var_n y = Some v"]
  have e: "(\<exists>y. vs' b = Some y \<and> l = Suc (var_level y) \<and> v \<in> set (var_n_clients y)) \<longleftrightarrow>
        (\<exists>y. vs b = Some y \<and> l = Suc (var_level y) \<and> v \<in> set (var_n_clients y))"
    "(\<exists>y. vs' b = Some y \<and> var_n y = Some v) \<longleftrightarrow> (\<exists>y. vs b = Some y \<and> var_n y = Some v)" for b l
    by (simp_all add: uncached_def)
  show ?thesis using link unfolding var_linked_def uncached_same [OF x] e .
qed

text \<open>The bound has one client more.\<close>

definition link_var :: "var_id \<Rightarrow> ('x, 'd) var_t \<Rightarrow> (var_id \<Rightarrow> ('x, 'd) var_t option) \<Rightarrow> (var_id \<Rightarrow> ('x, 'd) var_t option)" where
  "link_var v x vs = (case var_n x of
     None \<Rightarrow> vs(v \<mapsto> x)
   | Some b \<Rightarrow> vs(v \<mapsto> x, b := map_option (\<lambda>y. y\<lparr>var_n_clients := var_n_clients y @ [v]\<rparr>) (vs b)))"

lemma link_var_old:
  assumes "vs w = Some y" and "w \<noteq> v"
  shows "\<exists>cs. link_var v x vs w = Some (y\<lparr>var_n_clients := var_n_clients y @ cs\<rparr>) \<and> set cs \<subseteq> {v}
    \<and> (cs \<noteq> [] \<longrightarrow> var_n x = Some w) \<and> length cs \<le> 1 \<and> (var_n x = Some w \<longrightarrow> v \<in> set cs)"
proof (cases "var_n x = Some w")
  case True
  then show ?thesis using assms by (intro exI [of _ "[v]"]) (simp add: link_var_def)
next
  case False
  then show ?thesis using assms by (intro exI [of _ "[]"]) (auto simp: link_var_def split: option.splits)
qed

lemma link_var_linked:
  assumes ok: "\<And>w y. vs w = Some y \<Longrightarrow> var_linked vs w y" and new: "vs v = None"
    and x: "slot_wf (var_level x) (var_slot x)" "var_level x = placeholders (var_name x)" "var_n_clients x = []"
    and n: "case var_n x of None \<Rightarrow> var_level x = 0 | Some b \<Rightarrow> \<exists>y. vs b = Some y \<and> var_level x = Suc (var_level y)"
    and w: "link_var v x vs w = Some y"
  shows "var_linked (link_var v x vs) w y"
proof -
  let ?vs = "link_var v x vs"
  have v: "?vs v = Some x" using new n by (auto simp: link_var_def split: option.splits)
  show ?thesis
  proof (cases "w = v")
    case True
    then have y: "y = x" using w v by simp
    have "case var_n x of None \<Rightarrow> var_level x = 0
        | Some b \<Rightarrow> \<exists>y. ?vs b = Some y \<and> var_level x = Suc (var_level y) \<and> v \<in> set (var_n_clients y)"
    proof (cases "var_n x")
      case (Some b)
      then obtain z where z: "vs b = Some z" "var_level x = Suc (var_level z)" using n by auto
      moreover have "b \<noteq> v" using z(1) new by auto
      ultimately show ?thesis using link_var_old [of vs b z v x] Some by auto
    qed (use n in simp)
    then show ?thesis unfolding var_linked_def y True using x by simp
  next
    case False
    then obtain z where z: "vs w = Some z"
      using w by (cases "vs w") (auto simp: link_var_def split: option.splits if_splits)
    note link = ok [OF z]
    obtain cs where cs: "y = z\<lparr>var_n_clients := var_n_clients z @ cs\<rparr>" "set cs \<subseteq> {v}" "cs \<noteq> [] \<longrightarrow> var_n x = Some w" "length cs \<le> 1"
      using link_var_old [of vs w z v x] z False w by auto
    have bound: "case var_n y of None \<Rightarrow> var_level y = 0
        | Some b \<Rightarrow> \<exists>u. ?vs b = Some u \<and> var_level y = Suc (var_level u) \<and> w \<in> set (var_n_clients u)"
    proof (cases "var_n z")
      case None
      then show ?thesis using cs(1) var_linkedD(3) [OF link] by simp
    next
      case (Some b)
      then obtain u where u: "vs b = Some u" "var_level z = Suc (var_level u)" "w \<in> set (var_n_clients u)"
        using var_linkedD(4) [OF link] by blast
      moreover have "b \<noteq> v" using u(1) new by auto
      ultimately show ?thesis using link_var_old [of vs b u v x] Some cs(1) by auto
    qed
    have clients: "\<exists>u. ?vs c = Some u \<and> var_n u = Some w" if c: "c \<in> set (var_n_clients y)" for c
    proof (cases "c = v")
      case True
      have "v \<notin> set (var_n_clients z)" using var_linkedD(5) [OF link, of v] new by auto
      then have "cs \<noteq> []" using c True cs(1) by auto
      then show ?thesis using v True cs(3) by simp
    next
      case c': False
      then have "c \<in> set (var_n_clients z)" using c cs(1,2) by auto
      then obtain u where "vs c = Some u" "var_n u = Some w" using var_linkedD(5) [OF link] by blast
      then show ?thesis using link_var_old [of vs c u v x] c' by auto
    qed
    have "v \<notin> set (var_n_clients z)" using var_linkedD(5) [OF link, of v] new by auto
    then have "distinct (var_n_clients y)"
      using var_linkedD(6) [OF link] cs by (cases cs) auto
    then show ?thesis using bound clients var_linkedD(1,2) [OF link] cs(1) unfolding var_linked_def by simp
  qed
qed

section \<open>What adding a variable leaves as it was\<close>

definition known_bound_type :: "('x, 'd, 'r, 'z) ss \<Rightarrow> vartype_id option" where
  "known_bound_type s =
     (case var_array_bound_type s of Some t \<Rightarrow> Some t | None \<Rightarrow> vartype_get s VARTYPE_PREDEFINED_UNSIGNED_INTEGER)"

lemma known_bound_type_cong:
  "var_array_bound_type s' = var_array_bound_type s \<Longrightarrow> vartypes s' = vartypes s \<Longrightarrow> known_bound_type s' = known_bound_type s"
  by (simp add: known_bound_type_def vartype_get_def vartype_try_get_def split: option.split)

text \<open>All but the variables, the scopes and the cached type of bounds.\<close>

definition frame :: "('x, 'd, 'r, 'z) ss \<Rightarrow> ('x, 'd, 'r, 'z) ss" where
  "frame s = s\<lparr>st_vars := (\<lambda>_. None), ss_scopes := (\<lambda>_. None), ss_next_var := 0, var_array_bound_type := None\<rparr>"

definition static :: "('x, 'd) var_t \<Rightarrow> ('x, 'd) var_t" where
  "static x = x\<lparr>var_condition := None, var_cond_valid := False, var_n_clients := []\<rparr>"

definition members_grow :: "c_string set \<Rightarrow> scope_member name_map \<Rightarrow> scope_member name_map \<Rightarrow> bool" where
  "members_grow names m m' \<longleftrightarrow>
     (\<forall>k e. hashmap_get m k = Some e \<longrightarrow> hashmap_get m' k = Some e)
     \<and> (\<forall>k e. hashmap_get m' k = Some e \<longrightarrow> hashmap_get m k = None \<longrightarrow>
          (\<exists>nm\<in>names. strcasecmp_eq k nm) \<and> (\<exists>v. snd e = Member_variable v))"

definition grows :: "scope_id \<Rightarrow> c_string set \<Rightarrow> ('x, 'd, 'r, 'z) ss \<Rightarrow> ('x, 'd, 'r, 'z) ss \<Rightarrow> bool" where
  "grows sc names s s' \<longleftrightarrow> frame s' = frame s \<and> known_bound_type s' = known_bound_type s
     \<and> (\<forall>sc'. sc' \<noteq> sc \<longrightarrow> ss_scopes s' sc' = ss_scopes s sc')
     \<and> (\<forall>scope. ss_scopes s sc = Some scope \<longrightarrow>
          (\<exists>mm. ss_scopes s' sc = Some (scope\<lparr>scope_members := mm\<rparr>) \<and> members_grow names (scope_members scope) mm))
     \<and> (\<forall>v x. st_vars s v = Some x \<longrightarrow> (\<exists>y. st_vars s' v = Some y \<and> static y = static x))"

lemma frame_same:
  assumes "frame s' = frame s"
  shows "ts_types s' = ts_types s" "vartypes s' = vartypes s" "ts_packages s' = ts_packages s" "ss_templates s' = ss_templates s"
    "var_varname_type s' = var_varname_type s" "ss_next_scope s' = ss_next_scope s"
  using arg_cong [OF assms, of ts_types] arg_cong [OF assms, of vartypes] arg_cong [OF assms, of ts_packages]
    arg_cong [OF assms, of ss_templates] arg_cong [OF assms, of var_varname_type] arg_cong [OF assms, of ss_next_scope]
  by (simp_all add: frame_def)

lemma static_same:
  assumes "static x = static y"
  shows "var_name x = var_name y" "var_type x = var_type y" "var_scope x = var_scope y" "var_level x = var_level y"
    "var_n x = var_n y" "var_slot x = var_slot y" "var_priority x = var_priority y" "var_props x = var_props y"
  using assms by (cases x; cases y; simp add: static_def)+

lemma static_uncached: "uncached x = uncached y \<Longrightarrow> static x = static y"
  by (cases x; cases y; simp add: uncached_def static_def)

lemma members_grow_refl [simp]: "members_grow names m m"
  by (simp add: members_grow_def)

lemma members_grow_trans:
  assumes "members_grow A m m'" and "members_grow B m' m''"
  shows "members_grow (A \<union> B) m m''"
proof -
  have "(\<exists>nm\<in>A \<union> B. strcasecmp_eq k nm) \<and> (\<exists>v. snd e = Member_variable v)"
    if k: "hashmap_get m'' k = Some e" "hashmap_get m k = None" for k e
  proof (cases "hashmap_get m' k")
    case None
    then show ?thesis using assms(2) k(1) unfolding members_grow_def by blast
  next
    case (Some e')
    then have "e' = e" using assms(2) k(1) unfolding members_grow_def by fastforce
    then show ?thesis using assms(1) k(2) Some unfolding members_grow_def by blast
  qed
  then show ?thesis using assms unfolding members_grow_def by blast
qed

lemma grows_trans:
  assumes "grows sc A s s'" and "grows sc B s' s''"
  shows "grows sc (A \<union> B) s s''"
proof -
  have "\<exists>mm. ss_scopes s'' sc = Some (scope\<lparr>scope_members := mm\<rparr>) \<and> members_grow (A \<union> B) (scope_members scope) mm"
    if sc: "ss_scopes s sc = Some scope" for scope
  proof -
    obtain m' where m': "ss_scopes s' sc = Some (scope\<lparr>scope_members := m'\<rparr>)" "members_grow A (scope_members scope) m'"
      using assms(1) sc unfolding grows_def by blast
    then obtain m'' where "ss_scopes s'' sc = Some (scope\<lparr>scope_members := m''\<rparr>)" "members_grow B m' m''"
      using assms(2) unfolding grows_def by fastforce
    then show ?thesis using members_grow_trans [OF m'(2)] by blast
  qed
  moreover have "\<exists>z. st_vars s'' v = Some z \<and> static z = static x" if v: "st_vars s v = Some x" for v x
    using assms v unfolding grows_def by metis
  ultimately show ?thesis using assms unfolding grows_def by simp
qed

lemma grows_mono: "grows sc A s s' \<Longrightarrow> A \<subseteq> B \<Longrightarrow> grows sc B s s'"
  unfolding grows_def members_grow_def by (meson subsetD)

lemma grows_scope:
  assumes "grows sc A s s'" and "ss_scopes s sc = Some scope"
  obtains mm where "ss_scopes s' sc = Some (scope\<lparr>scope_members := mm\<rparr>)" and "members_grow A (scope_members scope) mm"
  using assms unfolding grows_def by blast

lemma grows_var:
  assumes "grows sc A s s'" and "st_vars s v = Some x"
  obtains y where "st_vars s' v = Some y" and "static y = static x"
  using assms unfolding grows_def by blast

section \<open>Adding one variable\<close>

definition fitting :: "('x, 'd, 'r, 'z) ss \<Rightarrow> ('x, 'd) var_t \<Rightarrow> bool" where
  "fitting s x \<longleftrightarrow> slot_wf (var_level x) (var_slot x) \<and> var_level x = placeholders (var_name x) \<and> var_n_clients x = []
     \<and> (case var_n x of None \<Rightarrow> var_level x = 0 | Some b \<Rightarrow> \<exists>y. st_vars s b = Some y \<and> var_level x = Suc (var_level y))"

lemma fresh_var: "vars_ok s \<Longrightarrow> st_vars s (ss_next_var s) = None"
  using vars_okD(2) by (metis less_irrefl not_None_eq)

lemma new_var_apply [simp]:
  "new_var x s = Done (ss_next_var s) (s\<lparr>st_vars := (st_vars s)(ss_next_var s \<mapsto> x), ss_next_var := ss_next_var s + 1\<rparr>)"
  by (simp add: new_var_def)

lemma register_ok:
  assumes ok: "vars_ok s" and fit: "fitting s x"
  obtains vs where "(case var_n x of Some b \<Rightarrow> var_register_client b (ss_next_var s) | None \<Rightarrow> ret ())
      (s\<lparr>st_vars := (st_vars s)(ss_next_var s \<mapsto> x), ss_next_var := ss_next_var s + 1\<rparr>)
      = Done () (s\<lparr>st_vars := vs, ss_next_var := ss_next_var s + 1\<rparr>)"
    and "same_but_caches (link_var (ss_next_var s) x (st_vars s)) vs"
proof -
  let ?v = "ss_next_var s" and ?l = "link_var (ss_next_var s) x (st_vars s)"
  let ?s = "s\<lparr>ss_next_var := ss_next_var s + 1, st_vars := ?l\<rparr>"
  show thesis
  proof (cases "var_n x")
    case None
    then show thesis by (intro that [of ?l]) (simp_all add: link_var_def same_but_caches_def)
  next
    case (Some b)
    obtain y where y: "st_vars s b = Some y" using fit Some by (auto simp: fitting_def)
    have bv: "b \<noteq> ?v" using y fresh_var [OF ok] by auto
    have l: "?l = (st_vars s)(?v \<mapsto> x, b \<mapsto> y\<lparr>var_n_clients := var_n_clients y @ [?v]\<rparr>)"
      using Some y by (simp add: link_var_def)
    have "bounds_exist ?l"
      using fit fresh_var [OF ok] vars_okD(3) [OF ok]
      by (intro vars_linked_bounds link_var_linked) (auto simp: fitting_def)
    then have b: "bounds_exist (st_vars ?s)" "st_vars ?s b = Some (y\<lparr>var_n_clients := var_n_clients y @ [?v]\<rparr>)"
      using l by simp_all
    obtain vs where vs: "var_invalidate_condition b ?s = Done () (?s\<lparr>st_vars := vs\<rparr>)" "same_but_caches (st_vars ?s) vs"
      using invalidate_condition_ok [OF b] by blast
    show thesis
      by (rule that [of vs]) (use vs Some y bv in \<open>simp_all add: var_register_client_def l\<close>)
  qed
qed

lemma vars_ok_add:
  assumes ok: "vars_ok s" and fit: "fitting s x" and vs: "same_but_caches (link_var (ss_next_var s) x (st_vars s)) vs"
    and sc: "ss_scopes s sc = Some scope" "var_scope x = sc" and mm: "name_map_ok mm"
      "hashmap_get mm = (\<lambda>k. if strcasecmp_eq k (var_name x) then Some (var_name x, Member_variable (ss_next_var s)) else hashmap_get (scope_members scope) k)"
    and new: "name_get (scope_members scope) (var_name x) = None"
    and s': "s' = s\<lparr>st_vars := vs, ss_next_var := ss_next_var s + 1, ss_scopes := (ss_scopes s)(sc \<mapsto> scope\<lparr>scope_members := mm\<rparr>)\<rparr>"
  shows "vars_ok s'" and "grows sc {var_name x} s s'" and "\<exists>y. st_vars s' (ss_next_var s) = Some y \<and> uncached y = uncached x"
proof -
  let ?v = "ss_next_var s" and ?l = "link_var (ss_next_var s) x (st_vars s)"
  note fresh = fresh_var [OF ok]
  have lv: "?l ?v = Some x" using fresh fit by (auto simp: link_var_def fitting_def split: option.splits)
  then show v: "\<exists>y. st_vars s' ?v = Some y \<and> uncached y = uncached x"
    using same_but_caches_Some [OF vs lv] s' by auto
  have old: "\<exists>y. st_vars s' w = Some y \<and> static y = static z" if w: "st_vars s w = Some z" for w z
  proof -
    have "w \<noteq> ?v" using w fresh by auto
    then obtain cs where cs: "?l w = Some (z\<lparr>var_n_clients := var_n_clients z @ cs\<rparr>)" using link_var_old [of "st_vars s" w z ?v x] w by blast
    obtain y where "vs w = Some y" "uncached y = uncached (z\<lparr>var_n_clients := var_n_clients z @ cs\<rparr>)"
      using same_but_caches_Some [OF vs cs] by blast
    then show ?thesis using s' static_uncached [of y "z\<lparr>var_n_clients := var_n_clients z @ cs\<rparr>"] by (auto simp: static_def)
  qed
  have absent: "hashmap_get (scope_members scope) k = None" if "strcasecmp_eq k (var_name x)" for k
    using new name_map_cong [OF scopes_okD(2) [OF vars_okD(1) [OF ok] sc(1)] that] by (simp add: name_get_def)
  have "members_grow {var_name x} (scope_members scope) mm"
    using absent unfolding members_grow_def mm(2) by (auto split: if_splits)
  moreover have "known_bound_type s' = known_bound_type s"
    by (rule known_bound_type_cong) (simp_all add: s')
  ultimately show "grows sc {var_name x} s s'"
    using sc(1) old unfolding grows_def by (simp add: s' frame_def) blast
  have scopes: "scopes_ok s'"
    by (rule scopes_ok_cong [OF _ _ scopes_ok_members [OF vars_okD(1) [OF ok] sc(1) mm(1)]]) (simp_all add: s')
  have linked: "w < ss_next_var s' \<and> var_linked (st_vars s') w y" if w: "st_vars s' w = Some y" for w y
  proof -
    have "vs w = Some y" using w s' by simp
    then obtain z where z: "?l w = Some z" "uncached z = uncached y"
      using same_but_caches_Some [OF same_but_caches_sym [OF vs]] by blast
    have "var_linked ?l w z"
      using fit fresh vars_okD(3) [OF ok] z(1) by (intro link_var_linked) (auto simp: fitting_def)
    then have "var_linked vs w y" by (rule var_linked_same [OF _ vs z(2) [symmetric]])
    moreover have "w < Suc ?v"
      using z(1) vars_okD(2) [OF ok, of w] fit by (cases "w = ?v") (auto simp: link_var_def fitting_def less_Suc_eq split: option.splits if_splits)
    ultimately show ?thesis using s' by simp
  qed
  have members: "\<exists>y. st_vars s' w = Some y \<and> var_name y = nm \<and> var_scope y = sc'"
    if m: "ss_scopes s' sc' = Some scope'" "hashmap_get (scope_members scope') k = Some (nm, Member_variable w)" for sc' scope' k nm w
  proof (cases "sc' = sc \<and> strcasecmp_eq k (var_name x)")
    case True
    then have "nm = var_name x" "w = ?v" using m s' mm(2) by auto
    then show ?thesis using v True sc(2) uncached_same(1,5) by metis
  next
    case False
    then have "\<exists>scope0. ss_scopes s sc' = Some scope0 \<and> hashmap_get (scope_members scope0) k = Some (nm, Member_variable w)"
      using m s' mm(2) sc(1) by (auto split: if_splits)
    then obtain z where "st_vars s w = Some z" "var_name z = nm" "var_scope z = sc'" using vars_okD(4) [OF ok] by blast
    then show ?thesis using old static_same(1,3) by metis
  qed
  show "vars_ok s'" using scopes linked members unfolding vars_ok_def by blast
qed

definition own_member :: "('x, 'd, 'r, 'z) ss \<Rightarrow> scope_id \<Rightarrow> c_string \<Rightarrow> scope_member option" where
  "own_member s sc nm = Option.bind (ss_scopes s sc) (\<lambda>scope. name_get (scope_members scope) nm)"

definition made_var ::
  "c_string \<Rightarrow> location_t \<Rightarrow> vartype_id \<Rightarrow> scope_id \<Rightarrow> var_id option \<Rightarrow> var_priority_t \<Rightarrow> 'd var_properties_t \<Rightarrow> ('x, 'd) var_t" where
  "made_var name l type sc b priority props =
     (let level = (case b of None \<Rightarrow> 0 | Some _ \<Rightarrow> placeholders name) in
      \<lparr>var_name = name, var_location = l, var_template = None, var_type = type, var_scope = sc, var_level = level,
       var_n = b, var_n_clients = [], var_slot = var_slot_init 0 level, var_priority = priority, var_props = props,
       var_condition = None, var_cond_valid = False, var_def_value = None\<rparr>)"

lemma made_var_simps [simp]:
  "var_name (made_var name l type sc b p props) = name" "var_type (made_var name l type sc b p props) = type"
  "var_scope (made_var name l type sc b p props) = sc" "var_n (made_var name l type sc b p props) = b"
  "var_priority (made_var name l type sc b p props) = p" "var_props (made_var name l type sc b p props) = props"
  "var_level (made_var name l type sc b p props) = (case b of None \<Rightarrow> 0 | Some _ \<Rightarrow> placeholders name)"
  "var_n_clients (made_var name l type sc b p props) = []"
  "var_location (made_var name l type sc b p props) = l" "var_template (made_var name l type sc b p props) = None"
  "var_condition (made_var name l type sc b p props) = None" "var_cond_valid (made_var name l type sc b p props) = False"
  "var_def_value (made_var name l type sc b p props) = None"
  by (simp_all add: made_var_def Let_def)

lemma made_var_fitting:
  assumes "case b of None \<Rightarrow> placeholders name = 0 | Some b \<Rightarrow> \<exists>y. st_vars s b = Some y \<and> placeholders name = Suc (var_level y)"
  shows "fitting s (made_var name l type sc b p props)"
proof -
  have "slot_wf (var_level x) (var_slot x)" if "x = made_var name l type sc b p props" for x
    using slot_wf_init [of 0 "var_level x"] that by (simp add: made_var_def Let_def)
  then show ?thesis using assms by (auto simp: fitting_def split: option.splits)
qed

lemma var_create_found:
  "var_find_array_bound R E add sc name explicit p l props s0 = Done (Some b) s \<Longrightarrow>
   var_create R E add sc name explicit type p l props s0 =
     andthen (new_var (made_var name l type sc b p props)) (\<lambda>v.
     andthen (case b of Some b \<Rightarrow> var_register_client b v | None \<Rightarrow> ret ()) (\<lambda>_.
     andthen (var_scope_add_var R E sc v) (\<lambda>var_added.
       case var_added of None \<Rightarrow> andthen (var_destroy v) (\<lambda>_. ret None) | Some a \<Rightarrow> ret (Some a)))) s"
  by (simp add: var_create_def made_var_def Let_def)

lemma var_create_not_found:
  "var_find_array_bound R E add sc name explicit p l props s = Done None s' \<Longrightarrow>
   var_create R E add sc name explicit type p l props s = Done None s'"
  by (simp add: var_create_def andthen_def)

lemma scope_add_var_absent:
  assumes v: "st_vars s v = Some x" and ok: "scopes_ok s" and sc: "ss_scopes s sc = Some scope"
    and new: "name_get (scope_members scope) (var_name x) = None"
    and add: "var_scope_add_member sc (var_name x) (Member_variable v) s = Done None s'"
  shows "var_scope_add_var R E sc v s = Done (Some v) s'"
  using v new add by (simp add: var_scope_add_var_def var_scope_do_try_get_def try_get_member_own [OF ok sc])

text \<open>Once the bound is found, the variable is entered.\<close>

lemma var_create_fresh:
  assumes ok: "vars_ok s" and sc: "ss_scopes s sc = Some scope" and new: "name_get (scope_members scope) name = None"
    and found: "var_find_array_bound R E add sc name explicit p l props s0 = Done (Some b) s"
    and b: "case b of None \<Rightarrow> placeholders name = 0 | Some b \<Rightarrow> \<exists>y. st_vars s b = Some y \<and> placeholders name = Suc (var_level y)"
  obtains s' x where "var_create R E add sc name explicit type p l props s0 = Done (Some (ss_next_var s)) s'"
    and "vars_ok s'" and "grows sc {name} s s'" and "st_vars s' (ss_next_var s) = Some x"
    and "uncached x = uncached (made_var name l type sc b p props)"
    and "own_member s' sc name = Some (Member_variable (ss_next_var s))"
proof -
  let ?x = "made_var name l type sc b p props" and ?v = "ss_next_var s"
  note fit = made_var_fitting [OF b, of l type sc p props]
  obtain vs where reg: "(case b of Some b \<Rightarrow> var_register_client b ?v | None \<Rightarrow> ret ())
      (s\<lparr>st_vars := (st_vars s)(?v \<mapsto> ?x), ss_next_var := ?v + 1\<rparr>) = Done () (s\<lparr>st_vars := vs, ss_next_var := ?v + 1\<rparr>)"
    and vs: "same_but_caches (link_var ?v ?x (st_vars s)) vs"
    using register_ok [OF ok fit] by auto
  let ?s = "s\<lparr>st_vars := vs, ss_next_var := ?v + 1\<rparr>"
  have scopes: "scopes_ok ?s" "ss_scopes ?s sc = Some scope"
    using vars_okD(1) [OF ok] sc by (simp_all add: scopes_ok_def)
  obtain mm where mm: "var_scope_add_member sc name (Member_variable ?v) ?s
        = Done None (?s\<lparr>ss_scopes := (ss_scopes ?s)(sc \<mapsto> scope\<lparr>scope_members := mm\<rparr>)\<rparr>)" "name_map_ok mm"
      "hashmap_get mm = (\<lambda>k. if strcasecmp_eq k name then Some (name, Member_variable ?v) else hashmap_get (scope_members scope) k)"
    using add_member_absent [OF scopes new] by blast
  define s' where "s' = s\<lparr>st_vars := vs, ss_next_var := ?v + 1, ss_scopes := (ss_scopes s)(sc \<mapsto> scope\<lparr>scope_members := mm\<rparr>)\<rparr>"
  have mm': "hashmap_get mm = (\<lambda>k. if strcasecmp_eq k (var_name ?x) then Some (var_name ?x, Member_variable ?v)
      else hashmap_get (scope_members scope) k)" and new': "name_get (scope_members scope) (var_name ?x) = None"
    and sc': "var_scope ?x = sc"
    using mm(3) new by (simp_all add: fun_eq_iff)
  note added = vars_ok_add [OF ok fit vs sc sc' mm(2) mm' new' s'_def, unfolded made_var_simps]
  obtain x where x: "st_vars s' ?v = Some x" "uncached x = uncached ?x" using added(3) by blast
  then have name: "st_vars ?s ?v = Some x" "var_name x = name" using uncached_same(1) [OF x(2)] by (simp_all add: s'_def)
  have add: "var_scope_add_var R E sc ?v ?s = Done (Some ?v) s'"
    using scope_add_var_absent [OF name(1) scopes, of s' R E] name(2) new mm(1) by (simp add: s'_def)
  show ?thesis
  proof (rule that [OF _ added(1,2) x])
    show "var_create R E add sc name explicit type p l props s0 = Done (Some ?v) s'"
      using reg add by (simp add: var_create_found [OF found])
    show "own_member s' sc name = Some (Member_variable ?v)"
      using mm(3) by (simp add: s'_def own_member_def name_get_def)
  qed
qed

section \<open>Adding an array with its bounds\<close>

definition name_valid :: "'r regex_lib \<Rightarrow> ('x, 'd, 'r, 'z) ss \<Rightarrow> c_string \<Rightarrow> bool" where
  "name_valid R s nm \<longleftrightarrow> (\<exists>t ty cs. var_varname_type s = Some t \<and> ts_types s t = Some ty \<and> compiled_state ty = Some cs
     \<and> regexec R (cs_regex cs) nm 0 \<noteq> None)"

definition no_template_for :: "'r regex_lib \<Rightarrow> ('x, 'd, 'r, 'z) ss \<Rightarrow> scope_id \<Rightarrow> c_string \<Rightarrow> bool" where
  "no_template_for R s sc nm \<longleftrightarrow> (\<forall>scope k nm' t. ss_scopes s sc = Some scope \<longrightarrow>
     hashmap_get (scope_members scope) k = Some (nm', Member_template t) \<longrightarrow>
     (\<exists>tmpl. ss_templates s t = Some tmpl \<and> regexec R (tmpl_regex tmpl) nm 0 = None))"

text \<open>What is already there under the name of a bound can serve as one.\<close>

definition bound_fits :: "('x, 'd, 'r, 'z) ss \<Rightarrow> scope_id \<Rightarrow> var_priority_t \<Rightarrow> c_string \<Rightarrow> bool" where
  "bound_fits s sc p nm \<longleftrightarrow> (\<forall>m. own_member s sc nm = Some m \<longrightarrow>
     (\<exists>b y. m = Member_variable b \<and> st_vars s b = Some y \<and> known_bound_type s = Some (var_type y) \<and> var_priority y = p
        \<and> \<not> prop_optional (var_props y)))"

lemma visit_all:
  "(\<And>e. e \<in> set es \<Longrightarrow> visitor e s = Done True s) \<Longrightarrow> visit_until_false visitor es s = Done True s"
  by (induction es) (simp_all add: andthen_def)

lemma templates_pass:
  assumes ok: "scopes_ok s" and sc: "ss_scopes s sc = Some scope" and none: "no_template_for R s sc nm"
  shows "hashmap_foreach (scope_members scope)
      (\<lambda>e. var_scope_template_visitor (var_template_try_deduce_instantiation R E add nm) (snd e)) (s, None) = Done True (s, None)"
proof -
  have live: "hashmap_inv (scope_members scope)" "cmp (scope_members scope) = compare_ci_string_keys" "key_of (scope_members scope) = fst"
    using scopes_okD(2) [OF ok sc] by (simp_all add: name_map_ok_def hashmap_live_def)
  have "var_scope_template_visitor (var_template_try_deduce_instantiation R E add nm) (snd e) (s, None) = Done True (s, None)"
    if e: "e \<in> set (hm_list (scope_members scope))" for e
  proof (cases "snd e")
    case (Member_template t)
    have "hashmap_get (scope_members scope) (fst e) = Some e"
      using hashmap_get_iff [OF live(1), of "fst e" e] e live(2,3) by (simp add: compare_ci_string_keys_def)
    then obtain tmpl where "ss_templates s t = Some tmpl" "regexec R (tmpl_regex tmpl) nm 0 = None"
      using none sc Member_template unfolding no_template_for_def by (metis prod.collapse)
    then show ?thesis using Member_template
      by (simp add: var_scope_template_visitor_def var_template_try_deduce_instantiation_def get_template_def)
  qed (simp add: var_scope_template_visitor_def)
  then show ?thesis unfolding hashmap_foreach_visit by (rule visit_all)
qed

lemma instantiate_none:
  assumes ok: "scopes_ok s" and sc: "ss_scopes s sc = Some scope" and none: "no_template_for R s sc nm"
  shows "var_template_instantiate_from_string R E add sc nm False s = Done None s"
proof -
  obtain n where n: "ss_next_scope s = Suc n" using scopes_okD(1) [OF ok sc] by (cases "ss_next_scope s") auto
  then show ?thesis
    using sc templates_pass [OF ok sc none, of E add]
    by (simp add: var_template_instantiate_from_string_def var_scope_foreach_template_def var_scope_foreach_member_def
        split: option.splits)
qed

text \<open>The same for the search in the enclosing scopes.\<close>

lemma scope_foreach_pass:
  assumes "scopes_ok s" and "ss_scopes s sc \<noteq> None" and "\<forall>sc'. no_template_for R s sc' nm" and "sc < n"
  shows "scope_foreach fst n sc True (var_scope_template_visitor (var_template_try_deduce_instantiation R E add nm)) (s, None)
    = Done True (s, None)"
  using assms(2,4)
proof (induction n arbitrary: sc)
  case (Suc n)
  then obtain scope where scope: "ss_scopes s sc = Some scope" by auto
  have "ss_scopes s p \<noteq> None" "p < n" if "scope_parent scope = Some p" for p
    using scopes_okD(3,4) [OF assms(1) scope that] Suc.prems(2) by auto
  then show ?case using Suc.IH templates_pass [OF assms(1) scope, of R nm E add] assms(3) scope
    by (cases "scope_parent scope") simp_all
qed simp

lemma instantiate_none_enclosing:
  assumes "scopes_ok s" and "ss_scopes s sc \<noteq> None" and "\<forall>sc'. no_template_for R s sc' nm"
  shows "var_template_instantiate_from_string R E add sc nm True s = Done None s"
proof -
  have "sc < ss_next_scope s" using assms(1,2) scopes_okD(1) by blast
  from scope_foreach_pass [OF assms this, of E add] show ?thesis
    by (simp add: var_template_instantiate_from_string_def var_scope_foreach_template_def var_scope_foreach_member_def)
qed

lemma try_get_visible:
  assumes "scopes_ok s" and "ss_scopes s sc \<noteq> None"
  shows "visible s nm sc (Member_variable v) \<Longrightarrow> var_scope_try_get n k R E sc nm True s = Done (Some v) s"
    and "(\<And>m. \<not> visible s nm sc m) \<Longrightarrow> \<forall>sc'. no_template_for R s sc' nm \<Longrightarrow> var_scope_try_get n k R E sc nm True s = Done None s"
proof -
  obtain r where r: "var_scope_try_get_member sc nm True s = Done r s" "\<forall>m. r = Some m \<longleftrightarrow> visible s nm sc m"
    using try_get_member_spec [OF assms] by blast
  have "r = Some (Member_variable v)" if "visible s nm sc (Member_variable v)" using r(2) that by blast
  then show "visible s nm sc (Member_variable v) \<Longrightarrow> var_scope_try_get n k R E sc nm True s = Done (Some v) s"
    using r(1) by (simp add: var_scope_try_get_def var_scope_do_try_get_def)
  assume no: "\<And>m. \<not> visible s nm sc m" "\<forall>sc'. no_template_for R s sc' nm"
  then have "r = None" using r(2) by (cases r) auto
  then show "var_scope_try_get n k R E sc nm True s = Done None s"
    using r(1) instantiate_none_enclosing [OF assms no(2)] by (simp add: var_scope_try_get_def var_scope_do_try_get_def)
qed

lemma bound_type_known:
  "known_bound_type s = Some t \<Longrightarrow> var_get_array_bound_type s = Done t (s\<lparr>var_array_bound_type := Some t\<rparr>)"
  by (auto simp: known_bound_type_def var_get_array_bound_type_def Let_def split: option.splits)

lemma vars_ok_cache [simp]: "vars_ok (s\<lparr>var_array_bound_type := t\<rparr>) = vars_ok s"
  by (simp add: vars_ok_def scopes_ok_def)

lemma grows_cache: "known_bound_type s = Some t \<Longrightarrow> grows sc {} s (s\<lparr>var_array_bound_type := Some t\<rparr>)"
proof -
  assume "known_bound_type s = Some t"
  then have "known_bound_type (s\<lparr>var_array_bound_type := Some t\<rparr>) = known_bound_type s" by (simp add: known_bound_type_def)
  moreover have "\<exists>mm. scope = scope\<lparr>scope_members := mm\<rparr> \<and> members_grow {} (scope_members scope) mm" for scope
    by (rule exI [of _ "scope_members scope"]) simp
  ultimately show ?thesis by (simp add: grows_def frame_def) blast
qed

lemma varname_match:
  assumes "name_valid R s nm"
  obtains t where "var_varname_type s = Some t" and "vartype_match R k E t nm s = Done True s"
  using assms that by (auto simp: name_valid_def vartype_match_def compiled_of_def)

lemma name_valid_grows: "grows sc A s s' \<Longrightarrow> name_valid R s' nm = name_valid R s nm"
  by (simp add: name_valid_def frame_same(1) [of s' s] frame_same(5) [of s' s] grows_def)

lemma own_memberE:
  assumes "vars_ok s" and "own_member s sc nm = Some (Member_variable b)"
  obtains scope nm' y where "ss_scopes s sc = Some scope" and "hashmap_get (scope_members scope) nm = Some (nm', Member_variable b)"
    and "st_vars s b = Some y" and "var_name y = nm'"
proof -
  obtain scope nm' where sc: "ss_scopes s sc = Some scope" "hashmap_get (scope_members scope) nm = Some (nm', Member_variable b)"
    using assms(2) by (auto simp: own_member_def name_get_def bind_eq_Some_conv)
  then show ?thesis using vars_okD(4) [OF assms(1) sc] that by blast
qed

lemma no_template_cache [simp]: "no_template_for R (s\<lparr>var_array_bound_type := t\<rparr>) sc nm = no_template_for R s sc nm"
  by (simp add: no_template_for_def)

lemma own_member_cache [simp]: "own_member (s\<lparr>var_array_bound_type := t\<rparr>) sc nm = own_member s sc nm"
  by (simp add: own_member_def)

lemma name_valid_cache [simp]: "name_valid R (s\<lparr>var_array_bound_type := t\<rparr>) nm = name_valid R s nm"
  by (simp add: name_valid_def)

lemma known_cache [simp]: "known_bound_type (s\<lparr>var_array_bound_type := Some t\<rparr>) = Some t"
  by (simp add: known_bound_type_def)

lemma bound_fits_cache:
  "known_bound_type s = Some t \<Longrightarrow> bound_fits (s\<lparr>var_array_bound_type := Some t\<rparr>) sc p nm = bound_fits s sc p nm"
  by (simp add: bound_fits_def)

lemma do_try_get_own:
  assumes "scopes_ok s" and "ss_scopes s sc = Some scope" and "own_member s sc nm = None \<longrightarrow> no_template_for R s sc nm"
  shows "var_scope_do_try_get R E add sc nm False True s
    = Done (case own_member s sc nm of Some (Member_variable v) \<Rightarrow> Some v | _ \<Rightarrow> None) s"
  using assms instantiate_none [OF assms(1,2), of R nm E add]
  by (auto simp: var_scope_do_try_get_def try_get_member_own own_member_def split: option.splits scope_member.splits)

lemma member_level:
  assumes "vars_ok s" and "own_member s sc nm = Some (Member_variable b)" and "st_vars s b = Some y"
  shows "var_level y = placeholders nm"
proof -
  obtain scope nm' y' where sc: "ss_scopes s sc = Some scope" "hashmap_get (scope_members scope) nm = Some (nm', Member_variable b)"
    and "st_vars s b = Some y'" "var_name y' = nm'"
    using own_memberE [OF assms(1,2)] by blast
  then have "var_name y = nm'" using assms(3) by simp
  moreover have "strcasecmp_eq nm nm'" using name_map_key [OF scopes_okD(2) [OF vars_okD(1) [OF assms(1)] sc(1)] sc(2)] .
  ultimately show ?thesis
    using var_linkedD(2) [OF vars_okD(3) [OF assms(1,3)]] strcasecmp_placeholders by metis
qed

lemma own_member_grows:
  assumes g: "grows sc A s s'" and m: "own_member s sc nm = Some m"
  shows "own_member s' sc nm = Some m"
proof -
  obtain scope where sc: "ss_scopes s sc = Some scope" "name_get (scope_members scope) nm = Some m"
    using m by (auto simp: own_member_def bind_eq_Some_conv)
  obtain mm where mm: "ss_scopes s' sc = Some (scope\<lparr>scope_members := mm\<rparr>)" "members_grow A (scope_members scope) mm"
    using grows_scope [OF g sc(1)] by blast
  then have "name_get mm nm = Some m" using sc(2) unfolding name_get_def members_grow_def by auto
  then show ?thesis using mm(1) by (simp add: own_member_def)
qed

lemma clone_location: "on_packages (location_clone l) s = Done l s"
  by (simp add: on_packages_def location_clone_def location_create_def zoom_def)

text \<open>The bound is found or made by the nested call.\<close>

lemma find_array_bound_ok:
  assumes ok: "vars_ok s" and sc: "ss_scopes s sc = Some scope" and bn: "array_bound_name name = Some bn"
    and fits: "bound_fits s sc p bn" and tmpl: "no_template_for R s sc bn" and bt: "known_bound_type s = Some bt"
    and add: "own_member s sc bn = None \<Longrightarrow>
      \<exists>b s'. add sc bn bt p l (array_bound_properties E) (s\<lparr>var_array_bound_type := Some bt\<rparr>) = Done (Some b) s'
        \<and> vars_ok s' \<and> grows sc (set (bn # bound_names bn)) (s\<lparr>var_array_bound_type := Some bt\<rparr>) s'
        \<and> own_member s' sc bn = Some (Member_variable b)"
  obtains b s' where "var_find_array_bound R E add sc name None p l props s = Done (Some (Some b)) s'"
    and "vars_ok s'" and "grows sc (set (bound_names name)) s s'" and "own_member s' sc bn = Some (Member_variable b)"
proof (cases "own_member s sc bn")
  case (Some m)
  then obtain b y where b: "m = Member_variable b" "st_vars s b = Some y" "known_bound_type s = Some (var_type y)" "var_priority y = p"
    "\<not> prop_optional (var_props y)"
    using fits unfolding bound_fits_def by blast
  have "var_find_array_bound R E add sc name None p l props s = Done (Some (Some b)) (s\<lparr>var_array_bound_type := Some bt\<rparr>)"
    using b Some bt bn
    by (simp add: var_find_array_bound_def var_get_or_add_array_bound_def do_try_get_own [OF vars_okD(1) [OF ok] sc]
        var_check_array_bound_def bound_type_known [OF bt])
  then show ?thesis
    using that [of b "s\<lparr>var_array_bound_type := Some bt\<rparr>"] ok Some b(1) grows_mono [OF grows_cache [OF bt]] by simp
next
  case None
  then obtain b s' where s': "add sc bn bt p l (array_bound_properties E) (s\<lparr>var_array_bound_type := Some bt\<rparr>) = Done (Some b) s'"
    "vars_ok s'" "grows sc (set (bn # bound_names bn)) (s\<lparr>var_array_bound_type := Some bt\<rparr>) s'"
    "own_member s' sc bn = Some (Member_variable b)"
    using add by blast
  obtain y where "st_vars s' b = Some y" using own_memberE [OF s'(2,4)] by blast
  moreover have "var_scope_do_try_get R E add sc bn False True s = Done None s"
    using do_try_get_own [OF vars_okD(1) [OF ok] sc, of bn R E add] tmpl None by simp
  then have "var_get_or_add_array_bound R E add sc bn props p l s = Done (Some b, True) s'"
    using s'(1) by (simp add: var_get_or_add_array_bound_def clone_location bound_type_known [OF bt])
  ultimately have "var_find_array_bound R E add sc name None p l props s = Done (Some (Some b)) s'"
    using bn by (simp add: var_find_array_bound_def)
  moreover have "grows sc (set (bound_names name)) s s'"
    using grows_trans [OF grows_cache [OF bt] s'(3)] bn by (simp add: bound_names_simps)
  ultimately show ?thesis using that s'(2,4) by blast
qed

lemma var_add_ok:
  assumes "vars_ok s" and "ss_scopes s sc = Some scope" and "own_member s sc name = None"
    and "\<forall>nm\<in>set (name # bound_names name). name_valid R s nm"
    and "\<forall>nm\<in>set (bound_names name). no_template_for R s sc nm \<and> bound_fits s sc p nm"
    and "known_bound_type s = Some bt" and "placeholders name < n"
  shows "\<exists>v s' x b. var_add_with_array_bound n k R E sc name None type p l props s = Done (Some v) s'
    \<and> vars_ok s' \<and> grows sc (set (name # bound_names name)) s s' \<and> st_vars s v = None
    \<and> own_member s' sc name = Some (Member_variable v) \<and> st_vars s' v = Some x
    \<and> uncached x = uncached (made_var name l type sc b p props)
    \<and> (case array_bound_name name of None \<Rightarrow> b = None
        | Some bn \<Rightarrow> \<exists>w. b = Some w \<and> own_member s' sc bn = Some (Member_variable w))"
  using assms
proof (induction n arbitrary: s scope name type l props)
  case (Suc n)
  let ?add = "\<lambda>sc name. var_add_with_array_bound n k R E sc name None"
  obtain t where t: "var_varname_type s = Some t" "vartype_match R k E t name s = Done True s"
    using varname_match [of R s name] Suc.prems(4) by auto
  have unfold: "var_add_with_array_bound (Suc n) k R E sc name None type p l props s
      = var_create R E ?add sc name None type p l props s"
    using t by (simp add: var_properties_check_def)
  have new: "name_get (scope_members scope) name = None" using Suc.prems(2,3) by (simp add: own_member_def)
  show ?case
  proof (cases "array_bound_name name")
    case None
    then have "var_find_array_bound R E ?add sc name None p l props s = Done (Some None) s"
      by (simp add: var_find_array_bound_def)
    moreover have "case None of None \<Rightarrow> placeholders name = 0 | Some b \<Rightarrow> \<exists>y. st_vars s b = Some y \<and> placeholders name = Suc (var_level y)"
      using None array_bound_name_count(2) [of name] by simp
    ultimately obtain s' x where s':
      "var_create R E ?add sc name None type p l props s = Done (Some (ss_next_var s)) s'" "vars_ok s'" "grows sc {name} s s'"
      "st_vars s' (ss_next_var s) = Some x" "uncached x = uncached (made_var name l type sc None p props)"
      "own_member s' sc name = Some (Member_variable (ss_next_var s))"
      using var_create_fresh [OF Suc.prems(1,2) new] by blast
    then show ?thesis
      using unfold None fresh_var [OF Suc.prems(1)] by (auto simp: bound_names_simps)
  next
    case (Some bn)
    let ?s = "s\<lparr>var_array_bound_type := Some bt\<rparr>"
    have names: "set (bound_names name) = insert bn (set (bound_names bn))" using Some by (simp add: bound_names_simps)
    have count: "placeholders name = Suc (placeholders bn)" using array_bound_name_count(1) [OF Some] .
    have nested: "\<exists>b s'. ?add sc bn bt p l (array_bound_properties E) ?s = Done (Some b) s' \<and> vars_ok s'
        \<and> grows sc (set (bn # bound_names bn)) ?s s' \<and> own_member s' sc bn = Some (Member_variable b)"
      if "own_member s sc bn = None"
      using Suc.IH [of ?s scope bn bt l "array_bound_properties E"] Suc.prems that count names
      by (auto simp: bound_fits_cache)
    have bn: "bound_fits s sc p bn" "no_template_for R s sc bn" using Suc.prems(5) names by auto
    obtain b s1 where s1: "var_find_array_bound R E ?add sc name None p l props s = Done (Some (Some b)) s1"
      "vars_ok s1" "grows sc (set (bound_names name)) s s1" "own_member s1 sc bn = Some (Member_variable b)"
      by (rule find_array_bound_ok [where add = ?add, OF Suc.prems(1,2) Some bn Suc.prems(6) nested])
    obtain y where y: "st_vars s1 b = Some y" using own_memberE [OF s1(2,4)] by blast
    obtain mm where mm: "ss_scopes s1 sc = Some (scope\<lparr>scope_members := mm\<rparr>)" "members_grow (set (bound_names name)) (scope_members scope) mm"
      using grows_scope [OF s1(3) Suc.prems(2)] by blast
    have "hashmap_get mm name = None"
    proof (rule ccontr)
      assume "hashmap_get mm name \<noteq> None"
      moreover have "hashmap_get (scope_members scope) name = None" using new by (simp add: name_get_def)
      ultimately obtain nm where nm: "nm \<in> set (bound_names name)" "strcasecmp_eq name nm"
        using mm(2) unfolding members_grow_def by blast
      then show False using bound_names_fewer [OF nm(1)] strcasecmp_placeholders [OF nm(2)] by simp
    qed
    then have new1: "name_get (scope_members (scope\<lparr>scope_members := mm\<rparr>)) name = None" by (simp add: name_get_def)
    have "case Some b of None \<Rightarrow> placeholders name = 0 | Some b \<Rightarrow> \<exists>y. st_vars s1 b = Some y \<and> placeholders name = Suc (var_level y)"
      using y member_level [OF s1(2,4) y] count by simp
    then obtain s' x where s':
      "var_create R E ?add sc name None type p l props s = Done (Some (ss_next_var s1)) s'" "vars_ok s'" "grows sc {name} s1 s'"
      "st_vars s' (ss_next_var s1) = Some x" "uncached x = uncached (made_var name l type sc (Some b) p props)"
      "own_member s' sc name = Some (Member_variable (ss_next_var s1))"
      using var_create_fresh [OF s1(2) mm(1) new1 s1(1)] by blast
    have "st_vars s (ss_next_var s1) = None"
      using grows_var [OF s1(3), of "ss_next_var s1"] fresh_var [OF s1(2)] by (metis not_None_eq)
    moreover have "own_member s' sc bn = Some (Member_variable b)"
      by (rule own_member_grows [OF s'(3) s1(4)])
    moreover have "grows sc (set (name # bound_names name)) s s'"
      using grows_trans [OF s1(3) s'(3)] by simp
    ultimately show ?thesis using s' unfold Some by auto
  qed
qed simp

text \<open>C5: adding a variable whose name is free in its scope, whose name and bounds have valid names, and whose bounds are
  missing or fit, comes back with a new variable within one nested call more than the name has placeholders. The
  variable is found under its name and has the properties of the call; if it is an array, the variable found
  under the name of its bound is its bound and knows it. The variables stay linked as the invariant says, existing
  variables keep all but cached conditions and their arrays, and no other names appear in the scope.\<close>

theorem var_add_with_bounds:
  assumes ok: "vars_ok s" and sc: "ss_scopes s sc = Some scope" and new: "own_member s sc name = None"
    and valid: "\<forall>nm\<in>set (name # bound_names name). name_valid R s nm"
    and bounds: "\<forall>nm\<in>set (bound_names name). no_template_for R s sc nm \<and> bound_fits s sc p nm"
    and bt: "known_bound_type s = Some bt" and n: "placeholders name < n"
  shows "\<exists>v s' x. var_add n k R E sc name type p l props s = Done (Some v) s'
    \<and> vars_ok s' \<and> grows sc (set (name # bound_names name)) s s' \<and> st_vars s v = None
    \<and> var_scope_try_get_member sc name False s' = Done (Some (Member_variable v)) s'
    \<and> st_vars s' v = Some x \<and> var_name x = name \<and> var_type x = type \<and> var_priority x = p \<and> var_props x = props
    \<and> var_level x = placeholders name
    \<and> (\<forall>bn. array_bound_name name = Some bn \<longrightarrow> (\<exists>w y. var_n x = Some w \<and> st_vars s' w = Some y
          \<and> v \<in> set (var_n_clients y) \<and> var_scope_try_get_member sc bn False s' = Done (Some (Member_variable w)) s'))"
proof -
  obtain v s' x b where s': "var_add_with_array_bound n k R E sc name None type p l props s = Done (Some v) s'"
      "vars_ok s'" "grows sc (set (name # bound_names name)) s s'" "st_vars s v = None"
      "own_member s' sc name = Some (Member_variable v)" "st_vars s' v = Some x"
      "uncached x = uncached (made_var name l type sc b p props)"
    and b: "case array_bound_name name of None \<Rightarrow> b = None
      | Some bn \<Rightarrow> \<exists>w. b = Some w \<and> own_member s' sc bn = Some (Member_variable w)"
    using var_add_ok [OF assms, of k E type l props] by blast
  have x: "var_name x = name" "var_type x = type" "var_priority x = p" "var_props x = props" "var_n x = b"
    using uncached_same [OF s'(7)] by simp_all
  obtain scope' where scope': "ss_scopes s' sc = Some scope'" using grows_scope [OF s'(3) sc] by blast
  have look: "var_scope_try_get_member sc nm False s' = Done (own_member s' sc nm) s'" for nm
    using try_get_member_own [OF vars_okD(1) [OF s'(2)] scope'] scope' by (simp add: own_member_def)
  have "\<exists>w y. var_n x = Some w \<and> st_vars s' w = Some y \<and> v \<in> set (var_n_clients y)
      \<and> var_scope_try_get_member sc bn False s' = Done (Some (Member_variable w)) s'"
    if "array_bound_name name = Some bn" for bn
    using b that x(5) look var_linkedD(4) [OF vars_okD(3) [OF s'(2,6)]] by auto
  then show ?thesis
    using s' x look var_linkedD(2) [OF vars_okD(3) [OF s'(2,6)]] unfolding var_add_def by auto
qed

section \<open>Defining a variable again\<close>

lemma clients_optional_spec:
  "\<forall>c\<in>set cs. st_vars s c \<noteq> None \<Longrightarrow>
   clients_optional cs s = Done (\<forall>c\<in>set cs. \<forall>y. st_vars s c = Some y \<longrightarrow> prop_optional (var_props y)) s"
  by (induction cs) (auto split: option.splits)

lemma vars_ok_replace:
  assumes ok: "vars_ok s" and v: "st_vars s v = Some x"
    and y: "var_name y = var_name x" "var_scope y = var_scope x" "var_level y = var_level x" "var_n y = var_n x"
      "var_n_clients y = var_n_clients x" "var_slot y = var_slot x"
    and s': "st_vars s' = (st_vars s)(v \<mapsto> y)" "ss_scopes s' = ss_scopes s" "ss_next_scope s' = ss_next_scope s"
      "ss_next_var s \<le> ss_next_var s'"
  shows "vars_ok s'"
proof -
  have same: "\<exists>z'. st_vars s' w = Some z' \<and> var_name z' = var_name z \<and> var_scope z' = var_scope z \<and> var_level z' = var_level z
      \<and> var_n z' = var_n z \<and> var_n_clients z' = var_n_clients z" if "st_vars s w = Some z" for w z
    using that y v s'(1) by (cases "w = v") auto
  have "var_linked (st_vars s') w z" if z: "st_vars s' w = Some z" for w z
  proof -
    obtain z0 where z0: "st_vars s w = Some z0" "slot_wf (var_level z) (var_slot z) = slot_wf (var_level z0) (var_slot z0)"
        "var_level z = var_level z0" "var_name z = var_name z0" "var_n z = var_n z0" "var_n_clients z = var_n_clients z0"
      using z v y s'(1) by (cases "w = v") auto
    note link = vars_okD(3) [OF ok z0(1)]
    have "case var_n z of None \<Rightarrow> var_level z = 0
        | Some b \<Rightarrow> \<exists>u. st_vars s' b = Some u \<and> var_level z = Suc (var_level u) \<and> w \<in> set (var_n_clients u)"
      using var_linkedD(3,4) [OF link] same z0(3,5) by (cases "var_n z0") fastforce+
    moreover have "\<exists>u. st_vars s' c = Some u \<and> var_n u = Some w" if "c \<in> set (var_n_clients z)" for c
      using var_linkedD(5) [OF link, of c] that z0(6) same by fastforce
    ultimately show ?thesis
      using var_linkedD(1,2,6) [OF link] z0 unfolding var_linked_def by simp
  qed
  moreover have "w < ss_next_var s'" if "st_vars s' w = Some z" for w z
    using that vars_okD(2) [OF ok, of w] v s'(1,4) by (cases "w = v") fastforce+
  moreover have "scopes_ok s'" using scopes_ok_cong [OF s'(2,3) vars_okD(1) [OF ok]] .
  moreover have "\<exists>z. st_vars s' w = Some z \<and> var_name z = nm \<and> var_scope z = sc"
    if m: "ss_scopes s' sc = Some scope" "hashmap_get (scope_members scope) k = Some (nm, Member_variable w)" for sc scope k nm w
    using vars_okD(4) [OF ok, of sc scope k nm w] m s'(2) same by fastforce
  ultimately show ?thesis unfolding vars_ok_def by blast
qed

lemma invalidate_scalar:
  "st_vars s v = Some x \<Longrightarrow> var_n x = None \<Longrightarrow>
   var_invalidate_condition v s = Done () (s\<lparr>st_vars := (st_vars s)(v \<mapsto>
     (if var_condition x \<noteq> None then x\<lparr>var_condition := None, var_cond_valid := False\<rparr> else x))\<rparr>)"
  by (simp add: var_invalidate_condition_def)

lemma destroy_scalar:
  assumes "st_vars s v = Some x" and "var_n x = None" and "var_n_clients x = []" and "var_template x = None"
  shows "var_destroy v s = Done () (s\<lparr>st_vars := (st_vars s)(v := None)\<rparr>)"
  using assms by (simp add: var_destroy_def invalidate_scalar var_invalidate_default_value_def)

definition may_redefine :: "('x, 'd, 'r, 'z) ss \<Rightarrow> ('x, 'd) var_t \<Rightarrow> vartype_id \<Rightarrow> var_priority_t \<Rightarrow> 'd var_properties_t \<Rightarrow> bool" where
  "may_redefine s x type p props \<longleftrightarrow> prop_weak (var_props x) \<and> var_type x = type \<and> var_priority x = p
     \<and> (prop_optional props \<longrightarrow> (\<forall>c\<in>set (var_n_clients x). \<forall>y. st_vars s c = Some y \<longrightarrow> prop_optional (var_props y)))"

definition redefined :: "('x, 'd) var_t \<Rightarrow> location_t \<Rightarrow> 'd var_properties_t \<Rightarrow> ('x, 'd) var_t" where
  "redefined x l props = x\<lparr>var_props := props, var_condition := None,
     var_cond_valid := (if var_condition x \<noteq> None then False else var_cond_valid x), var_def_value := None, var_location := l\<rparr>"

lemma redefine_spec:
  assumes x: "st_vars s v = Some x" "var_n x = None" and y: "st_vars s w = Some y" "var_n y = None" "var_n_clients y = []"
      "var_template y = None" and same: "var_name x = var_name y" "var_scope x = var_scope y" and "v \<noteq> w"
    and clients: "\<forall>c\<in>set (var_n_clients x). st_vars s c \<noteq> None"
  shows "var_redefine v w s =
    (if may_redefine s x (var_type y) (var_priority y) (var_props y)
     then Done True (s\<lparr>st_vars := (st_vars s)(v \<mapsto> redefined x (var_location y) (var_props y), w := None)\<rparr>)
     else Done False s)"
proof (cases "prop_weak (var_props x) \<and> var_type x = var_type y \<and> var_priority x = var_priority y")
  case True
  let ?opt = "prop_optional (var_props y) \<longrightarrow> (\<forall>c\<in>set (var_n_clients x). \<forall>y. st_vars s c = Some y \<longrightarrow> prop_optional (var_props y))"
  have opt: "(if prop_optional (var_props y) then clients_optional (var_n_clients x) else ret True) s = Done ?opt s"
    using clients_optional_spec [OF clients] by simp
  define z where "z = (redefined x (var_location x) (var_props y))\<lparr>var_def_value := var_def_value x\<rparr>"
  have inv: "var_invalidate_condition v (s\<lparr>st_vars := (st_vars s)(v \<mapsto> x\<lparr>var_props := var_props y\<rparr>)\<rparr>) = Done () (s\<lparr>st_vars := (st_vars s)(v \<mapsto> z)\<rparr>)"
    using invalidate_scalar [of "s\<lparr>st_vars := (st_vars s)(v \<mapsto> x\<lparr>var_props := var_props y\<rparr>)\<rparr>" v] x(2)
    by (cases x) (simp add: z_def redefined_def)
  have set_props: "var_set_properties v (var_props y) s
      = (if ?opt then Done True (s\<lparr>st_vars := (st_vars s)(v \<mapsto> z\<lparr>var_def_value := None\<rparr>)\<rparr>) else Done False s)"
  proof (cases ?opt)
    case True
    then show ?thesis
      using x(1) opt inv unfolding var_set_properties_def var_properties_check_def var_invalidate_default_value_def
      by (simp add: andthen_def del: fun_upd_apply) (simp add: andthen_def)
  next
    case False
    then show ?thesis using x(1) opt unfolding var_set_properties_def var_properties_check_def by (simp add: andthen_def)
  qed
  show ?thesis
  proof (cases ?opt)
    case opt': True
    let ?s = "s\<lparr>st_vars := (st_vars s)(v \<mapsto> redefined x (var_location y) (var_props y))\<rparr>"
    have "var_destroy w ?s = Done () (?s\<lparr>st_vars := (st_vars ?s)(w := None)\<rparr>)"
      using y \<open>v \<noteq> w\<close> by (intro destroy_scalar) auto
    moreover have "z\<lparr>var_def_value := None, var_location := var_location y, var_priority := var_priority y\<rparr>
        = redefined x (var_location y) (var_props y)"
      using True by (cases x) (simp add: z_def redefined_def)
    ultimately show ?thesis
      using True opt' x y same set_props by (simp add: var_redefine_def may_redefine_def)
  next
    case False
    then have "var_set_properties v (var_props y) s = Done False s" using set_props by (simp only: if_False)
    then have "var_redefine v w s = Done False s" using True x y same by (simp add: var_redefine_def andthen_def)
    moreover have "\<not> may_redefine s x (var_type y) (var_priority y) (var_props y)" using False unfolding may_redefine_def by blast
    ultimately show ?thesis by simp
  qed
next
  case False
  then show ?thesis using x y same by (auto simp: var_redefine_def may_redefine_def)
qed

text \<open>C24: adding a variable that is no array under the name of a variable its scope has already. The old variable is
  defined again exactly if it is weak, of the same type and of the same priority, and does not become optional while one
  of its arrays is not; it then has the new properties and location, no cached condition or default value, and the values
  and arrays it had. If not, nothing changes but the next identifier. In particular a lower priority is refused, which
  the comment of \<open>var_scope_add_var\<close> allows.\<close>

theorem var_add_again:
  assumes ok: "vars_ok s" and sc: "ss_scopes s sc = Some scope" and valid: "name_valid R s (var_name x)"
    and scalar: "placeholders (var_name x) = 0" and old: "own_member s sc (var_name x) = Some (Member_variable v)"
    and v: "st_vars s v = Some x" and n: "0 < n"
  shows "if may_redefine s x type p props then \<exists>s'. var_add n k R E sc (var_name x) type p l props s = Done (Some v) s' \<and> vars_ok s'
      \<and> st_vars s' = (st_vars s)(v \<mapsto> redefined x l props) \<and> ss_scopes s' = ss_scopes s
    else var_add n k R E sc (var_name x) type p l props s = Done None (s\<lparr>ss_next_var := ss_next_var s + 1\<rparr>)"
proof -
  define name where "name = var_name x"
  note assms = assms [folded name_def]
  obtain n' where n': "n = Suc n'" using n by (cases n) auto
  obtain t where t: "var_varname_type s = Some t" "vartype_match R k E t name s = Done True s"
    using varname_match [OF valid [folded name_def]] by blast
  let ?add = "\<lambda>sc name. var_add_with_array_bound n' k R E sc name None" and ?w = "ss_next_var s"
  let ?y = "made_var name l type sc None p props"
  let ?s = "s\<lparr>st_vars := (st_vars s)(?w \<mapsto> ?y), ss_next_var := ?w + 1\<rparr>"
  have "var_find_array_bound R E ?add sc name None p l props s = Done (Some None) s"
    using assms(4) array_bound_name_count(2) [of name] by (simp add: var_find_array_bound_def)
  from var_create_found [OF this, of type] have run: "var_add n k R E sc name type p l props s =
      andthen (var_scope_add_var R E sc ?w) (\<lambda>var_added.
        case var_added of None \<Rightarrow> andthen (var_destroy ?w) (\<lambda>_. ret None) | Some a \<Rightarrow> ret (Some a)) ?s"
    using t n' by (simp add: var_add_def var_properties_check_def)
  have vw: "v \<noteq> ?w" using v fresh_var [OF ok] by auto
  have "scopes_ok ?s" "ss_scopes ?s sc = Some scope" using vars_okD(1) [OF ok] sc by (simp_all add: scopes_ok_def)
  then have redef: "var_scope_add_var R E sc ?w ?s = andthen (var_redefine v ?w) (\<lambda>ok. ret (if ok then Some v else None)) ?s"
    using assms(5) sc by (simp add: var_scope_add_var_def var_scope_do_try_get_def try_get_member_own own_member_def)
  have "var_scope x = sc" using own_memberE [OF ok old] v vars_okD(4) [OF ok] by (metis option.inject)
  moreover have "var_n x = None"
    using var_linkedD(4) [OF vars_okD(3) [OF ok v]] member_level [OF ok old v] scalar by (cases "var_n x") auto
  moreover have clients: "\<forall>c\<in>set (var_n_clients x). st_vars ?s c = st_vars s c \<and> st_vars s c \<noteq> None"
  proof
    fix c
    assume "c \<in> set (var_n_clients x)"
    then obtain y where "st_vars s c = Some y" using var_linkedD(5) [OF vars_okD(3) [OF ok v]] by blast
    then show "st_vars ?s c = st_vars s c \<and> st_vars s c \<noteq> None" using fresh_var [OF ok] by auto
  qed
  ultimately have spec: "var_redefine v ?w ?s =
      (if may_redefine ?s x type p props then Done True (?s\<lparr>st_vars := (st_vars ?s)(v \<mapsto> redefined x l props, ?w := None)\<rparr>)
       else Done False ?s)"
    using redefine_spec [of ?s v x ?w ?y] v vw name_def [symmetric] by (simp del: not_None_eq)
  have may: "may_redefine ?s x type p props = may_redefine s x type p props"
    using clients unfolding may_redefine_def by auto
  have clear: "(st_vars s)(?w := None) = st_vars s" using fresh_var [OF ok] by auto
  show ?thesis
  proof (cases "may_redefine s x type p props")
    case True
    let ?s' = "s\<lparr>st_vars := (st_vars s)(v \<mapsto> redefined x l props), ss_next_var := ?w + 1\<rparr>"
    have "var_redefine v ?w ?s = Done True ?s'" using spec may True vw clear by (simp add: fun_upd_twist)
    then have "var_add n k R E sc name type p l props s = Done (Some v) ?s'" using run redef by (simp add: andthen_def)
    moreover have "vars_ok ?s'" by (rule vars_ok_replace [OF ok v]) (simp_all add: redefined_def)
    ultimately show ?thesis using True by (auto simp: name_def)
  next
    case False
    have "var_destroy ?w ?s = Done () (?s\<lparr>st_vars := (st_vars ?s)(?w := None)\<rparr>)" by (rule destroy_scalar [where x = ?y]) simp_all
    then show ?thesis using run redef spec may False clear by (simp add: andthen_def name_def)
  qed
qed

text \<open>C28: the printed name of an instance of a variable reads back, through the look-up in the scopes, to the same instance,
  for every number of levels and all indices but the largest unsigned one. The name has to mean the variable in the
  scope; if there are indices, the printed name, which is looked up first, must not be the name of a variable or
  template that the scope sees, and no template may match it.\<close>

theorem instance_name_roundtrip:
  assumes ok: "scopes_ok s" and sc: "ss_scopes s sc \<noteq> None"
    and v: "st_vars s v = Some x" "visible s (var_name x) sc (Member_variable v)"
    and name: "var_name x = join_name h cs" "name_components h cs"
    and "is": "length is = name_levels cs" "- 1 \<notin> set is"
    and free: "is \<noteq> [] \<longrightarrow> (\<forall>m. \<not> visible s (instance_name (var_name x) is) sc m)
      \<and> (\<forall>sc'. no_template_for R s sc' (instance_name (var_name x) is))"
  shows "\<exists>printed. var_instance_to_string \<lparr>inst_var = v, indices = is\<rparr> s = Done printed s
    \<and> var_instance_create_from_string (\<lambda>sc nm. var_scope_try_get n k R E sc nm True) sc printed s
      = Done (Some \<lparr>inst_var = v, indices = is\<rparr>) s"
proof -
  have "var_instance_create_from_string (\<lambda>sc nm. var_scope_try_get n k R E sc nm True) sc (instance_name (join_name h cs) is) s
      = Done (Some \<lparr>inst_var = v, indices = is\<rparr>) s"
    using try_get_visible [OF ok sc] v(2) free unfolding name(1) by (intro instance_name_reads [OF name(2) "is"]) auto
  then show ?thesis using v(1) name(1) by (simp add: var_instance_to_string_def andthen_def)
qed

section \<open>Examples\<close>

text \<open>A library that accepts every name, and a store with a compiled type for names and no variables.\<close>

definition accept_lib :: "nat regex_lib" where
  "accept_lib = example_lib\<lparr>regexec := \<lambda>r v k. Some []\<rparr>"

definition define_store :: "(nat, nat, nat) scope_store" where
  "define_store = two_scopes\<lparr>ts_types := [5 \<mapsto> \<lparr>vt_name = None, vt_expr = None, vt_error_msg = [], vt_comment = [],
       vt_location = example_location, compiled_state = Some \<lparr>cs_regex = 0, complete_error_msg = [], complete_comment = []\<rparr>,
       expansion_in_progress = False, vt_extensions = [], vt_temporary = True, vt_predefined = False, vt_incomplete = False\<rparr>],
     var_varname_type := Some 5, var_array_bound_type := Some 1\<rparr>"

lemma define_store_simps [simp]:
  "st_vars define_store = (\<lambda>_. None)" "ss_scopes define_store = [0 \<mapsto> empty_scope None, 1 \<mapsto> empty_scope (Some 0)]"
  "known_bound_type define_store = Some 1" "var_varname_type define_store = Some 5" "own_member define_store 0 nm = None"
  "no_template_for R define_store 0 nm" "name_valid accept_lib define_store nm" "bound_fits define_store 0 p nm"
  by (auto simp: define_store_def two_scopes_def known_bound_type_def own_member_def empty_scope_def name_get_def empty_name_map_get
      no_template_for_def name_valid_def accept_lib_def example_lib_def bound_fits_def)

lemma define_store_ok: "vars_ok define_store"
proof -
  have "scopes_ok define_store"
    by (rule scopes_ok_cong [OF _ _ two_scopes_ok]) (simp_all add: define_store_def)
  then show ?thesis by (auto simp: vars_ok_def empty_scope_def empty_name_map_get split: if_splits)
qed

abbreviation weak_bound :: "nat var_properties_t" where
  "weak_bound \<equiv> array_bound_properties (plain_env :: (nat, nat, nat, unit) senv)"

theorem var_add_with_bounds_witness:
  "\<exists>v s' x. var_add 3 1 accept_lib plain_env 0 ''NET_%_IP_%'' 2 VAR_PRIORITY_CONFIGURATION example_location weak_bound define_store
      = Done (Some v) s' \<and> vars_ok s' \<and> st_vars s' v = Some x \<and> var_level x = 2
    \<and> (\<exists>w y. var_n x = Some w \<and> st_vars s' w = Some y \<and> v \<in> set (var_n_clients y)
        \<and> var_scope_try_get_member 0 ''NET_%_IP_N'' False s' = Done (Some (Member_variable w)) s')"
proof -
  have "array_bound_name ''NET_%_IP_%'' = Some ''NET_%_IP_N''" "placeholders ''NET_%_IP_%'' = 2"
    by (simp_all add: array_bound_name_def VAR_PLACEHOLDER_def VAR_N_SUFFIX_def)
  then show ?thesis
    using var_add_with_bounds [of define_store 0 "empty_scope None" "''NET_%_IP_%''" accept_lib VAR_PRIORITY_CONFIGURATION 1 3 1 plain_env 2
        example_location weak_bound] define_store_ok by auto
qed

lemma define_example:
  assumes "placeholders name = 0"
  obtains v s x where "var_add 1 1 accept_lib plain_env 0 name 1 p example_location weak_bound define_store = Done (Some v) s"
    and "vars_ok s" and "grows 0 {name} define_store s" and "own_member s 0 name = Some (Member_variable v)"
    and "st_vars s v = Some x" and "uncached x = uncached (made_var name example_location 1 0 None p weak_bound)"
proof -
  have "array_bound_name name = None" using assms array_bound_name_count(2) by blast
  then show ?thesis
    using var_add_ok [of define_store 0 "empty_scope None" name accept_lib p 1 1 1 plain_env 1 example_location weak_bound]
      define_store_ok assms that by (auto simp: bound_names_simps var_add_def)
qed

theorem var_add_again_witness:
  "\<exists>v s s'. var_add 1 1 accept_lib plain_env 0 ''DNS_N'' 1 VAR_PRIORITY_CONFIGURATION example_location weak_bound define_store
      = Done (Some v) s
    \<and> var_add 1 1 accept_lib plain_env 0 ''DNS_N'' 1 VAR_PRIORITY_CONFIGURATION example_location (weak_bound\<lparr>prop_weak := False\<rparr>) s
      = Done (Some v) s' \<and> vars_ok s'"
proof -
  have "placeholders ''DNS_N'' = 0" by (simp add: VAR_PLACEHOLDER_def)
  from define_example [OF this] obtain v s x where s:
    "var_add 1 1 accept_lib plain_env 0 ''DNS_N'' 1 VAR_PRIORITY_CONFIGURATION example_location weak_bound define_store = Done (Some v) s"
    "vars_ok s" "grows 0 {''DNS_N''} define_store s" "own_member s 0 ''DNS_N'' = Some (Member_variable v)" "st_vars s v = Some x"
    "uncached x = uncached (made_var ''DNS_N'' example_location 1 0 None VAR_PRIORITY_CONFIGURATION weak_bound)" by blast
  obtain scope where scope: "ss_scopes s 0 = Some scope" using own_memberE [OF s(2,4)] by blast
  have "name_valid accept_lib s ''DNS_N''" using name_valid_grows [OF s(3)] by simp
  moreover have name: "var_name x = ''DNS_N''" and "may_redefine s x 1 VAR_PRIORITY_CONFIGURATION (weak_bound\<lparr>prop_weak := False\<rparr>)"
    using uncached_same [OF s(6)]
    by (simp_all add: may_redefine_def array_bound_properties_def var_properties_set_disabled_value_def
        var_properties_set_default_value_def var_properties_create_def)
  ultimately show ?thesis
    using var_add_again [OF s(2) scope _ _ _ s(5), of accept_lib 1 1 VAR_PRIORITY_CONFIGURATION
        "weak_bound\<lparr>prop_weak := False\<rparr>" 1 plain_env example_location] s(1,4)
    unfolding name by (auto simp: VAR_PLACEHOLDER_def)
qed

theorem instance_name_roundtrip_witness:
  "\<exists>v s. var_add 2 1 accept_lib plain_env 0 ''NET_%_DEV'' 2 VAR_PRIORITY_CONFIGURATION example_location weak_bound define_store
      = Done (Some v) s
    \<and> var_instance_to_string \<lparr>inst_var = v, indices = [11]\<rparr> s = Done ''NET_12_DEV'' s
    \<and> var_instance_create_from_string (\<lambda>sc nm. var_scope_try_get 2 1 accept_lib plain_env sc nm True) 0 ''NET_12_DEV'' s
      = Done (Some \<lparr>inst_var = v, indices = [11]\<rparr>) s"
proof -
  let ?nm = "''NET_%_DEV''"
  have bn: "array_bound_name ?nm = Some ''NET_N''" "array_bound_name ''NET_N'' = None" "placeholders ?nm = 1"
    by (simp_all add: array_bound_name_def VAR_PLACEHOLDER_def VAR_N_SUFFIX_def)
  obtain v s x b where s: "var_add 2 1 accept_lib plain_env 0 ?nm 2 VAR_PRIORITY_CONFIGURATION example_location weak_bound define_store
      = Done (Some v) s" "vars_ok s" "grows 0 {?nm, ''NET_N''} define_store s" "own_member s 0 ?nm = Some (Member_variable v)"
    "st_vars s v = Some x" "uncached x = uncached (made_var ?nm example_location 2 0 b VAR_PRIORITY_CONFIGURATION weak_bound)"
    using var_add_ok [of define_store 0 "empty_scope None" ?nm accept_lib VAR_PRIORITY_CONFIGURATION 1 2 1 plain_env 2 example_location weak_bound]
      define_store_ok bn by (auto simp: bound_names_simps var_add_def)
  have name: "var_name x = ?nm" using uncached_same [OF s(6)] by simp
  have parts: "?nm = join_name ''NET'' [''%'', ''DEV'']" "name_components ''NET'' [''%'', ''DEV'']" "name_levels [''%'', ''DEV''] = 1"
    by (simp_all add: join_name_def name_components_def name_word_def component_name_def name_levels_def VAR_PLACEHOLDER_def isdigit_def)
  have printed: "instance_name ?nm [11] = ''NET_12_DEV''" by code_simp
  obtain mm where mm: "ss_scopes s 0 = Some ((empty_scope None)\<lparr>scope_members := mm\<rparr>)"
      "members_grow {?nm, ''NET_N''} (scope_members (empty_scope None)) mm"
    using grows_scope [OF s(3)] by auto
  have new: "\<exists>w. snd e = Member_variable w" "strcasecmp_eq k ?nm \<or> strcasecmp_eq k ''NET_N''" if "hashmap_get mm k = Some e" for k e
    using mm(2) that by (cases e; auto simp: members_grow_def empty_scope_def empty_name_map_get)+
  have "visible s ?nm 0 (Member_variable v)"
    using s(4) mm(1) by (intro visible.own [OF mm(1)]) (simp add: own_member_def)
  moreover have "hashmap_get mm ''NET_12_DEV'' = None"
    using new(2) [of "''NET_12_DEV''"] by (cases "hashmap_get mm ''NET_12_DEV''") (auto simp: strcasecmp_eq_def)
  then have "\<not> visible s ''NET_12_DEV'' 0 m" for m
    using visible_enclosing [OF mm(1), of "''NET_12_DEV''" m] by (simp add: name_get_def empty_scope_def)
  moreover have "no_template_for accept_lib s sc ''NET_12_DEV''" for sc
    using mm(1) s(3)
    by (cases "sc = 0") (auto simp: no_template_for_def grows_def empty_scope_def empty_name_map_get split: if_splits dest: new(1))
  ultimately have "\<exists>printed. var_instance_to_string \<lparr>inst_var = v, indices = [11]\<rparr> s = Done printed s
    \<and> var_instance_create_from_string (\<lambda>sc nm. var_scope_try_get 2 1 accept_lib plain_env sc nm True) 0 printed s
      = Done (Some \<lparr>inst_var = v, indices = [11]\<rparr>) s"
    using parts(3) mm(1)
    by (intro instance_name_roundtrip [OF vars_okD(1) [OF s(2)] _ s(5) _ trans [OF name parts(1)] parts(2)]) (simp_all add: name printed)
  moreover have "var_instance_to_string \<lparr>inst_var = v, indices = [11]\<rparr> s = Done ''NET_12_DEV'' s"
    using s(5) name printed by (simp add: var_instance_to_string_def andthen_def)
  ultimately show ?thesis using s(1) by fastforce
qed

end
