(* ===== verification/Net_Calc.thy ===== *)
theory Net_Calc
  imports C_Strings
begin

unbundle bit_operations_syntax

text \<open>
  The calculations on network addresses of \<open>netcalc.c\<close>, a program of the router itself: addresses are arrays of
  bytes, and the loops move a mask of one bit through the bytes from the left. The functions are shown to do
  what their names say on the sequence of bits of an address. \<open>inet_pton\<close> and \<open>inet_ntop\<close> are the members of a record.
\<close>

type_synonym byte = "8 word"

section \<open>Addresses\<close>

definition AF_INET :: int where "AF_INET = 2"
definition AF_INET6 :: int where "AF_INET6 = 10"
definition ERR_UNKNOWN_TYPE :: int where "ERR_UNKNOWN_TYPE = - 1"
definition ERR_INVALID_ADDRESS :: int where "ERR_INVALID_ADDRESS = - 2"
definition ERR_INVALID_NETMASK :: int where "ERR_INVALID_NETMASK = - 3"
definition ERR_INVALID_NETBITMASK :: int where "ERR_INVALID_NETBITMASK = - 4"
definition ERR_CONVERSION_FAILED :: int where "ERR_CONVERSION_FAILED = - 5"
definition ERR_COMBINATION_FAILED :: int where "ERR_COMBINATION_FAILED = - 7"

lemmas address_kinds = AF_INET_def AF_INET6_def ERR_UNKNOWN_TYPE_def ERR_INVALID_ADDRESS_def ERR_INVALID_NETMASK_def
  ERR_INVALID_NETBITMASK_def ERR_CONVERSION_FAILED_def ERR_COMBINATION_FAILED_def

text \<open>The bytes of the union that the family uses: four or sixteen.\<close>

record Address =
  addr_type :: int
  addr_bytes :: "byte list"
  netmaskbits :: u32

definition isValidAddress :: "Address \<Rightarrow> bool" where
  "isValidAddress addr \<longleftrightarrow> 0 \<le> addr_type addr"

definition num_bytes :: "Address \<Rightarrow> nat option" where
  "num_bytes addr = (if addr_type addr = AF_INET then Some 4 else if addr_type addr = AF_INET6 then Some 16 else None)"

section \<open>Netmasks\<close>

text \<open>The inner loop: the ones from the mask on; the mask where it stopped, unless it went through the byte.\<close>

function count_ones :: "byte \<Rightarrow> byte \<Rightarrow> u32 \<Rightarrow> u32 \<times> byte option" where
  "count_ones p bitmask n =
     (if bitmask = 0 then (n, None)
      else if p AND bitmask \<noteq> 0 then count_ones p (drop_bit 1 bitmask) (n + 1)
      else (n, Some bitmask))"
  by pat_completeness auto

lemma drop_bit_byte_less: "(m :: byte) \<noteq> 0 \<Longrightarrow> unat (drop_bit (Suc 0) m) < unat m"
proof -
  have "unat (drop_bit (Suc 0) m) = unat m div 2"
    by (simp only: drop_bit_eq_div power_one_right One_nat_def [symmetric]) (simp add: unat_div)
  moreover assume "m \<noteq> 0"
  then have "0 < unat m" by (simp add: unat_gt_0)
  ultimately show ?thesis by simp
qed

termination count_ones
  by (relation "measure (\<lambda>(p, m, n). unat m)") (auto intro: drop_bit_byte_less)

function ones_left :: "byte \<Rightarrow> byte \<Rightarrow> bool" where
  "ones_left p bitmask =
     (if bitmask = 0 then False else if p AND bitmask \<noteq> 0 then True else ones_left p (drop_bit 1 bitmask))"
  by pat_completeness auto
termination
  by (relation "measure (\<lambda>(p, m). unat m)") (auto intro: drop_bit_byte_less)

declare count_ones.simps [simp del] ones_left.simps [simp del]

text \<open>The first loop gives the number of ones and what is left for the second: a mask and the bytes from the current one.\<close>

fun leading_ones :: "byte list \<Rightarrow> u32 \<Rightarrow> u32 \<times> byte \<times> byte list" where
  "leading_ones [] n = (n, 0, [])"
| "leading_ones (p # ps) n =
     (case count_ones p 0x80 n of
        (n', None) \<Rightarrow> leading_ones ps n'
      | (n', Some bitmask) \<Rightarrow> (n', bitmask, p # ps))"

fun ones_follow :: "byte \<Rightarrow> byte list \<Rightarrow> bool" where
  "ones_follow bitmask [] = False"
| "ones_follow bitmask (p # ps) = (ones_left p bitmask \<or> ones_follow 0x80 ps)"

definition convertNetmaskToCIDR :: "Address \<Rightarrow> bool \<times> Address" where
  "convertNetmaskToCIDR netmask =
     (case num_bytes netmask of
        None \<Rightarrow> (False, netmask\<lparr>addr_type := ERR_UNKNOWN_TYPE\<rparr>)
      | Some num \<Rightarrow>
          (case leading_ones (take num (addr_bytes netmask)) 0 of
             (n, bitmask, ps) \<Rightarrow>
               if ones_follow bitmask ps then (False, netmask\<lparr>addr_type := ERR_INVALID_NETMASK, netmaskbits := n\<rparr>)
               else (True, netmask\<lparr>netmaskbits := n\<rparr>)))"

text \<open>
  The loop the conversions share: \<open>n\<close> times the operation is applied to the byte under the cursor and the mask,
  which then moves on by one bit. None is an access beyond the address.
\<close>

primrec bit_loop :: "(byte \<Rightarrow> byte \<Rightarrow> byte) \<Rightarrow> nat \<Rightarrow> nat \<Rightarrow> byte \<Rightarrow> byte list \<Rightarrow> byte list option" where
  "bit_loop f 0 i bitmask bs = Some bs"
| "bit_loop f (Suc n) i bitmask bs =
     (if i < length bs then
        (let bs' = bs[i := f (bs ! i) bitmask]; bitmask' = drop_bit 1 bitmask in
         if bitmask' = 0 then bit_loop f n (i + 1) 0x80 bs' else bit_loop f n i bitmask' bs')
      else None)"

definition set_bit_op :: "byte \<Rightarrow> byte \<Rightarrow> byte" where "set_bit_op b m = b OR m"
definition clear_bit_op :: "byte \<Rightarrow> byte \<Rightarrow> byte" where "clear_bit_op b m = b AND NOT m"

text \<open>The loop of the netmask stops at the end of the address; bits left over are an error.\<close>

definition convertCIDRToNetmask :: "Address \<Rightarrow> bool \<times> Address" where
  "convertCIDRToNetmask netmask =
     (case num_bytes netmask of
        None \<Rightarrow> (False, netmask)
      | Some num \<Rightarrow>
          (let bits = nat (sint (netmaskbits netmask));
               result = netmask\<lparr>addr_bytes := the (bit_loop set_bit_op (min bits (8 * num)) 0 0x80 (replicate num 0))\<rparr> in
           if 8 * num < bits then (False, result\<lparr>addr_type := ERR_INVALID_NETBITMASK\<rparr>) else (True, result)))"

definition convert_from_mask :: "(byte \<Rightarrow> byte \<Rightarrow> byte) \<Rightarrow> Address \<Rightarrow> (bool \<times> Address) option" where
  "convert_from_mask f addr =
     (case num_bytes addr of
        None \<Rightarrow> Some (False, addr)
      | Some num \<Rightarrow>
          map_option (\<lambda>bs. (True, addr\<lparr>addr_bytes := bs\<rparr>))
            (bit_loop f (nat (int num * 8 - sint (netmaskbits addr))) (unat (netmaskbits addr div 8))
               (drop_bit (unat (netmaskbits addr mod 8)) 0x80) (addr_bytes addr)))"

definition convertCIDRToNetwork :: "Address \<Rightarrow> (bool \<times> Address) option" where
  "convertCIDRToNetwork addr = convert_from_mask clear_bit_op addr"

definition convertCIDRToBroadcast :: "Address \<Rightarrow> (bool \<times> Address) option" where
  "convertCIDRToBroadcast addr = convert_from_mask set_bit_op addr"

definition convertCIDRToHost :: "Address \<Rightarrow> (bool \<times> Address) option" where
  "convertCIDRToHost addr =
     (case num_bytes addr of
        None \<Rightarrow> Some (False, addr)
      | Some num \<Rightarrow>
          map_option (\<lambda>bs. (True, addr\<lparr>addr_bytes := bs\<rparr>))
            (bit_loop clear_bit_op (nat (sint (netmaskbits addr))) 0 0x80 (addr_bytes addr)))"

text \<open>The bytes before an overlap are already changed when it is found.\<close>

fun combine_loop :: "byte list \<Rightarrow> byte list \<Rightarrow> byte list \<Rightarrow> bool \<times> byte list" where
  "combine_loop (p1 # ps1) (p2 # ps2) (pnm # pnms) =
     (if pnm AND p2 \<noteq> 0 then (False, p1 # ps1)
      else (let (ok, ps) = combine_loop ps1 ps2 pnms in (ok, ((p1 AND pnm) OR p2) # ps)))"
| "combine_loop ps1 _ _ = (True, ps1)"

definition combineAddresses :: "Address \<Rightarrow> Address \<Rightarrow> bool \<times> Address" where
  "combineAddresses network host =
     (if num_bytes network = None then (False, network)
      else
        (case convertCIDRToNetmask network of
           (False, _) \<Rightarrow> (False, network)
         | (True, netmask) \<Rightarrow>
             (case combine_loop (addr_bytes network) (addr_bytes host) (addr_bytes netmask) of
                (True, bs) \<Rightarrow> (True, network\<lparr>addr_bytes := bs\<rparr>)
              | (False, bs) \<Rightarrow> (False, network\<lparr>addr_type := ERR_COMBINATION_FAILED, addr_bytes := bs\<rparr>))))"

section \<open>Addresses as sequences of bits\<close>

definition byte_bits :: "byte \<Rightarrow> bool list" where
  "byte_bits b = map (\<lambda>j. bit b (7 - j)) [0..<8]"

definition addr_bits :: "byte list \<Rightarrow> bool list" where
  "addr_bits bs = concat (map byte_bits bs)"

text \<open>The mask for the bit at a position from the left.\<close>

definition mask_at :: "nat \<Rightarrow> byte" where
  "mask_at j = drop_bit j 0x80"

lemma byte_length [simp]: "length (byte_bits b) = 8"
  by (simp add: byte_bits_def)

lemma byte_nth [simp]: "j < 8 \<Longrightarrow> byte_bits b ! j = bit b (7 - j)"
  by (simp add: byte_bits_def)

lemma addr_bits_simps [simp]: "addr_bits [] = []" "addr_bits (b # bs) = byte_bits b @ addr_bits bs"
  by (simp_all add: addr_bits_def)

lemma addr_bits_length [simp]: "length (addr_bits bs) = 8 * length bs"
  by (induction bs) simp_all

lemma addr_bits_nth: "i < length bs \<Longrightarrow> j < 8 \<Longrightarrow> addr_bits bs ! (8 * i + j) = bit (bs ! i) (7 - j)"
proof (induction bs arbitrary: i)
  case (Cons b bs)
  then show ?case by (cases i) (simp_all add: nth_append)
qed simp

lemma bit_0x80: "bit (0x80 :: byte) n \<longleftrightarrow> n = 7"
proof -
  have "(0x80 :: byte) = push_bit 7 1" by (simp add: push_bit_eq_mult)
  then show ?thesis by (simp only: bit_push_bit_iff bit_1_iff) auto
qed

lemma bit_mask_at: "j < 8 \<Longrightarrow> bit (mask_at j) l \<longleftrightarrow> l = 7 - j"
  by (simp only: mask_at_def bit_drop_bit_eq o_def bit_0x80) auto

lemma mask_at_0: "mask_at 0 = 0x80"
  by (simp add: mask_at_def)

lemma mask_at_Suc: "drop_bit (Suc 0) (mask_at j) = mask_at (Suc j)"
  by (simp add: mask_at_def)

lemma mask_at_zero: "j < 8 \<Longrightarrow> mask_at j \<noteq> 0" "mask_at 8 = 0"
proof -
  show "mask_at j \<noteq> 0" if "j < 8" using bit_mask_at [OF that, of "7 - j"] by auto
  show "mask_at 8 = 0" by (simp add: mask_at_def drop_bit_eq_div)
qed

lemma and_mask_at: "j < 8 \<Longrightarrow> p AND mask_at j \<noteq> 0 \<longleftrightarrow> bit p (7 - j)"
proof -
  assume j: "j < 8"
  have "p AND mask_at j = 0 \<longleftrightarrow> (\<forall>l. \<not> (bit p l \<and> bit (mask_at j) l))"
    using bit_imp_le_length [of p] by (auto simp: bit_eq_iff bit_and_iff)
  then show ?thesis using bit_mask_at [OF j] by auto
qed

section \<open>The shared loop\<close>

text \<open>An operation that writes one value to the bit of the mask.\<close>

definition writes_bit :: "bool \<Rightarrow> (byte \<Rightarrow> byte \<Rightarrow> byte) \<Rightarrow> bool" where
  "writes_bit v f \<longleftrightarrow> (\<forall>b j l. j < 8 \<longrightarrow> l < 8 \<longrightarrow> bit (f b (mask_at j)) l = (if l = 7 - j then v else bit b l))"

lemma set_writes: "writes_bit True set_bit_op" and clear_writes: "writes_bit False clear_bit_op"
  by (auto simp: writes_bit_def set_bit_op_def clear_bit_op_def bit_or_iff bit_and_iff bit_not_iff bit_mask_at)

lemma byte_bits_write:
  assumes "writes_bit v f" and "j < 8"
  shows "byte_bits (f b (mask_at j)) = (byte_bits b)[j := v]"
  using assms by (intro nth_equalityI) (auto simp: writes_bit_def nth_list_update)

lemma addr_bits_write:
  assumes f: "writes_bit v f" and j: "j < 8" and i: "i < length bs"
  shows "addr_bits (bs[i := f (bs ! i) (mask_at j)]) = (addr_bits bs)[8 * i + j := v]"
  using i
proof (induction bs arbitrary: i)
  case (Cons b bs)
  show ?case
  proof (cases i)
    case 0
    then show ?thesis using byte_bits_write [OF f j] j by (simp add: list_update_append)
  next
    case (Suc i')
    then show ?thesis using Cons by (simp add: list_update_append)
  qed
qed simp

lemma bit_loop_bits:
  assumes "writes_bit v f" and "j < 8" and "8 * i + j + n \<le> 8 * length bs"
  shows "\<exists>bs'. bit_loop f n i (mask_at j) bs = Some bs' \<and> length bs' = length bs
    \<and> addr_bits bs' = take (8 * i + j) (addr_bits bs) @ replicate n v @ drop (8 * i + j + n) (addr_bits bs)"
  using assms(2,3)
proof (induction n arbitrary: i j bs)
  case (Suc n)
  let ?bs = "bs[i := f (bs ! i) (mask_at j)]" and ?p = "8 * i + j"
  have i: "i < length bs" using Suc.prems by linarith
  define i' j' where "i' = (if j = 7 then i + 1 else i)" and "j' = (if j = 7 then 0 else j + 1)"
  have pos: "8 * i' + j' = ?p + 1" "j' < 8" using Suc.prems(1) by (auto simp: i'_def j'_def)
  have "bit_loop f (Suc n) i (mask_at j) bs = bit_loop f n i' (mask_at j') ?bs"
  proof (cases "j = 7")
    case True
    then show ?thesis using i mask_at_zero(2) by (simp add: Let_def mask_at_Suc i'_def j'_def mask_at_0)
  next
    case False
    then have "mask_at (Suc j) \<noteq> 0" using Suc.prems(1) mask_at_zero(1) [of "Suc j"] by simp
    then show ?thesis using i False by (simp add: Let_def mask_at_Suc i'_def j'_def)
  qed
  moreover obtain bs' where bs': "bit_loop f n i' (mask_at j') ?bs = Some bs'" "length bs' = length bs"
    "addr_bits bs' = take (?p + 1) (addr_bits ?bs) @ replicate n v @ drop (?p + 1 + n) (addr_bits ?bs)"
    using Suc.IH [OF pos(2), of i' ?bs] Suc.prems(2) pos(1) by auto
  moreover have "?p < length (addr_bits bs)" using Suc.prems by simp
  then have "take (?p + 1) (addr_bits ?bs) = take ?p (addr_bits bs) @ [v]"
    and "drop (?p + 1 + n) (addr_bits ?bs) = drop (?p + 1 + n) (addr_bits bs)"
    using addr_bits_write [OF assms(1) Suc.prems(1) i] by (simp_all add: take_Suc_conv_app_nth)
  ultimately show ?case by simp
qed simp

section \<open>Netmasks as sequences of bits\<close>

lemma byte_bits_step: "j < 8 \<Longrightarrow> drop j (byte_bits p) = bit p (7 - j) # drop (Suc j) (byte_bits p)"
  by (simp add: Cons_nth_drop_Suc [symmetric])

lemma count_ones_bits:
  assumes "j \<le> 8"
  shows "count_ones p (mask_at j) n =
    (let k = length (takeWhile (\<lambda>b. b) (drop j (byte_bits p))) in
     (n + of_nat k, if j + k = 8 then None else Some (mask_at (j + k))))"
  using assms
proof (induction "8 - j" arbitrary: j n)
  case 0
  then show ?case by (simp add: count_ones.simps mask_at_zero(2))
next
  case (Suc d)
  then have j: "j < 8" by simp
  note step = count_ones.simps [of p "mask_at j"] byte_bits_step [OF j] and_mask_at [OF j]
  show ?case
  proof (cases "bit p (7 - j)")
    case True
    then have "count_ones p (mask_at j) n = count_ones p (mask_at (Suc j)) (n + 1)"
      using mask_at_zero(1) [OF j] by (simp add: step mask_at_Suc)
    then show ?thesis using Suc.hyps(1) [of "Suc j" "n + 1"] Suc.hyps(2) j True
      by (simp add: byte_bits_step Let_def algebra_simps)
  next
    case False
    then show ?thesis using mask_at_zero(1) [OF j] j by (simp add: step)
  qed
qed

lemma ones_left_bits: "j \<le> 8 \<Longrightarrow> ones_left p (mask_at j) \<longleftrightarrow> True \<in> set (drop j (byte_bits p))"
proof (induction "8 - j" arbitrary: j)
  case 0
  then show ?case by (simp add: ones_left.simps mask_at_zero(2))
next
  case (Suc d)
  then have j: "j < 8" by simp
  show ?case using Suc.hyps(1) [of "Suc j"] Suc.hyps(2) j mask_at_zero(1) [OF j]
    by (subst ones_left.simps) (simp add: mask_at_Suc and_mask_at byte_bits_step)
qed

lemma ones_follow_bits: "ones_follow 0x80 ps \<longleftrightarrow> True \<in> set (addr_bits ps)"
  by (induction ps) (simp_all add: ones_left_bits [of 0, unfolded mask_at_0])

lemma leading_ones_bits:
  "leading_ones ps n = (n', m, rest) \<Longrightarrow>
     n' = n + of_nat (length (takeWhile (\<lambda>b. b) (addr_bits ps)))
     \<and> (ones_follow m rest \<longleftrightarrow> True \<in> set (dropWhile (\<lambda>b. b) (addr_bits ps)))"
proof (induction ps arbitrary: n)
  case (Cons p ps)
  define k where "k = length (takeWhile (\<lambda>b. b) (byte_bits p))"
  have count: "count_ones p 0x80 n = (n + of_nat k, if k = 8 then None else Some (mask_at k))"
    using count_ones_bits [of 0 p n] by (simp add: mask_at_0 k_def Let_def)
  have le: "k \<le> 8" unfolding k_def using length_takeWhile_le [of "\<lambda>b. b" "byte_bits p"] by simp
  show ?case
  proof (cases "k = 8")
    case True
    then have all: "\<forall>b \<in> set (byte_bits p). b"
      using takeWhile_eq_all_conv [of "\<lambda>b. b" "byte_bits p"] takeWhile_eq_take [of "\<lambda>b. b" "byte_bits p"]
      by (simp add: k_def)
    have "takeWhile (\<lambda>b. b) (byte_bits p @ addr_bits ps) = byte_bits p @ takeWhile (\<lambda>b. b) (addr_bits ps)"
      and "dropWhile (\<lambda>b. b) (byte_bits p @ addr_bits ps) = dropWhile (\<lambda>b. b) (addr_bits ps)"
      using all by (blast intro: takeWhile_append2 dropWhile_append2)+
    then show ?thesis using Cons.IH [of "n + 8"] Cons.prems count True by (simp add: algebra_simps)
  next
    case False
    then have k: "k < 8" using le by simp
    then have "\<not> byte_bits p ! k" using nth_length_takeWhile [of "\<lambda>b. b" "byte_bits p"] by (simp add: k_def)
    then have "\<exists>b \<in> set (byte_bits p). \<not> b" using k by (metis byte_length nth_mem)
    then obtain b where b: "b \<in> set (byte_bits p)" "\<not> b" by blast
    have "m = mask_at k" "rest = p # ps" "n' = n + of_nat k" using Cons.prems count False by simp_all
    moreover have "dropWhile (\<lambda>b. b) (addr_bits (p # ps)) = drop k (byte_bits p) @ addr_bits ps"
      using dropWhile_append1 [of b "byte_bits p" "\<lambda>b. b"] b by (simp add: dropWhile_eq_drop k_def)
    ultimately show ?thesis using takeWhile_append1 [of b "byte_bits p" "\<lambda>b. b"] b k
      by (simp add: k_def [symmetric] ones_left_bits ones_follow_bits)
  qed
qed simp

text \<open>An address of a known family with its bytes and a prefix within it.\<close>

definition addr_ok :: "Address \<Rightarrow> bool" where
  "addr_ok a \<longleftrightarrow> num_bytes a = Some (length (addr_bytes a)) \<and> unat (netmaskbits a) \<le> 8 * length (addr_bytes a)"

abbreviation prefix_len :: "Address \<Rightarrow> nat" where
  "prefix_len a \<equiv> unat (netmaskbits a)"

lemma num_bytes_update [simp]:
  "num_bytes (a\<lparr>addr_bytes := bs\<rparr>) = num_bytes a" "num_bytes (a\<lparr>netmaskbits := n\<rparr>) = num_bytes a"
  by (simp_all add: num_bytes_def)

lemma num_bytes_cases: "num_bytes a = Some n \<Longrightarrow> n = 4 \<or> n = 16"
  by (auto simp: num_bytes_def split: if_splits)

lemma addr_ok_bound: "addr_ok a \<Longrightarrow> prefix_len a \<le> 128"
  using num_bytes_cases [of a] by (auto simp: addr_ok_def)

lemma sint_small: "unat (w :: u32) \<le> 128 \<Longrightarrow> sint w = int (unat w)"
proof -
  assume "unat w \<le> 128"
  then have "uint w \<le> 128" using uint_nat [of w] by linarith
  then show ?thesis unfolding sint_uint uint_nat [symmetric]
    by (intro signed_take_bit_int_eq_self) (auto intro: order_trans [OF _ uint_ge_0])
qed

text \<open>The functions of the program on bits.\<close>

definition network_bits :: "nat \<Rightarrow> bool list \<Rightarrow> bool list" where
  "network_bits n bits = take n bits @ replicate (length bits - n) False"

definition host_bits :: "nat \<Rightarrow> bool list \<Rightarrow> bool list" where
  "host_bits n bits = replicate n False @ drop n bits"

definition broadcast_bits :: "nat \<Rightarrow> bool list \<Rightarrow> bool list" where
  "broadcast_bits n bits = take n bits @ replicate (length bits - n) True"

definition netmask_bits :: "nat \<Rightarrow> nat \<Rightarrow> bool list" where
  "netmask_bits n len = replicate n True @ replicate (len - n) False"

lemmas bits_defs = network_bits_def host_bits_def broadcast_bits_def netmask_bits_def

lemma mask_at_prefix: "drop_bit (n mod 8) 0x80 = mask_at (n mod 8)"
  by (simp add: mask_at_def)

lemma convert_from_mask_bits:
  assumes "writes_bit v f" and "addr_ok a"
  shows "\<exists>bs. convert_from_mask f a = Some (True, a\<lparr>addr_bytes := bs\<rparr>) \<and> length bs = length (addr_bytes a)
    \<and> addr_bits bs = take (prefix_len a) (addr_bits (addr_bytes a))
        @ replicate (8 * length (addr_bytes a) - prefix_len a) v"
proof -
  let ?n = "prefix_len a" and ?num = "length (addr_bytes a)"
  have n: "?n \<le> 8 * ?num" "num_bytes a = Some ?num" using assms(2) by (auto simp: addr_ok_def)
  have "nat (int ?num * 8 - sint (netmaskbits a)) = 8 * ?num - ?n"
    using sint_small [OF addr_ok_bound [OF assms(2)]] n(1) by linarith
  moreover have "8 * (?n div 8) + ?n mod 8 = ?n" by simp
  then obtain bs where "bit_loop f (8 * ?num - ?n) (?n div 8) (mask_at (?n mod 8)) (addr_bytes a) = Some bs"
    "length bs = ?num" "addr_bits bs = take ?n (addr_bits (addr_bytes a)) @ replicate (8 * ?num - ?n) v"
    using bit_loop_bits [OF assms(1), of "?n mod 8" "?n div 8" "8 * ?num - ?n" "addr_bytes a"] n(1) by auto
  ultimately show ?thesis
    using n(2) by (auto simp: convert_from_mask_def unat_div unat_mod mask_at_def)
qed

lemma convertCIDRToNetwork_bits:
  assumes "addr_ok a"
  shows "\<exists>bs. convertCIDRToNetwork a = Some (True, a\<lparr>addr_bytes := bs\<rparr>) \<and> length bs = length (addr_bytes a)
    \<and> addr_bits bs = network_bits (prefix_len a) (addr_bits (addr_bytes a))"
  using convert_from_mask_bits [OF clear_writes assms] by (simp add: convertCIDRToNetwork_def network_bits_def)

lemma convertCIDRToBroadcast_bits:
  assumes "addr_ok a"
  shows "\<exists>bs. convertCIDRToBroadcast a = Some (True, a\<lparr>addr_bytes := bs\<rparr>) \<and> length bs = length (addr_bytes a)
    \<and> addr_bits bs = broadcast_bits (prefix_len a) (addr_bits (addr_bytes a))"
  using convert_from_mask_bits [OF set_writes assms] by (simp add: convertCIDRToBroadcast_def broadcast_bits_def)

lemma convertCIDRToHost_bits:
  assumes "addr_ok a"
  shows "\<exists>bs. convertCIDRToHost a = Some (True, a\<lparr>addr_bytes := bs\<rparr>) \<and> length bs = length (addr_bytes a)
    \<and> addr_bits bs = host_bits (prefix_len a) (addr_bits (addr_bytes a))"
proof -
  have n: "prefix_len a \<le> 8 * length (addr_bytes a)" "num_bytes a = Some (length (addr_bytes a))"
    using assms by (auto simp: addr_ok_def)
  have "nat (sint (netmaskbits a)) = prefix_len a" using sint_small [OF addr_ok_bound [OF assms]] by simp
  moreover obtain bs where "bit_loop clear_bit_op (prefix_len a) 0 0x80 (addr_bytes a) = Some bs"
    "length bs = length (addr_bytes a)" "addr_bits bs = host_bits (prefix_len a) (addr_bits (addr_bytes a))"
    using bit_loop_bits [OF clear_writes, of 0 0 "prefix_len a" "addr_bytes a"] n(1)
    by (auto simp: mask_at_0 host_bits_def)
  ultimately show ?thesis using n(2) by (auto simp: convertCIDRToHost_def)
qed

lemma addr_bits_zero: "addr_bits (replicate n 0) = replicate (8 * n) False"
proof (induction n)
  case (Suc n)
  have "byte_bits 0 = replicate 8 False" by (intro nth_equalityI) simp_all
  then show ?case using Suc by (simp add: replicate_add [symmetric])
qed simp

lemma convertCIDRToNetmask_bits:
  assumes "addr_ok a"
  shows "\<exists>bs. convertCIDRToNetmask a = (True, a\<lparr>addr_bytes := bs\<rparr>) \<and> length bs = length (addr_bytes a)
    \<and> addr_bits bs = netmask_bits (prefix_len a) (8 * length (addr_bytes a))"
proof -
  let ?num = "length (addr_bytes a)"
  have n: "prefix_len a \<le> 8 * ?num" "num_bytes a = Some ?num" using assms by (auto simp: addr_ok_def)
  have "nat (sint (netmaskbits a)) = prefix_len a" using sint_small [OF addr_ok_bound [OF assms]] by simp
  moreover obtain bs where "bit_loop set_bit_op (prefix_len a) 0 0x80 (replicate ?num 0) = Some bs"
    "length bs = ?num" "addr_bits bs = netmask_bits (prefix_len a) (8 * ?num)"
    using bit_loop_bits [OF set_writes, of 0 0 "prefix_len a" "replicate ?num 0"] n(1)
    by (auto simp: mask_at_0 netmask_bits_def addr_bits_zero)
  ultimately show ?thesis using n by (auto simp: convertCIDRToNetmask_def Let_def)
qed

lemma convertNetmaskToCIDR_bits:
  assumes "num_bytes a = Some (length (addr_bytes a))"
  shows "convertNetmaskToCIDR a =
    (let bits = addr_bits (addr_bytes a); n = length (takeWhile (\<lambda>b. b) bits) in
     if True \<in> set (drop n bits) then (False, a\<lparr>addr_type := ERR_INVALID_NETMASK, netmaskbits := of_nat n\<rparr>)
     else (True, a\<lparr>netmaskbits := of_nat n\<rparr>))"
proof -
  obtain n m rest where l: "leading_ones (addr_bytes a) 0 = (n, m, rest)" by (cases "leading_ones (addr_bytes a) 0") auto
  show ?thesis using assms leading_ones_bits [OF l]
    by (simp add: convertNetmaskToCIDR_def l Let_def dropWhile_eq_drop)
qed

section \<open>Combining a network and a host\<close>

abbreviation bits_and :: "bool list \<Rightarrow> bool list \<Rightarrow> bool list" where
  "bits_and xs ys \<equiv> map2 (\<and>) xs ys"

abbreviation bits_or :: "bool list \<Rightarrow> bool list \<Rightarrow> bool list" where
  "bits_or xs ys \<equiv> map2 (\<or>) xs ys"

lemma byte_bits_and: "byte_bits (a AND b) = bits_and (byte_bits a) (byte_bits b)"
  and byte_bits_or: "byte_bits (a OR b) = bits_or (byte_bits a) (byte_bits b)"
  by (auto intro!: nth_equalityI simp: bit_and_iff bit_or_iff)

text \<open>Two sequences have a one at the same place.\<close>

fun overlap :: "bool list \<Rightarrow> bool list \<Rightarrow> bool" where
  "overlap (x # xs) (y # ys) = (x \<and> y \<or> overlap xs ys)"
| "overlap _ _ = False"

lemma overlap_append [simp]: "length xs = length ys \<Longrightarrow> overlap (xs @ xs') (ys @ ys') \<longleftrightarrow> overlap xs ys \<or> overlap xs' ys'"
  by (induction xs ys rule: list_induct2) simp_all

lemma overlap_nth: "length xs = length ys \<Longrightarrow> overlap xs ys \<longleftrightarrow> (\<exists>i < length xs. xs ! i \<and> ys ! i)"
proof (induction xs ys rule: list_induct2)
  case (Cons x xs y ys)
  then show ?case by (simp add: Ex_less_Suc2)
qed simp

lemma byte_and_overlap: "a AND b \<noteq> 0 \<longleftrightarrow> overlap (byte_bits a) (byte_bits b)"
proof
  assume "a AND b \<noteq> 0"
  then obtain l where "l < 8" "bit a l" "bit b l" by (auto simp: bit_eq_iff bit_and_iff)
  then show "overlap (byte_bits a) (byte_bits b)" by (simp add: overlap_nth) (rule exI [of _ "7 - l"], simp)
next
  assume "overlap (byte_bits a) (byte_bits b)"
  then obtain j where "j < 8" "bit a (7 - j)" "bit b (7 - j)" by (auto simp: overlap_nth)
  then have "bit (a AND b) (7 - j)" by (simp add: bit_and_iff)
  then show "a AND b \<noteq> 0" by auto
qed

lemma combine_loop_bits:
  assumes "length ps1 = length ps2" and "length ps2 = length ms"
  shows "(fst (combine_loop ps1 ps2 ms) \<longleftrightarrow> \<not> overlap (addr_bits ms) (addr_bits ps2))
    \<and> length (snd (combine_loop ps1 ps2 ms)) = length ps1
    \<and> (fst (combine_loop ps1 ps2 ms) \<longrightarrow>
        addr_bits (snd (combine_loop ps1 ps2 ms)) = bits_or (bits_and (addr_bits ps1) (addr_bits ms)) (addr_bits ps2))"
  using assms
proof (induction ps1 ps2 ms rule: list_induct3)
  case (Cons p1 ps1 p2 ps2 m ms)
  obtain ok ps where r: "combine_loop ps1 ps2 ms = (ok, ps)" by fastforce
  show ?case
  proof (cases "m AND p2 = 0")
    case True
    then show ?thesis using Cons.IH Cons.hyps byte_and_overlap [of m p2] by (simp add: r byte_bits_and byte_bits_or)
  next
    case False
    then show ?thesis using byte_and_overlap [of m p2] by simp
  qed
qed simp

lemma bits_and_netmask:
  "n \<le> length bits \<Longrightarrow> bits_and bits (netmask_bits n (length bits)) = network_bits n bits"
  by (rule nth_equalityI) (auto simp: netmask_bits_def network_bits_def nth_append)

lemma netmask_overlap:
  "n \<le> length bits \<Longrightarrow> overlap (netmask_bits n (length bits)) bits \<longleftrightarrow> True \<in> set (take n bits)"
proof (induction bits arbitrary: n)
  case (Cons b bits)
  have none: "\<not> overlap (replicate l False) ys" for l ys
    by (induction l arbitrary: ys) (simp, case_tac ys, simp_all)
  show ?case using Cons none [of "Suc (length bits)" "b # bits"] by (cases n) (auto simp: netmask_bits_def)
qed (simp add: netmask_bits_def)

lemma network_or_host:
  "n \<le> length nw \<Longrightarrow> length h = length nw \<Longrightarrow> True \<notin> set (take n h)
    \<Longrightarrow> bits_or (network_bits n nw) h = take n nw @ drop n h"
  by (rule nth_equalityI) (auto simp: network_bits_def nth_append in_set_conv_nth)

lemma combineAddresses_bits:
  assumes "addr_ok network" and "length (addr_bytes host) = length (addr_bytes network)"
  shows "\<exists>bs. length bs = length (addr_bytes network)
    \<and> combineAddresses network host =
        (if True \<in> set (take (prefix_len network) (addr_bits (addr_bytes host)))
         then (False, network\<lparr>addr_type := ERR_COMBINATION_FAILED, addr_bytes := bs\<rparr>)
         else (True, network\<lparr>addr_bytes := bs\<rparr>))
    \<and> (True \<notin> set (take (prefix_len network) (addr_bits (addr_bytes host))) \<longrightarrow>
        addr_bits bs = take (prefix_len network) (addr_bits (addr_bytes network))
          @ drop (prefix_len network) (addr_bits (addr_bytes host)))"
proof -
  let ?n = "prefix_len network" and ?nw = "addr_bits (addr_bytes network)" and ?h = "addr_bits (addr_bytes host)"
  have n: "num_bytes network \<noteq> None" "?n \<le> length ?nw" "?n \<le> length ?h" "length ?h = length ?nw"
    using assms by (auto simp: addr_ok_def)
  obtain ms where ms: "convertCIDRToNetmask network = (True, network\<lparr>addr_bytes := ms\<rparr>)"
    "length ms = length (addr_bytes network)" "addr_bits ms = netmask_bits ?n (length ?nw)"
    using convertCIDRToNetmask_bits [OF assms(1)] by auto
  obtain ok bs where r: "combine_loop (addr_bytes network) (addr_bytes host) ms = (ok, bs)" by fastforce
  have "ok \<longleftrightarrow> True \<notin> set (take ?n ?h)" "length bs = length (addr_bytes network)"
    "ok \<longrightarrow> addr_bits bs = bits_or (network_bits ?n ?nw) ?h"
    using combine_loop_bits [of "addr_bytes network" "addr_bytes host" ms] r assms(2) ms(2,3)
      netmask_overlap [OF n(3)] bits_and_netmask [OF n(2)] n(4) by simp_all
  moreover from this have "combineAddresses network host = (if True \<in> set (take ?n ?h)
    then (False, network\<lparr>addr_type := ERR_COMBINATION_FAILED, addr_bytes := bs\<rparr>) else (True, network\<lparr>addr_bytes := bs\<rparr>))"
    using n(1) ms(1) r by (cases ok) (auto simp: combineAddresses_def)
  ultimately show ?thesis using network_or_host [OF n(2,4)] by (intro exI [of _ bs]) simp
qed

section \<open>What the calculator computes\<close>

text \<open>C8: For an address of a known family whose prefix fits, the conversions succeed and touch only the bytes: the network
  is the prefix followed by zeros, the broadcast address the prefix followed by ones, the host part zeros followed by the
  rest, and the netmask as many ones as the prefix has bits followed by zeros.
\<close>

theorem address_parts:
  assumes "addr_ok a"
  shows "\<exists>nw bc h m.
    convertCIDRToNetwork a = Some (True, a\<lparr>addr_bytes := nw\<rparr>)
    \<and> addr_bits nw = network_bits (prefix_len a) (addr_bits (addr_bytes a))
    \<and> convertCIDRToBroadcast a = Some (True, a\<lparr>addr_bytes := bc\<rparr>)
    \<and> addr_bits bc = broadcast_bits (prefix_len a) (addr_bits (addr_bytes a))
    \<and> convertCIDRToHost a = Some (True, a\<lparr>addr_bytes := h\<rparr>)
    \<and> addr_bits h = host_bits (prefix_len a) (addr_bits (addr_bytes a))
    \<and> convertCIDRToNetmask a = (True, a\<lparr>addr_bytes := m\<rparr>)
    \<and> addr_bits m = netmask_bits (prefix_len a) (8 * length (addr_bytes a))"
  using convertCIDRToNetwork_bits [OF assms] convertCIDRToBroadcast_bits [OF assms] convertCIDRToHost_bits [OF assms]
    convertCIDRToNetmask_bits [OF assms] by blast

definition sample_addr :: Address where
  "sample_addr = \<lparr>addr_type = AF_INET, addr_bytes = [192, 168, 6, 77], netmaskbits = 20\<rparr>"

lemma sample_addr_ok: "addr_ok sample_addr"
  by (simp add: addr_ok_def sample_addr_def num_bytes_def)

theorem address_parts_witness:
  "addr_ok sample_addr \<and> (\<exists>nw. convertCIDRToNetwork sample_addr = Some (True, sample_addr\<lparr>addr_bytes := nw\<rparr>)
     \<and> addr_bits nw = network_bits 20 (addr_bits [192, 168, 6, 77]))"
  using address_parts [OF sample_addr_ok] sample_addr_ok by (auto simp: sample_addr_def)

lemma netmask_takeWhile: "n \<le> len \<Longrightarrow> takeWhile (\<lambda>b. b) (netmask_bits n len) = replicate n True"
  by (cases "len - n") (simp_all add: netmask_bits_def takeWhile_append)

lemma addr_bits_inj: "length bs = length bs' \<Longrightarrow> addr_bits bs = addr_bits bs' \<Longrightarrow> bs = bs'"
proof (induction bs bs' rule: list_induct2)
  case (Cons b bs b' bs')
  then have "byte_bits b = byte_bits b'" "addr_bits bs = addr_bits bs'" by simp_all
  moreover have "bit b l = bit b' l" if "l < 8" for l
    using \<open>byte_bits b = byte_bits b'\<close> that byte_nth [of "7 - l" b] byte_nth [of "7 - l" b'] by simp
  then have "b = b'" by (simp add: bit_eq_iff)
  ultimately show ?case using Cons.IH by simp
qed simp

lemma netmask_bits_conv:
  assumes "n \<le> len"
  shows "length (takeWhile (\<lambda>b. b) (netmask_bits n len)) = n" and "True \<notin> set (drop n (netmask_bits n len))"
  using assms by (simp_all add: netmask_takeWhile) (simp add: netmask_bits_def)

lemma contiguous_ones:
  assumes "True \<notin> set (drop (length (takeWhile (\<lambda>b. b) bits)) bits)"
  shows "bits = netmask_bits (length (takeWhile (\<lambda>b. b) bits)) (length bits)"
proof -
  let ?t = "takeWhile (\<lambda>b. b) bits"
  have "?t = replicate (length ?t) True" by (rule replicate_eqI) (auto dest: set_takeWhileD)
  moreover have "drop (length ?t) bits = replicate (length bits - length ?t) False"
    by (rule replicate_eqI) (use assms in auto)
  moreover have "bits = ?t @ drop (length ?t) bits" by (metis append_take_drop_id takeWhile_eq_take)
  ultimately show ?thesis by (simp add: netmask_bits_def)
qed

text \<open>C9: The netmask of a prefix is read back as that prefix. A netmask is accepted exactly if its ones are contiguous from the
  left; the prefix is then their number and gives the netmask back, and otherwise the address is marked as invalid.
\<close>

theorem netmask_cidr_roundtrip:
  assumes "num_bytes a = Some (length (addr_bytes a))"
  shows "(addr_ok a \<longrightarrow> (\<exists>m. convertCIDRToNetmask a = (True, m) \<and> convertNetmaskToCIDR m = (True, m)))
    \<and> (\<forall>n \<le> 8 * length (addr_bytes a). addr_bits (addr_bytes a) = netmask_bits n (8 * length (addr_bytes a)) \<longrightarrow>
        convertNetmaskToCIDR a = (True, a\<lparr>netmaskbits := of_nat n\<rparr>)
        \<and> convertCIDRToNetmask (a\<lparr>netmaskbits := of_nat n\<rparr>) = (True, a\<lparr>netmaskbits := of_nat n\<rparr>))
    \<and> ((\<forall>n \<le> 8 * length (addr_bytes a). addr_bits (addr_bytes a) \<noteq> netmask_bits n (8 * length (addr_bytes a))) \<longrightarrow>
        fst (convertNetmaskToCIDR a) = False \<and> addr_type (snd (convertNetmaskToCIDR a)) = ERR_INVALID_NETMASK)"
proof (intro conjI impI allI)
  let ?len = "8 * length (addr_bytes a)"
  have small: "unat (of_nat n :: u32) = n" if "n \<le> ?len" for n
    using that num_bytes_cases [OF assms] by (auto simp: unat_of_nat)
  have reads: "convertNetmaskToCIDR b = (True, b\<lparr>netmaskbits := of_nat n\<rparr>)"
    if "n \<le> ?len" "num_bytes b = num_bytes a" "length (addr_bytes b) = length (addr_bytes a)"
      "addr_bits (addr_bytes b) = netmask_bits n ?len" for b n
    using convertNetmaskToCIDR_bits [of b] netmask_bits_conv [OF that(1)] that assms by (simp add: Let_def)
  show "\<exists>m. convertCIDRToNetmask a = (True, m) \<and> convertNetmaskToCIDR m = (True, m)" if ok: "addr_ok a"
  proof -
    obtain bs where bs: "convertCIDRToNetmask a = (True, a\<lparr>addr_bytes := bs\<rparr>)" "length bs = length (addr_bytes a)"
      "addr_bits bs = netmask_bits (prefix_len a) ?len" using convertCIDRToNetmask_bits [OF ok] by blast
    have "prefix_len a \<le> ?len" using ok by (simp add: addr_ok_def)
    from reads [OF this, of "a\<lparr>addr_bytes := bs\<rparr>"] bs show ?thesis by simp
  qed
  fix n assume n: "n \<le> ?len" "addr_bits (addr_bytes a) = netmask_bits n ?len"
  show "convertNetmaskToCIDR a = (True, a\<lparr>netmaskbits := of_nat n\<rparr>)" using reads [of n a] n by simp
  let ?a = "a\<lparr>netmaskbits := of_nat n\<rparr>"
  have "addr_ok ?a" using assms n(1) small [OF n(1)] by (simp add: addr_ok_def)
  from convertCIDRToNetmask_bits [OF this] obtain bs where "convertCIDRToNetmask ?a = (True, ?a\<lparr>addr_bytes := bs\<rparr>)"
    "length bs = length (addr_bytes a)" "addr_bits bs = addr_bits (addr_bytes a)" using n small [OF n(1)] by auto
  then show "convertCIDRToNetmask ?a = (True, ?a)" using addr_bits_inj [of bs "addr_bytes a"] by simp
next
  assume no: "\<forall>n \<le> 8 * length (addr_bytes a). addr_bits (addr_bytes a) \<noteq> netmask_bits n (8 * length (addr_bytes a))"
  have "True \<in> set (drop (length (takeWhile (\<lambda>b. b) (addr_bits (addr_bytes a)))) (addr_bits (addr_bytes a)))"
    using contiguous_ones [of "addr_bits (addr_bytes a)"] no length_takeWhile_le [of "\<lambda>b. b" "addr_bits (addr_bytes a)"]
    by (auto simp del: addr_bits_simps)
  then show "fst (convertNetmaskToCIDR a) = False" "addr_type (snd (convertNetmaskToCIDR a)) = ERR_INVALID_NETMASK"
    using convertNetmaskToCIDR_bits [OF assms] by (simp_all add: Let_def)
qed

theorem netmask_cidr_roundtrip_witness:
  "\<exists>m. convertCIDRToNetmask sample_addr = (True, m) \<and> convertNetmaskToCIDR m = (True, m)"
proof -
  have "num_bytes sample_addr = Some (length (addr_bytes sample_addr))" using sample_addr_ok by (simp add: addr_ok_def)
  from netmask_cidr_roundtrip [OF this] sample_addr_ok show ?thesis by blast
qed

text \<open>C10: A network and a host part combine exactly if the host part has no bit within the prefix, and the result is the prefix
  of the one followed by the rest of the other; in particular the network and the host part of an address give it back.
\<close>

theorem combine_network_host:
  assumes "addr_ok a" and "length (addr_bytes host) = length (addr_bytes a)"
  shows "(fst (combineAddresses a host) \<longleftrightarrow> True \<notin> set (take (prefix_len a) (addr_bits (addr_bytes host))))
    \<and> (fst (combineAddresses a host) \<longrightarrow> addr_bits (addr_bytes (snd (combineAddresses a host))) =
        take (prefix_len a) (addr_bits (addr_bytes a)) @ drop (prefix_len a) (addr_bits (addr_bytes host)))
    \<and> (\<exists>nw h. convertCIDRToNetwork a = Some (True, nw) \<and> convertCIDRToHost a = Some (True, h)
        \<and> combineAddresses nw h = (True, a))"
proof -
  let ?n = "prefix_len a"
  have n: "?n \<le> 8 * length (addr_bytes a)" using assms(1) by (simp add: addr_ok_def)
  obtain nw h where c: "convertCIDRToNetwork a = Some (True, a\<lparr>addr_bytes := nw\<rparr>)" "length nw = length (addr_bytes a)"
      "addr_bits nw = network_bits ?n (addr_bits (addr_bytes a))"
    and d: "convertCIDRToHost a = Some (True, a\<lparr>addr_bytes := h\<rparr>)" "length h = length (addr_bytes a)"
      "addr_bits h = host_bits ?n (addr_bits (addr_bytes a))"
    using convertCIDRToNetwork_bits [OF assms(1)] convertCIDRToHost_bits [OF assms(1)] by blast
  have ok: "addr_ok (a\<lparr>addr_bytes := nw\<rparr>)" using assms(1) c(2) by (simp add: addr_ok_def)
  have "True \<notin> set (take ?n (addr_bits h))"
    and "take ?n (addr_bits nw) @ drop ?n (addr_bits h) = addr_bits (addr_bytes a)"
    using n c(3) d(3) by (simp_all add: bits_defs)
  with combineAddresses_bits [OF ok, of "a\<lparr>addr_bytes := h\<rparr>"] c(2) d(2)
  obtain bs where "combineAddresses (a\<lparr>addr_bytes := nw\<rparr>) (a\<lparr>addr_bytes := h\<rparr>) = (True, a\<lparr>addr_bytes := bs\<rparr>)"
    "length bs = length (addr_bytes a)" "addr_bits bs = addr_bits (addr_bytes a)" by auto
  then have "combineAddresses (a\<lparr>addr_bytes := nw\<rparr>) (a\<lparr>addr_bytes := h\<rparr>) = (True, a)"
    using addr_bits_inj [of bs "addr_bytes a"] by simp
  moreover obtain bs' where "length bs' = length (addr_bytes a)"
    "combineAddresses a host = (if True \<in> set (take ?n (addr_bits (addr_bytes host)))
       then (False, a\<lparr>addr_type := ERR_COMBINATION_FAILED, addr_bytes := bs'\<rparr>) else (True, a\<lparr>addr_bytes := bs'\<rparr>))"
    "True \<notin> set (take ?n (addr_bits (addr_bytes host))) \<longrightarrow>
       addr_bits bs' = take ?n (addr_bits (addr_bytes a)) @ drop ?n (addr_bits (addr_bytes host))"
    using combineAddresses_bits [OF assms] by blast
  ultimately show ?thesis using c(1) d(1) by auto
qed

theorem combine_network_host_witness:
  "\<exists>nw h. convertCIDRToNetwork sample_addr = Some (True, nw) \<and> convertCIDRToHost sample_addr = Some (True, h)
     \<and> combineAddresses nw h = (True, sample_addr)"
  using combine_network_host [OF sample_addr_ok refl] by blast

end
