(* ===== verification/Net_Program.thy ===== *)
theory Net_Program
  imports Net_Calc
begin

unbundle bit_operations_syntax

text \<open>
  The rest of \<open>netcalc.c\<close>: reading addresses, reverse DNS names, messages and the main program. The arguments are
  strings that a slash splits in place; what the program prints is a list of texts, each for one of the two streams.
  \<open>inet_pton\<close> and \<open>inet_ntop\<close> belong to the C library of the router and are members of a record; the
  uninitialised \<open>Address\<close> objects of the stack are arguments. None is undefined behaviour.
\<close>

record inet_functions =
  inet_pton :: "int \<Rightarrow> c_string \<Rightarrow> byte list option"
  inet_ntop :: "int \<Rightarrow> byte list \<Rightarrow> nat \<Rightarrow> c_string option"

section \<open>Reading addresses\<close>

definition parseIPv4Address :: "inet_functions \<Rightarrow> c_string \<Rightarrow> Address \<Rightarrow> bool \<times> Address" where
  "parseIPv4Address lib s result =
     (let result' = result\<lparr>addr_type := AF_INET, netmaskbits := 32\<rparr> in
      case inet_pton lib AF_INET s of
        Some bs \<Rightarrow> (True, result'\<lparr>addr_bytes := bs\<rparr>)
      | None \<Rightarrow> (False, result'\<lparr>addr_type := ERR_INVALID_ADDRESS\<rparr>))"

definition parseIPv6Address :: "inet_functions \<Rightarrow> c_string \<Rightarrow> Address \<Rightarrow> bool \<times> Address" where
  "parseIPv6Address lib s result =
     (let result' = result\<lparr>addr_type := AF_INET6, netmaskbits := 128\<rparr> in
      case inet_pton lib AF_INET6 s of
        Some bs \<Rightarrow> (True, result'\<lparr>addr_bytes := bs\<rparr>)
      | None \<Rightarrow> (False, result'\<lparr>addr_type := ERR_INVALID_ADDRESS\<rparr>))"

definition ipv4_chars :: c_string where "ipv4_chars = ''0123456789.''"
definition ipv6_chars :: c_string where "ipv6_chars = ''0123456789abcdefABCDEF:.''"

text \<open>\<open>strspn(s, accept) == strlen(s)\<close>.\<close>

definition consists_of :: "c_string \<Rightarrow> c_string \<Rightarrow> bool" where
  "consists_of accept s \<longleftrightarrow> length (takeWhile (\<lambda>c. c \<in> set accept) s) = length s"

definition parseAddressWithoutMask :: "inet_functions \<Rightarrow> c_string \<Rightarrow> Address \<Rightarrow> bool \<times> Address" where
  "parseAddressWithoutMask lib s result =
     (if consists_of ipv4_chars s then parseIPv4Address lib s result
      else if consists_of ipv6_chars s then parseIPv6Address lib s result
      else (False, result\<lparr>addr_type := ERR_INVALID_ADDRESS\<rparr>))"

text \<open>\<open>sscanf(s, "%u", \<dots>)\<close> reads like \<open>strtoul\<close> and keeps the lower 32 bits of the \<open>unsigned long\<close>.\<close>

definition scan_unsigned :: "c_string \<Rightarrow> u32 option" where
  "scan_unsigned s = (let (v, rest) = strtoul 10 s in if rest = s then None else Some (ucast v))"

text \<open>An argument: its text, and after a slash was overwritten the text behind it.\<close>

type_synonym argument = "c_string \<times> c_string option"

definition parseAddressWithMask :: "inet_functions \<Rightarrow> c_string \<Rightarrow> Address \<Rightarrow> bool \<times> Address \<times> argument" where
  "parseAddressWithMask lib s result =
     (let arg = (case strchr s (CHR ''/'') of None \<Rightarrow> (s, None) | Some (p, q) \<Rightarrow> (p, Some q));
          (ok, result') = parseAddressWithoutMask lib (fst arg) result in
      if ok then
        (case snd arg of
           None \<Rightarrow> (True, result', arg)
         | Some maskbegin \<Rightarrow>
             (case scan_unsigned maskbegin of
                None \<Rightarrow> (False, result'\<lparr>addr_type := ERR_INVALID_NETBITMASK\<rparr>, arg)
              | Some bits \<Rightarrow>
                  if netmaskbits result' < bits then (False, result'\<lparr>addr_type := ERR_INVALID_NETBITMASK\<rparr>, arg)
                  else (True, result'\<lparr>netmaskbits := bits\<rparr>, arg)))
      else (False, result', arg))"

section \<open>Reverse DNS names\<close>

text \<open>\<open>snprintf\<close> into a buffer of one more character than the digits allowed.\<close>

definition convertNumberToString :: "u32 \<Rightarrow> nat \<Rightarrow> (u32 \<Rightarrow> c_string) \<Rightarrow> c_string option" where
  "convertNumberToString v maxDigits format =
     (if format v = [] then None else Some (take maxDigits (format v)))"

definition prependString :: "c_string option \<Rightarrow> c_string \<Rightarrow> c_string option" where
  "prependString buf prefix = Some (prefix @ (case buf of None \<Rightarrow> [] | Some s \<Rightarrow> s))"

definition hex_digit :: "nat \<Rightarrow> char" where
  "hex_digit d = (if d < 10 then digit_char d else char_of (87 + d))"

fun nat_to_hex :: "nat \<Rightarrow> c_string" where
  "nat_to_hex n = (if n < 16 then [hex_digit n] else nat_to_hex (n div 16) @ [hex_digit (n mod 16)])"

declare nat_to_hex.simps [simp del]

definition format_dec :: "u32 \<Rightarrow> c_string" where "format_dec v = nat_to_dec (unat v) @ ''.''"
definition format_hex :: "u32 \<Rightarrow> c_string" where "format_hex v = nat_to_hex (unat v) @ ''.''"

record dns_style =
  bitsPerEntry :: nat
  maxChars :: nat
  dns_format :: "u32 \<Rightarrow> c_string"
  dns_suffix :: c_string

definition dns_style_of :: "Address \<Rightarrow> dns_style option" where
  "dns_style_of addr =
     (if addr_type addr = AF_INET
      then Some \<lparr>bitsPerEntry = 8, maxChars = 3 + 1, dns_format = format_dec, dns_suffix = ''in-addr.arpa''\<rparr>
      else if addr_type addr = AF_INET6
      then Some \<lparr>bitsPerEntry = 4, maxChars = 1 + 1, dns_format = format_hex, dns_suffix = ''ip6.arpa''\<rparr>
      else None)"

definition initialMask :: "nat \<Rightarrow> u32" where
  "initialMask bpe = ucast (NOT (drop_bit bpe (NOT 0 :: byte)) :: byte)"

definition initialShiftCount :: "nat \<Rightarrow> nat" where
  "initialShiftCount bpe = (8 div bpe - 1) * bpe"

definition prepend_entry :: "dns_style \<Rightarrow> c_string option \<Rightarrow> u32 \<Rightarrow> c_string option" where
  "prepend_entry st result v =
     (case convertNumberToString v (maxChars st) (dns_format st) of
        None \<Rightarrow> result | Some str \<Rightarrow> prependString result str)"

text \<open>The loop over the full entries; it ends with the bits left over, the cursor, the mask, the shift and the name.\<close>

function dnsrev_entries ::
    "dns_style \<Rightarrow> byte list \<Rightarrow> nat \<Rightarrow> nat \<Rightarrow> u32 \<Rightarrow> nat \<Rightarrow> c_string option \<Rightarrow> (nat \<times> nat \<times> u32 \<times> nat \<times> c_string option) option" where
  "dnsrev_entries st bs bits i msk shiftCount result =
     (if bits < bitsPerEntry st \<or> bitsPerEntry st = 0 then Some (bits, i, msk, shiftCount, result)
      else if length bs \<le> i then None
      else
        (let result' = prepend_entry st result (drop_bit shiftCount (ucast (bs ! i) AND msk));
             msk' = drop_bit (bitsPerEntry st) msk; bits' = bits - bitsPerEntry st in
         if msk' = 0 then dnsrev_entries st bs bits' (i + 1) (initialMask (bitsPerEntry st)) (initialShiftCount (bitsPerEntry st)) result'
         else dnsrev_entries st bs bits' i msk' (shiftCount - bitsPerEntry st) result'))"
  by pat_completeness auto
termination
  by (relation "measure (\<lambda>(st, bs, bits, i, msk, shiftCount, result). bits)") auto

declare dnsrev_entries.simps [simp del]

text \<open>Clearing the bits of the mask that the prefix does not cover, from the right.\<close>

primrec clear_low :: "nat \<Rightarrow> u32 \<Rightarrow> u32 \<Rightarrow> u32" where
  "clear_low 0 b msk = msk"
| "clear_low (Suc n) b msk = clear_low n (push_bit 1 b) (msk AND NOT b)"

text \<open>All values with the bits of the start value under the mask; the loop need not end for an empty mask.\<close>

partial_function (option) dnsrev_values :: "u32 \<Rightarrow> u32 \<Rightarrow> u32 \<Rightarrow> u32 list option" where
  "dnsrev_values msk startValue v =
     (if v AND msk = startValue then Option.bind (dnsrev_values msk startValue (v + 1)) (\<lambda>vs. Some (v # vs)) else Some [])"

text \<open>A line needs the part of the name before it, which is a null pointer before the first full entry.\<close>

definition dnsrev_line :: "dns_style \<Rightarrow> c_string option \<Rightarrow> u32 \<Rightarrow> c_string option" where
  "dnsrev_line st result v =
     (case (convertNumberToString v (maxChars st) (dns_format st), result) of
        (Some str, Some r) \<Rightarrow> Some (str @ r @ dns_suffix st @ ''\<newline>'')
      | (Some str, None) \<Rightarrow> None
      | (None, _) \<Rightarrow> Some [])"

definition convertCIDRToDNSRev :: "Address \<Rightarrow> c_string list option" where
  "convertCIDRToDNSRev addr =
     (case dns_style_of addr of
        None \<Rightarrow> None
      | Some st \<Rightarrow>
          (case dnsrev_entries st (addr_bytes addr) (unat (netmaskbits addr)) 0 (initialMask (bitsPerEntry st))
                  (initialShiftCount (bitsPerEntry st)) None of
             None \<Rightarrow> None
           | Some (bits, i, msk, shiftCount, result) \<Rightarrow>
               if 0 < bits then
                 (if length (addr_bytes addr) \<le> i then None
                  else
                    (let msk' = clear_low (bitsPerEntry st - bits) (push_bit shiftCount 1) msk;
                         startValue = drop_bit shiftCount (ucast (addr_bytes addr ! i) AND msk') in
                     case dnsrev_values (drop_bit shiftCount msk') startValue startValue of
                       None \<Rightarrow> None
                     | Some vs \<Rightarrow> those (map (dnsrev_line st result) vs)))
               else
                 (case result of
                    Some r \<Rightarrow> Some [r @ dns_suffix st @ ''\<newline>'']
                  | None \<Rightarrow> Some [])))"

section \<open>Messages\<close>

datatype stream_output = Stdout c_string | Stderr c_string

text \<open>\<open>addressToString\<close>; memory is available.\<close>

definition addressToString :: "inet_functions \<Rightarrow> Address \<Rightarrow> c_string option" where
  "addressToString lib addr =
     (if addr_type addr = AF_INET then inet_ntop lib (addr_type addr) (addr_bytes addr) (4 * 4)
      else if addr_type addr = AF_INET6 then inet_ntop lib (addr_type addr) (addr_bytes addr) (8 * 5)
      else None)"

type_synonym run = "(stream_output list \<times> int) option"

text \<open>The result of an argument that was never set to a text is a null pointer.\<close>

definition makeResult :: "inet_functions \<Rightarrow> Address \<Rightarrow> argument option \<Rightarrow> bool \<Rightarrow> run" where
  "makeResult lib result err includeNetmask =
     (if addr_type result < 0 then
        (if addr_type result = ERR_COMBINATION_FAILED
         then Some ([Stderr ''address combination failed due to overlapping\<newline>''], - addr_type result + 1)
         else
           (case err of
              None \<Rightarrow> None
            | Some (s, behind) \<Rightarrow>
                if addr_type result = ERR_INVALID_ADDRESS
                then Some ([Stderr (''invalid address '' @ apostrophe @ s @ apostrophe @ ''\<newline>'')], - addr_type result + 1)
                else if addr_type result = ERR_INVALID_NETBITMASK
                then map_option (\<lambda>t. ([Stderr (''invalid CIDR netmask '' @ apostrophe @ t @ apostrophe @ ''\<newline>'')], - addr_type result + 1)) behind
                else if addr_type result = ERR_INVALID_NETMASK
                then Some ([Stderr (''invalid netmask '' @ apostrophe @ s @ apostrophe @ ''\<newline>'')], - addr_type result + 1)
                else Some ([Stderr (''unknown error '' @ int_to_dec (addr_type result) @ '' in '' @ apostrophe @ s @ apostrophe @ ''\<newline>'')],
                           - addr_type result + 1)))
      else
        (case addressToString lib result of
           Some str \<Rightarrow>
             Some ([Stdout (str @ (if includeNetmask then ''/'' @ nat_to_dec (unat (netmaskbits result)) else []) @ ''\<newline>'')], 0)
         | None \<Rightarrow>
             map_option (\<lambda>(s, _). ([Stderr (''address conversion failed for '' @ apostrophe @ s @ apostrophe @ ''\<newline>'')],
               - ERR_CONVERSION_FAILED + 1)) err))"

definition usage_entry :: "c_string \<Rightarrow> c_string \<Rightarrow> stream_output" where
  "usage_entry pgm_name t = Stderr (''    '' @ pgm_name @ t @ ''\<newline>'')"

definition usage :: "c_string \<Rightarrow> stream_output list \<times> int" where
  "usage pgm_name =
     ([Stderr ''usage:\<newline>'', Stderr ''\<newline>'', Stderr ''  canonicalize address:\<newline>'', usage_entry pgm_name '' canonicalize IPADDR'',
       Stderr ''\<newline>'', Stderr ''  check address validity:\<newline>'', usage_entry pgm_name '' isip IPADDR'',
       usage_entry pgm_name '' isipv4 IPV4ADDR'', usage_entry pgm_name '' isipv6 IPV6ADDR'',
       Stderr ''\<newline>'', Stderr ''  print broadcast address:\<newline>'', usage_entry pgm_name '' broadcast IPADDR NETMASK'',
       usage_entry pgm_name '' broadcast IPADDR/NETMASKBITS'',
       Stderr ''\<newline>'', Stderr ''  print netmask:\<newline>'', usage_entry pgm_name '' netmask IPADDR/NETMASKBITS'',
       Stderr ''\<newline>'', Stderr ''  print netmaskbits:\<newline>'', usage_entry pgm_name '' netmaskbits NETMASK'',
       usage_entry pgm_name '' netmaskbits IPADDR/NETMASKBITS'',
       Stderr ''\<newline>'', Stderr ''  print network part of address:\<newline>'', usage_entry pgm_name '' network IPADDR NETMASK'',
       usage_entry pgm_name '' network IPADDR/NETMASKBITS'',
       Stderr ''\<newline>'', Stderr ''  print host part of address:\<newline>'', usage_entry pgm_name '' host IPADDR NETMASK'',
       usage_entry pgm_name '' host IPADDR/NETMASKBITS'',
       Stderr ''\<newline>'', Stderr ''  combine network and host parts:\<newline>'', usage_entry pgm_name '' combine IPADDR NETMASK IPADDR2'',
       usage_entry pgm_name '' combine IPADDR/NETMASKBITS IPADDR2'',
       Stderr ''\<newline>'', Stderr ''  compute reverse DNS names:\<newline>'', usage_entry pgm_name '' dnsrev IPADDR NETMASK'',
       usage_entry pgm_name '' dnsrev IPADDR/NETMASKBITS'', Stderr ''\<newline>''], 1)"

section \<open>The main program\<close>

text \<open>The queries that print no address; an exit code of 0 means yes.\<close>

definition query_exit :: "bool \<Rightarrow> run" where
  "query_exit b = Some ([], if b then 0 else 1)"

definition main_isip :: "inet_functions \<Rightarrow> Address \<Rightarrow> c_string list \<Rightarrow> (Address \<Rightarrow> bool) \<Rightarrow> run" where
  "main_isip lib addr argv test =
     (if length argv = 3 then query_exit (test (snd (parseAddressWithoutMask lib (argv ! 2) addr)))
      else Some (usage (argv ! 0)))"

definition main_netmask :: "inet_functions \<Rightarrow> Address \<Rightarrow> c_string list \<Rightarrow> run" where
  "main_netmask lib addr argv =
     (if length argv = 3 then
        (let (ok, addr', arg) = parseAddressWithMask lib (argv ! 2) addr in
         makeResult lib (if ok then snd (convertCIDRToNetmask addr') else addr') (Some arg) False)
      else Some (usage (argv ! 0)))"

definition main_netmaskbits :: "inet_functions \<Rightarrow> Address \<Rightarrow> c_string list \<Rightarrow> run" where
  "main_netmaskbits lib addr argv =
     (if length argv = 3 then
        (let (ok, addr') = parseAddressWithoutMask lib (argv ! 2) addr;
             (addr'', arg) =
               (if ok then (snd (convertNetmaskToCIDR addr'), (argv ! 2, None))
                else snd (parseAddressWithMask lib (argv ! 2) addr')) in
         if isValidAddress addr'' then Some ([Stdout (nat_to_dec (unat (netmaskbits addr'')) @ ''\<newline>'')], 0)
         else makeResult lib addr'' (Some arg) False)
      else Some (usage (argv ! 0)))"

text \<open>
  The address of the other commands, given with a prefix in one argument or with a netmask in a further one: the outcome of
  the program when it ends here, or the address and the argument for messages.
\<close>

definition main_address :: "inet_functions \<Rightarrow> Address \<Rightarrow> Address \<Rightarrow> nat \<Rightarrow> c_string list \<Rightarrow> run + (Address \<times> argument option)" where
  "main_address lib addr msk minArg argv =
     (if length argv < minArg \<or> minArg + 1 < length argv then Inl (Some (usage (argv ! 0)))
      else if length argv = minArg then
        (let (ok, addr', arg) = parseAddressWithMask lib (argv ! 2) addr in Inr (addr', Some arg))
      else
        (let (ok, addr') = parseAddressWithoutMask lib (argv ! 2) addr in
         if ok then
           (let (okm, msk') = parseAddressWithoutMask lib (argv ! 3) msk;
                (okc, msk'') = (if okm then convertNetmaskToCIDR msk' else (False, msk')) in
            if okc then
              (if addr_type addr' = addr_type msk'' then Inr (addr'\<lparr>netmaskbits := netmaskbits msk''\<rparr>, None)
               else Inl (Some ([Stderr ''address and netmask must belong to the same address family\<newline>''], - ERR_INVALID_NETMASK + 1)))
            else
              Inr (addr'\<lparr>addr_type := if addr_type msk'' = ERR_INVALID_ADDRESS then ERR_INVALID_NETMASK else addr_type msk''\<rparr>,
                   Some (argv ! 3, None)))
         else
           (let (ok', addr'', arg) = parseAddressWithMask lib (argv ! 2) addr' in
            if ok' then Inl (Some (usage (argv ! 0))) else Inr (addr'', Some arg))))"

text \<open>The commands that change the address and print it; \<open>err\<close> becomes the second argument when the address is valid.\<close>

definition main_convert ::
    "inet_functions \<Rightarrow> (Address \<Rightarrow> (bool \<times> Address) option) \<Rightarrow> Address \<Rightarrow> argument \<Rightarrow> argument option \<Rightarrow> run" where
  "main_convert lib f addr arg2 err =
     (if isValidAddress addr then
        (case f addr of None \<Rightarrow> None | Some (_, addr') \<Rightarrow> makeResult lib addr' (Some arg2) False)
      else makeResult lib addr err False)"

definition main_combine :: "inet_functions \<Rightarrow> Address \<Rightarrow> Address \<Rightarrow> argument \<Rightarrow> argument option \<Rightarrow> c_string \<Rightarrow> run" where
  "main_combine lib addr addr2 arg2 err host =
     (if isValidAddress addr then
        (let (ok, addr2') = parseAddressWithoutMask lib host addr2 in
         if ok then
           (if addr_type addr = addr_type addr2' then makeResult lib (snd (combineAddresses addr addr2')) (Some arg2) True
            else Some ([Stderr ''addresses to be combined must belong to the same address family\<newline>''], - ERR_INVALID_ADDRESS + 1))
         else makeResult lib addr2' (Some (host, None)) False)
      else makeResult lib addr err False)"

definition main_dnsrev :: "inet_functions \<Rightarrow> Address \<Rightarrow> argument option \<Rightarrow> run" where
  "main_dnsrev lib addr err =
     (if isValidAddress addr then map_option (\<lambda>ls. (map Stdout ls, 0)) (convertCIDRToDNSRev addr)
      else makeResult lib addr err False)"

text \<open>The second argument as the commands see it: split if the address was read with its prefix.\<close>

definition main_command :: "inet_functions \<Rightarrow> Address \<Rightarrow> c_string list \<Rightarrow> Address \<Rightarrow> argument option \<Rightarrow> run" where
  "main_command lib addr2 argv addr err =
     (let cmd = argv ! 1; arg2 = (case err of None \<Rightarrow> (argv ! 2, None) | Some a \<Rightarrow> a) in
      if cmd = ''dnsrev'' then main_dnsrev lib addr err
      else if cmd = ''canonicalize'' then makeResult lib addr err True
      else if cmd = ''network'' then main_convert lib convertCIDRToNetwork addr arg2 err
      else if cmd = ''host'' then main_convert lib convertCIDRToHost addr arg2 err
      else if cmd = ''broadcast'' then
        (if addr_type addr = AF_INET6 then Some ([Stdout ''ff02::1\<newline>''], 0)
         else main_convert lib convertCIDRToBroadcast addr arg2 err)
      else if cmd = ''combine'' then main_combine lib addr addr2 arg2 err (argv ! (length argv - 1))
      else Some (usage (argv ! 0)))"

definition netcalc_main :: "inet_functions \<Rightarrow> Address \<Rightarrow> Address \<Rightarrow> Address \<Rightarrow> c_string list \<Rightarrow> run" where
  "netcalc_main lib addr msk addr2 argv =
     (if argv = [] then None
      else if length argv < 3 \<or> 5 < length argv then Some (usage (argv ! 0))
      else if argv ! 1 = ''isip'' then main_isip lib addr argv isValidAddress
      else if argv ! 1 = ''isipv4'' then main_isip lib addr argv (\<lambda>a. addr_type a = AF_INET)
      else if argv ! 1 = ''isipv6'' then main_isip lib addr argv (\<lambda>a. addr_type a = AF_INET6)
      else if argv ! 1 = ''netmask'' then main_netmask lib addr argv
      else if argv ! 1 = ''netmaskbits'' then main_netmaskbits lib addr argv
      else
        (case main_address lib addr msk (if argv ! 1 = ''combine'' then 4 else 3) argv of
           Inl r \<Rightarrow> r
         | Inr (addr', err) \<Rightarrow> main_command lib addr2 argv addr' err))"

section \<open>Reverse DNS names as entries of the address\<close>

text \<open>The position of an entry within its byte, and its value.\<close>

definition entry_shift :: "nat \<Rightarrow> nat \<Rightarrow> nat" where
  "entry_shift bpe q = (8 div bpe - 1 - q mod (8 div bpe)) * bpe"

definition entry_mask :: "nat \<Rightarrow> nat \<Rightarrow> u32" where
  "entry_mask bpe q = push_bit (entry_shift bpe q) (mask bpe)"

definition dns_entry :: "nat \<Rightarrow> byte list \<Rightarrow> nat \<Rightarrow> u32" where
  "dns_entry bpe bs q = take_bit bpe (drop_bit (entry_shift bpe q) (ucast (bs ! (q div (8 div bpe)))))"

lemma masked_shift: "drop_bit s (x AND push_bit s (mask n)) = take_bit n (drop_bit s (x :: u32))"
  by (rule bit_word_eqI) (auto simp: bit_simps dest: bit_imp_le_length)

lemma dns_entry_less: "n < 32 \<Longrightarrow> unat (dns_entry n bs q) < 2 ^ n"
  by (simp add: dns_entry_def unsigned_take_bit_eq take_bit_nat_less_exp)

text \<open>The two ways to write entries.\<close>

definition style_ok :: "dns_style \<Rightarrow> bool" where
  "style_ok st \<longleftrightarrow> bitsPerEntry st = 8 \<and> maxChars st = 4 \<and> dns_format st = format_dec
     \<or> bitsPerEntry st = 4 \<and> maxChars st = 2 \<and> dns_format st = format_hex"

lemma dns_style_ok: "dns_style_of a = Some st \<Longrightarrow> style_ok st"
  by (auto simp: dns_style_of_def style_ok_def split: if_splits)

lemma dec_byte_length: "n < 256 \<Longrightarrow> length (nat_to_dec n) \<le> 3"
  by (subst nat_to_dec.simps, clarsimp, subst nat_to_dec.simps, clarsimp, subst nat_to_dec.simps, simp add: div_mult2_eq [symmetric])

lemma entry_text:
  assumes "style_ok st" and "unat v < 2 ^ bitsPerEntry st"
  shows "convertNumberToString v (maxChars st) (dns_format st) = Some (dns_format st v)"
  using assms(1) unfolding style_ok_def
proof (elim disjE conjE)
  assume st: "bitsPerEntry st = 8" "maxChars st = 4" "dns_format st = format_dec"
  have "length (nat_to_dec (unat v)) \<le> 3" using dec_byte_length [of "unat v"] assms(2) st(1) by simp
  then show ?thesis using st by (simp add: convertNumberToString_def format_dec_def)
next
  assume st: "bitsPerEntry st = 4" "maxChars st = 2" "dns_format st = format_hex"
  then have "length (nat_to_hex (unat v)) = 1" using assms(2) by (simp add: nat_to_hex.simps)
  then show ?thesis using st by (simp add: convertNumberToString_def format_hex_def)
qed

lemma initial_masks: "initialMask 8 = 255" "initialMask 4 = 240"
  by code_simp+

lemma initial_entry:
  "style_ok st \<Longrightarrow> initialMask (bitsPerEntry st) = entry_mask (bitsPerEntry st) 0
     \<and> initialShiftCount (bitsPerEntry st) = entry_shift (bitsPerEntry st) 0"
  by (auto simp: style_ok_def initial_masks initialShiftCount_def entry_mask_def entry_shift_def mask_eq_exp_minus_1 push_bit_eq_mult)

lemma entry_mask_next:
  assumes "style_ok st"
  shows "(if drop_bit (bitsPerEntry st) (entry_mask (bitsPerEntry st) q) = 0
      then Suc q div (8 div bitsPerEntry st) = Suc (q div (8 div bitsPerEntry st)) \<and> Suc q mod (8 div bitsPerEntry st) = 0
      else Suc q div (8 div bitsPerEntry st) = q div (8 div bitsPerEntry st)
        \<and> entry_mask (bitsPerEntry st) (Suc q) = drop_bit (bitsPerEntry st) (entry_mask (bitsPerEntry st) q)
        \<and> entry_shift (bitsPerEntry st) (Suc q) = entry_shift (bitsPerEntry st) q - bitsPerEntry st)"
  using assms unfolding style_ok_def
proof (elim disjE conjE)
  assume "bitsPerEntry st = 8"
  then show ?thesis by (simp add: entry_mask_def entry_shift_def mask_eq_exp_minus_1 drop_bit_eq_div)
next
  assume "bitsPerEntry st = 4"
  then show ?thesis
    by (cases "even q") (simp_all add: entry_mask_def entry_shift_def mask_eq_exp_minus_1 push_bit_eq_mult drop_bit_eq_div
        odd_iff_mod_2_eq_one even_iff_mod_2_eq_zero mod_Suc div_Suc)
qed

lemma entry_wrap: "q mod (8 div bpe) = 0 \<Longrightarrow> entry_mask bpe q = entry_mask bpe 0 \<and> entry_shift bpe q = entry_shift bpe 0"
  by (simp add: entry_mask_def entry_shift_def)

lemma entry_value:
  "drop_bit (entry_shift b q) (ucast (bs ! (q div (8 div b)))) AND drop_bit (entry_shift b q) (entry_mask b q) = dns_entry b bs q"
  using masked_shift [of "entry_shift b q" "ucast (bs ! (q div (8 div b)))" b] by (simp add: dns_entry_def entry_mask_def)

lemma dnsrev_entries_spec:
  assumes "style_ok st" and "q + bits div bitsPerEntry st \<le> 8 div bitsPerEntry st * length bs"
  shows "dnsrev_entries st bs bits (q div (8 div bitsPerEntry st)) (entry_mask (bitsPerEntry st) q) (entry_shift (bitsPerEntry st) q) result =
    (let q' = q + bits div bitsPerEntry st in
     Some (bits mod bitsPerEntry st, q' div (8 div bitsPerEntry st), entry_mask (bitsPerEntry st) q', entry_shift (bitsPerEntry st) q',
       foldl (prepend_entry st) result (map (dns_entry (bitsPerEntry st) bs) [q..<q'])))"
  using assms(2)
proof (induction "bits div bitsPerEntry st" arbitrary: bits q result)
  case 0
  have "0 < bitsPerEntry st" using assms(1) by (auto simp: style_ok_def)
  then have "bits < bitsPerEntry st" using 0 by (simp add: div_eq_0_iff)
  then show ?case using 0 by (simp add: dnsrev_entries.simps)
next
  case (Suc k)
  let ?b = "bitsPerEntry st" and ?e = "8 div bitsPerEntry st"
  have b: "0 < ?b" "0 < ?e" using assms(1) by (auto simp: style_ok_def)
  have bits: "\<not> bits < ?b" using Suc.hyps(2) by (metis div_less nat.distinct(1))
  then have k: "k = (bits - ?b) div ?b" "(bits - ?b) mod ?b = bits mod ?b"
    using Suc.hyps(2) b(1) by (simp_all add: le_div_geq le_mod_geq)
  have "q < ?e * length bs" using Suc.prems Suc.hyps(2) by linarith
  then have i: "q div ?e < length bs" using b(2) by (simp add: less_mult_imp_div_less mult.commute)
  let ?r = "prepend_entry st result (dns_entry ?b bs q)"
  have "dnsrev_entries st bs bits (q div ?e) (entry_mask ?b q) (entry_shift ?b q) result
    = dnsrev_entries st bs (bits - ?b) (Suc q div ?e) (entry_mask ?b (Suc q)) (entry_shift ?b (Suc q)) ?r"
    using entry_mask_next [OF assms(1), of q] entry_wrap [of "Suc q" ?b] initial_entry [OF assms(1)] bits b i
    by (subst dnsrev_entries.simps) (auto simp: Let_def entry_value split: if_splits)
  also have "\<dots> = (let q' = Suc q + k in
     Some (bits mod ?b, q' div ?e, entry_mask ?b q', entry_shift ?b q',
       foldl (prepend_entry st) ?r (map (dns_entry ?b bs) [Suc q..<q'])))"
    using Suc.hyps(1) [OF k(1), of "Suc q" ?r] Suc.prems Suc.hyps(2) k by simp
  finally show ?case using Suc.hyps(2) [symmetric] by (simp add: Let_def upt_conv_Cons del: upt_Suc)
qed

text \<open>The part of an entry that the prefix does not cover runs through all values.\<close>

lemma clear_low_spec: "clear_low n (push_bit s 1) m = m AND NOT (push_bit s (mask n))"
proof (induction n arbitrary: s m)
  case (Suc n)
  have "clear_low (Suc n) (push_bit s 1) m = (m AND NOT (push_bit s 1)) AND NOT (push_bit (Suc s) (mask n))"
    using Suc.IH [of "Suc s" "m AND NOT (push_bit s 1)"] push_bit_push_bit [of 1 s "1 :: u32"]
    by (simp only: clear_low.simps plus_1_eq_Suc)
  also have "\<dots> = m AND NOT (push_bit s (mask (Suc n)))"
    by (rule bit_word_eqI) (simp only: bit_and_iff bit_not_iff bit_push_bit_iff bit_mask_iff bit_1_iff possible_bit_word, auto)
  finally show ?case .
qed simp

lemma cleared_mask:
  assumes "t + r = b"
  shows "entry_mask b q AND NOT (push_bit (entry_shift b q) (mask t)) = push_bit (entry_shift b q + t) (mask r)"
  using assms by (intro bit_word_eqI) (auto simp: entry_mask_def bit_simps)

lemma nat_masked: "(x :: nat) AND push_bit t (mask r) = (x div 2 ^ t mod 2 ^ r) * 2 ^ t"
proof -
  have "x AND push_bit t (mask r) = push_bit t (take_bit r (drop_bit t x))"
    by (rule bit_eqI) (auto simp: bit_simps)
  then show ?thesis by (simp add: push_bit_eq_mult take_bit_eq_mod drop_bit_eq_div)
qed

lemma unat_masked:
  fixes v :: u32
  assumes "t + r \<le> 8"
  shows "unat (v AND push_bit t (mask r)) = (unat v div 2 ^ t mod 2 ^ r) * 2 ^ t"
proof -
  have "unat (push_bit t (mask r) :: u32) = push_bit t (mask r)"
    using assms by (intro bit_eqI) (auto simp: bit_simps)
  then show ?thesis by (simp only: unsigned_and_eq nat_masked)
qed

lemma masked_start:
  assumes "t + r \<le> 8" and "c < 2 ^ r" and "i \<le> 2 ^ t"
  shows "(of_nat (c * 2 ^ t + i) :: u32) AND push_bit t (mask r) = of_nat (c * 2 ^ t)
    \<longleftrightarrow> (c * 2 ^ t + i) div 2 ^ t mod 2 ^ r = c"
proof -
  have "Suc c * 2 ^ t \<le> 2 ^ r * 2 ^ t" using assms(2) by (intro mult_right_mono) simp_all
  also have "\<dots> \<le> 2 ^ 8" using assms(1) power_increasing [of "t + r" 8 "2 :: nat"] by (simp add: power_add mult.commute)
  finally have "c * 2 ^ t + 2 ^ t \<le> 256" by simp
  then have "c * 2 ^ t + i \<le> 256" "c * 2 ^ t \<le> 256" using assms(3) by (linarith, linarith)
  then have small: "c * 2 ^ t + i < 2 ^ 32" "c * 2 ^ t < 2 ^ 32" by simp_all
  then have "unat (of_nat (c * 2 ^ t + i) :: u32) = c * 2 ^ t + i" "unat (of_nat (c * 2 ^ t) :: u32) = c * 2 ^ t"
    by (simp_all add: unat_of_nat take_bit_nat_eq_self del: of_nat_add of_nat_mult)
  then show ?thesis by (simp only: word_unat_eq_iff unat_masked [OF assms(1)]) simp
qed

lemma dnsrev_values_spec:
  assumes "t + r \<le> 8" and "0 < r" and "c < 2 ^ r" and "i \<le> 2 ^ t"
  shows "dnsrev_values (push_bit t (mask r)) (of_nat (c * 2 ^ t)) (of_nat (c * 2 ^ t + i))
    = Some (map of_nat [c * 2 ^ t + i..<Suc c * 2 ^ t])"
  using assms(4)
proof (induction "2 ^ t - i" arbitrary: i)
  case 0
  then have i: "i = 2 ^ t" by simp
  have "Suc c mod 2 ^ r \<noteq> c"
    using assms(3) one_less_power [of "2 :: nat" r] assms(2) by (cases "Suc c = 2 ^ r") auto
  then have "(c * 2 ^ t + i) div 2 ^ t mod 2 ^ r \<noteq> c" by (simp add: i)
  then show ?case using masked_start [OF assms(1,3) 0(2)]
    by (subst dnsrev_values.simps) (simp add: i del: of_nat_add of_nat_mult)
next
  case (Suc d)
  then have i: "i < 2 ^ t" by simp
  then have "(c * 2 ^ t + i) div 2 ^ t mod 2 ^ r = c" using assms(3) by simp
  moreover have "dnsrev_values (push_bit t (mask r)) (of_nat (c * 2 ^ t)) (of_nat (c * 2 ^ t + Suc i))
    = Some (map of_nat [c * 2 ^ t + Suc i..<Suc c * 2 ^ t])" using Suc.hyps(2) i by (intro Suc.hyps(1)) simp_all
  moreover have "(of_nat (c * 2 ^ t + i) :: u32) + 1 = of_nat (c * 2 ^ t + Suc i)" by simp
  moreover have "[c * 2 ^ t + i..<Suc c * 2 ^ t] = (c * 2 ^ t + i) # [c * 2 ^ t + Suc i..<Suc c * 2 ^ t]"
    using i by (simp add: upt_conv_Cons)
  ultimately show ?case using masked_start [OF assms(1,3) Suc.prems]
    by (subst dnsrev_values.simps) (simp del: of_nat_add of_nat_mult of_nat_Suc)
qed

text \<open>The entries of the prefix in reverse order, each written as the family does, and the domain of the family.\<close>

definition dns_name :: "dns_style \<Rightarrow> byte list \<Rightarrow> nat \<Rightarrow> c_string" where
  "dns_name st bs k = concat (map (\<lambda>q. dns_format st (dns_entry (bitsPerEntry st) bs q)) (rev [0..<k]))"

lemma style_bits: "style_ok st \<Longrightarrow> bitsPerEntry st = 8 \<or> bitsPerEntry st = 4"
  by (auto simp: style_ok_def)

lemma prepend_entries:
  assumes "style_ok st"
  shows "foldl (prepend_entry st) None (map (dns_entry (bitsPerEntry st) bs) [0..<k]) =
    (if k = 0 then None else Some (dns_name st bs k))"
proof (induction k)
  case (Suc k)
  have "unat (dns_entry (bitsPerEntry st) bs k) < 2 ^ bitsPerEntry st"
    using style_bits [OF assms] by (intro dns_entry_less) auto
  then show ?case using Suc by (simp add: prepend_entry_def entry_text [OF assms] prependString_def dns_name_def)
qed simp

lemma those_Some: "(\<And>v. v \<in> set vs \<Longrightarrow> f v = Some (g v)) \<Longrightarrow> those (map f vs) = Some (map g vs)"
  by (induction vs) simp_all

lemma start_value:
  assumes "style_ok st" and "0 < r" and "r < bitsPerEntry st"
  defines "b \<equiv> bitsPerEntry st" and "t \<equiv> bitsPerEntry st - r"
  shows "drop_bit (entry_shift b q) (ucast (bs ! (q div (8 div b))) AND push_bit (entry_shift b q + t) (mask r))
    = (of_nat (unat (dns_entry b bs q) div 2 ^ t * 2 ^ t) :: u32)"
proof -
  have masked: "drop_bit (entry_shift b q) (ucast (bs ! (q div (8 div b))) AND push_bit (entry_shift b q + t) (mask r))
    = dns_entry b bs q AND push_bit t (mask r)"
    using assms(3) style_bits [OF assms(1)]
    by (intro bit_word_eqI) (auto simp: dns_entry_def b_def t_def bit_simps entry_shift_def add.assoc split: if_splits)
  have "unat (dns_entry b bs q) div 2 ^ t < 2 ^ r"
    using dns_entry_less [of b bs q] style_bits [OF assms(1)] assms(3)
    by (auto simp: b_def t_def less_mult_imp_div_less power_add [symmetric])
  then have "unat (dns_entry b bs q AND push_bit t (mask r)) = unat (dns_entry b bs q) div 2 ^ t * 2 ^ t"
    using style_bits [OF assms(1)] assms(3) by (subst unat_masked) (auto simp: b_def t_def)
  from this [symmetric] show ?thesis unfolding masked by (simp only: of_nat_unat ucast_id)
qed

lemma partial_entry:
  fixes st :: dns_style and r q :: nat and bs :: "byte list"
  assumes "style_ok st" and "0 < r" and "r < bitsPerEntry st"
  defines "b \<equiv> bitsPerEntry st" and "t \<equiv> bitsPerEntry st - r"
  defines "e \<equiv> unat (dns_entry b bs q) div 2 ^ t" and "m \<equiv> clear_low t (push_bit (entry_shift b q) 1) (entry_mask b q)"
  defines "s \<equiv> drop_bit (entry_shift b q) (ucast (bs ! (q div (8 div b))) AND m)"
  shows "dnsrev_values (drop_bit (entry_shift b q) m) s s = Some (map of_nat [e * 2 ^ t..<Suc e * 2 ^ t])"
    and "Suc e * 2 ^ t \<le> 2 ^ b"
proof -
  have b: "b = 8 \<or> b = 4" "t + r = b" using style_bits [OF assms(1)] assms(3) by (simp_all add: b_def t_def)
  have e: "e < 2 ^ r" using dns_entry_less [of b bs q] b
    by (auto simp: e_def less_mult_imp_div_less power_add [symmetric] add.commute)
  then have "Suc e * 2 ^ t \<le> 2 ^ r * 2 ^ t" by (intro mult_right_mono) simp_all
  then show "Suc e * 2 ^ t \<le> 2 ^ b" using b(2) by (simp add: power_add [symmetric] add.commute)
  have m: "m = push_bit (entry_shift b q + t) (mask r)" unfolding m_def clear_low_spec by (rule cleared_mask [OF b(2)])
  then have "drop_bit (entry_shift b q) m = push_bit t (mask r)"
    using b by (intro bit_word_eqI) (auto simp: bit_simps entry_shift_def)
  moreover have "s = of_nat (e * 2 ^ t)"
    using start_value [OF assms(1,2,3), of q bs] unfolding s_def m e_def b_def t_def .
  ultimately show "dnsrev_values (drop_bit (entry_shift b q) m) s s = Some (map of_nat [e * 2 ^ t..<Suc e * 2 ^ t])"
    using dnsrev_values_spec [of t r e 0] assms(2) b e by auto
qed

lemma dnsrev_lines:
  assumes "style_ok st" and "\<And>v. v \<in> set vs \<Longrightarrow> v < 2 ^ bitsPerEntry st"
  shows "those (map (dnsrev_line st (Some r)) (map of_nat vs)) =
    Some (map (\<lambda>v. dns_format st (of_nat v) @ r @ dns_suffix st @ ''\<newline>'') vs)"
    and "vs \<noteq> [] \<Longrightarrow> those (map (dnsrev_line st None) (map of_nat vs)) = None"
proof -
  have num: "convertNumberToString (of_nat v) (maxChars st) (dns_format st) = Some (dns_format st (of_nat v))"
    if "v \<in> set vs" for v
  proof (rule entry_text [OF assms(1)])
    show "unat (of_nat v :: u32) < 2 ^ bitsPerEntry st"
      using assms(2) [OF that] style_bits [OF assms(1)] by (auto simp: unat_of_nat take_bit_nat_eq_self)
  qed
  then show "those (map (dnsrev_line st (Some r)) (map of_nat vs)) =
      Some (map (\<lambda>v. dns_format st (of_nat v) @ r @ dns_suffix st @ ''\<newline>'') vs)"
    by (simp add: those_Some dnsrev_line_def)
  show "those (map (dnsrev_line st None) (map of_nat vs)) = None" if "vs \<noteq> []"
    using num that by (cases vs) (simp_all add: dnsrev_line_def)
qed

lemma convertCIDRToDNSRev_names:
  assumes "addr_ok a" and "dns_style_of a = Some st"
  shows "convertCIDRToDNSRev a =
    (let b = bitsPerEntry st; k = prefix_len a div b; r = prefix_len a mod b; t = b - r;
         e = unat (dns_entry b (addr_bytes a) k) div 2 ^ t; name = dns_name st (addr_bytes a) k @ dns_suffix st @ ''\<newline>'' in
     if r = 0 then Some (if k = 0 then [] else [name])
     else if k = 0 then None
     else Some (map (\<lambda>v. dns_format st (of_nat v) @ name) [e * 2 ^ t..<Suc e * 2 ^ t]))"
proof -
  let ?b = "bitsPerEntry st" and ?bs = "addr_bytes a"
  let ?k = "prefix_len a div ?b" and ?r = "prefix_len a mod ?b"
  let ?t = "?b - ?r" and ?p = "if ?k = 0 then None else Some (dns_name st ?bs ?k)"
  let ?e = "unat (dns_entry ?b ?bs ?k) div 2 ^ ?t"
  note st = dns_style_ok [OF assms(2)]
  have b: "?b = 8 \<or> ?b = 4" using style_bits [OF st] .
  have n: "prefix_len a \<le> 8 * length ?bs" using assms(1) by (simp add: addr_ok_def)
  have "8 div ?b * ?b = 8" using b by auto
  then have n': "prefix_len a \<le> 8 div ?b * length ?bs * ?b" using n by (metis mult.assoc mult.commute)
  then have k: "?k \<le> 8 div ?b * length ?bs" using b by (metis div_le_mono nonzero_mult_div_cancel_right zero_neq_numeral)
  have entries: "dnsrev_entries st ?bs (prefix_len a) 0 (initialMask ?b) (initialShiftCount ?b) None
    = Some (?r, ?k div (8 div ?b), entry_mask ?b ?k, entry_shift ?b ?k, ?p)"
    using dnsrev_entries_spec [OF st, of 0 "prefix_len a" ?bs None] k initial_entry [OF st] prepend_entries [OF st, of ?bs ?k]
    by (simp add: Let_def)
  show ?thesis
  proof (cases "?r = 0")
    case True
    then show ?thesis using assms(2) entries by (simp add: convertCIDRToDNSRev_def Let_def)
  next
    case False
    then have r: "0 < ?r" "?r < ?b" using b by auto
    have "?k < 8 div ?b * length ?bs" using k n' False b
      by (metis le_neq_implies_less mod_mult_self2_is_0 le_antisym mult.commute times_div_less_eq_dividend)
    then have i: "?k div (8 div ?b) < length ?bs" by (simp add: less_mult_imp_div_less mult.commute)
    note part = partial_entry [OF st r, where bs = ?bs and q = ?k]
    have lines: "convertCIDRToDNSRev a = those (map (dnsrev_line st ?p) (map of_nat [?e * 2 ^ ?t..<Suc ?e * 2 ^ ?t]))"
      using assms(2) entries r(1) i part(1) by (simp add: convertCIDRToDNSRev_def Let_def del: mult_Suc upt_Suc)
    have small: "v < 2 ^ ?b" if "v \<in> set [?e * 2 ^ ?t..<Suc ?e * 2 ^ ?t]" for v using that part(2) by simp
    have "[?e * 2 ^ ?t..<Suc ?e * 2 ^ ?t] \<noteq> []" by simp
    note dnsrev_lines(2) [OF st small this] dnsrev_lines(1) [OF st small, where r = "dns_name st ?bs ?k"]
    then show ?thesis unfolding lines Let_def if_not_P [OF False]
      by (cases "?k = 0") (simp_all only: if_True if_False simp_thms append_assoc)
  qed
qed

text \<open>C11: The reverse names of an address are made from the full entries of its prefix, the last first, and the domain of the
  family: one name if the prefix ends with an entry, else one for every value of the entry it ends in, in order. A prefix
  that ends in the first entry makes the program print a null pointer.
\<close>

theorem dnsrev_spec:
  assumes "addr_ok a" and "dns_style_of a = Some st"
  shows "convertCIDRToDNSRev a =
    (let b = bitsPerEntry st; k = prefix_len a div b; r = prefix_len a mod b; t = b - r;
         e = unat (dns_entry b (addr_bytes a) k) div 2 ^ t; name = dns_name st (addr_bytes a) k @ dns_suffix st @ ''\<newline>'' in
     if r = 0 then Some (if k = 0 then [] else [name])
     else if k = 0 then None
     else Some (map (\<lambda>v. dns_format st (of_nat v) @ name) [e * 2 ^ t..<Suc e * 2 ^ t]))"
  using assms by (rule convertCIDRToDNSRev_names)

definition sample_dns :: Address where
  "sample_dns = \<lparr>addr_type = AF_INET, addr_bytes = [192, 168, 6, 77], netmaskbits = 23\<rparr>"

theorem dnsrev_spec_witness:
  "convertCIDRToDNSRev sample_dns = Some [''6.168.192.in-addr.arpa\<newline>'', ''7.168.192.in-addr.arpa\<newline>'']"
proof -
  let ?st = "\<lparr>bitsPerEntry = 8, maxChars = 3 + 1, dns_format = format_dec, dns_suffix = ''in-addr.arpa''\<rparr>"
  have ok: "addr_ok sample_dns" by (simp add: addr_ok_def sample_dns_def num_bytes_def)
  have st: "dns_style_of sample_dns = Some ?st" by (simp add: dns_style_of_def sample_dns_def)
  have "(let b = bitsPerEntry ?st; k = prefix_len sample_dns div b; r = prefix_len sample_dns mod b; t = b - r;
       e = unat (dns_entry b (addr_bytes sample_dns) k) div 2 ^ t;
       name = dns_name ?st (addr_bytes sample_dns) k @ dns_suffix ?st @ ''\<newline>'' in
     if r = 0 then Some (if k = 0 then [] else [name])
     else if k = 0 then None
     else Some (map (\<lambda>v. dns_format ?st (of_nat v) @ name) [e * 2 ^ t..<Suc e * 2 ^ t])) =
     Some [''6.168.192.in-addr.arpa\<newline>'', ''7.168.192.in-addr.arpa\<newline>'']"
    by code_simp
  then show ?thesis using dnsrev_spec [OF ok st] by (rule trans [rotated])
qed

section \<open>The answers of the program\<close>

text \<open>
  What is relied upon of the functions of the C library: the sizes of addresses, and that \<open>INET_ADDRSTRLEN\<close>, which
  is 16, bytes have room for every IPv4 address as text. The room documented for IPv6 addresses is
  \<open>INET6_ADDRSTRLEN\<close>, which is 46; since the program offers 40 bytes, nothing is assumed of IPv6 addresses as text.
\<close>

definition inet_ok :: "inet_functions \<Rightarrow> bool" where
  "inet_ok lib \<longleftrightarrow>
     (\<forall>s bs. inet_pton lib AF_INET s = Some bs \<longrightarrow> length bs = 4)
     \<and> (\<forall>s bs. inet_pton lib AF_INET6 s = Some bs \<longrightarrow> length bs = 16)
     \<and> (\<forall>bs. length bs = 4 \<longrightarrow> inet_ntop lib AF_INET bs 16 \<noteq> None)"

lemma AF_neq [simp]: "AF_INET \<noteq> AF_INET6" "AF_INET6 \<noteq> AF_INET" "0 \<le> AF_INET" "0 \<le> AF_INET6"
  by (simp_all add: address_kinds)

lemma addr_ok_valid: "addr_ok a \<Longrightarrow> isValidAddress a"
  by (auto simp: addr_ok_def isValidAddress_def num_bytes_def split: if_splits)

lemma parse_without_mask:
  assumes "inet_ok lib" and "parseAddressWithoutMask lib s r = (ok, a)"
  shows "if ok then addr_ok a \<and> prefix_len a = 8 * length (addr_bytes a) else addr_type a = ERR_INVALID_ADDRESS"
  using assms
  by (auto simp: parseAddressWithoutMask_def parseIPv4Address_def parseIPv6Address_def inet_ok_def addr_ok_def num_bytes_def Let_def
      split: if_splits option.splits)

lemma parse_with_mask:
  assumes "inet_ok lib" and "parseAddressWithMask lib s r = (ok, a, arg)"
  shows "if ok then addr_ok a else addr_type a = ERR_INVALID_ADDRESS \<or> addr_type a = ERR_INVALID_NETBITMASK \<and> snd arg \<noteq> None"
proof -
  define arg0 where "arg0 = (case strchr s (CHR ''/'') of None \<Rightarrow> (s, None) | Some (p, q) \<Rightarrow> (p, Some q))"
  obtain ok0 a0 where p: "parseAddressWithoutMask lib (fst arg0) r = (ok0, a0)" by fastforce
  show ?thesis using parse_without_mask [OF assms(1) p] assms(2)
    by (auto simp: parseAddressWithMask_def arg0_def [symmetric] p Let_def addr_ok_def word_le_nat_alt [symmetric] not_less
        word_less_nat_alt split: if_splits option.splits)
qed

definition conversion_failed :: "c_string \<Rightarrow> stream_output list \<times> int" where
  "conversion_failed s =
     ([Stderr (''address conversion failed for '' @ apostrophe @ s @ apostrophe @ ''\<newline>'')], - ERR_CONVERSION_FAILED + 1)"

lemma makeResult_ok:
  "addr_ok a \<Longrightarrow> makeResult lib a err inc =
     (case addressToString lib a of
        Some t \<Rightarrow> Some ([Stdout (t @ (if inc then ''/'' @ nat_to_dec (prefix_len a) else []) @ ''\<newline>'')], 0)
      | None \<Rightarrow> map_option (\<lambda>(s, _). conversion_failed s) err)"
  using addr_ok_valid [of a] by (simp add: makeResult_def isValidAddress_def conversion_failed_def split: option.split)

lemma addressToString_None:
  "inet_ok lib \<Longrightarrow> addr_ok a \<Longrightarrow>
     addressToString lib a = None \<longleftrightarrow> addr_type a = AF_INET6 \<and> inet_ntop lib AF_INET6 (addr_bytes a) 40 = None"
  by (auto simp: addr_ok_def num_bytes_def addressToString_def inet_ok_def split: if_splits)

text \<open>A failure that has a message.\<close>

definition reported :: "Address \<Rightarrow> argument option \<Rightarrow> bool" where
  "reported a err \<longleftrightarrow> addr_type a = ERR_COMBINATION_FAILED
     \<or> (addr_type a = ERR_INVALID_ADDRESS \<or> addr_type a = ERR_INVALID_NETMASK) \<and> err \<noteq> None
     \<or> addr_type a = ERR_INVALID_NETBITMASK \<and> (\<exists>s t. err = Some (s, Some t))"

lemma makeResult_reported:
  "reported a err \<Longrightarrow> \<exists>m. makeResult lib a err inc = Some ([Stderr m], - addr_type a + 1) \<and> \<not> isValidAddress a"
  by (auto simp: reported_def makeResult_def address_kinds isValidAddress_def)

text \<open>A run that prints to the standard output exactly if its exit code is 0.\<close>

definition run_ok :: "run \<Rightarrow> bool" where
  "run_ok r \<longleftrightarrow> (\<exists>out c. r = Some (out, c) \<and> 0 \<le> c \<and> c \<le> 8
     \<and> (\<forall>x \<in> set out. (case x of Stdout _ \<Rightarrow> c = 0 | Stderr _ \<Rightarrow> c \<noteq> 0)))"

lemma usage_ok [simp]: "run_ok (Some (usage p))"
  by (simp add: run_ok_def usage_def usage_entry_def)

lemma query_ok [simp]: "run_ok (query_exit b)"
  by (simp add: run_ok_def query_exit_def)

lemma stdout_ok [simp]: "run_ok (Some ([Stdout t], 0))"
  by (simp add: run_ok_def)

lemma conversion_failed_ok [simp]: "run_ok (Some (conversion_failed t))"
  by (simp add: run_ok_def conversion_failed_def address_kinds)

text \<open>A failed conversion that has no argument for its message is the only way to print a null pointer.\<close>

definition unprintable :: "inet_functions \<Rightarrow> Address \<Rightarrow> argument option \<Rightarrow> bool" where
  "unprintable lib a err \<longleftrightarrow> addr_ok a \<and> err = None \<and> addressToString lib a = None"

lemma result_ok: "addr_ok a \<Longrightarrow> \<not> unprintable lib a err \<Longrightarrow> run_ok (makeResult lib a err inc)"
  by (auto simp: makeResult_ok unprintable_def split: option.split)

lemma reported_ok: "reported a err \<Longrightarrow> run_ok (makeResult lib a err inc)"
  using makeResult_reported [of a err lib inc] by (auto simp: run_ok_def reported_def address_kinds)

lemma result_run_ok: "addr_ok a \<or> reported a err \<Longrightarrow> \<not> unprintable lib a err \<Longrightarrow> run_ok (makeResult lib a err inc)"
  using result_ok reported_ok by blast

lemma result_arg_ok: "addr_ok a \<or> reported a (Some arg) \<Longrightarrow> run_ok (makeResult lib a (Some arg) inc)"
  by (rule result_run_ok) (simp_all add: unprintable_def)

lemma invalid_address_reported: "addr_type a = ERR_INVALID_ADDRESS \<Longrightarrow> reported a (Some arg)"
  by (simp add: reported_def)

lemma parse_with_mask_result:
  "inet_ok lib \<Longrightarrow> parseAddressWithMask lib s r = (ok, a, arg) \<Longrightarrow> if ok then addr_ok a else reported a (Some arg)"
  using parse_with_mask [of lib s r ok a arg] by (cases arg) (auto simp: reported_def split: if_splits)

lemma mask_conversion:
  assumes "addr_ok a" and "convertNetmaskToCIDR a = (ok, a')"
  shows "if ok then addr_ok a' \<and> num_bytes a' = num_bytes a else addr_type a' = ERR_INVALID_NETMASK"
proof -
  let ?k = "length (takeWhile (\<lambda>b. b) (addr_bits (addr_bytes a)))"
  have k: "?k \<le> 8 * length (addr_bytes a)" using length_takeWhile_le [of _ "addr_bits (addr_bytes a)"] by simp
  have num: "num_bytes a = Some (length (addr_bytes a))" using assms(1) by (simp add: addr_ok_def)
  have "unat (of_nat ?k :: u32) = ?k" using k num_bytes_cases [OF num] by (auto simp: unat_of_nat take_bit_nat_eq_self)
  then show ?thesis using assms(2) k num convertNetmaskToCIDR_bits [OF num]
    by (auto simp: Let_def addr_ok_def split: if_splits)
qed

lemma num_bytes_same: "addr_type a = addr_type b \<Longrightarrow> num_bytes a = num_bytes b"
  by (simp add: num_bytes_def)

abbreviation address_result :: "run + (Address \<times> argument option) \<Rightarrow> bool" where
  "address_result r \<equiv> (case r of Inl run \<Rightarrow> run_ok run | Inr (a, err) \<Rightarrow> addr_ok a \<or> reported a err)"

lemma main_address_netmask:
  assumes lib: "inet_ok lib" and len: "length argv = minArg + 1"
    and p: "parseAddressWithoutMask lib (argv ! 2) addr = (True, a)"
  shows "address_result (main_address lib addr msk minArg argv)"
proof -
  obtain okm m where m: "parseAddressWithoutMask lib (argv ! 3) msk = (okm, m)" by fastforce
  obtain okc m' where c: "convertNetmaskToCIDR m = (okc, m')" by fastforce
  have a: "addr_ok a" using parse_without_mask [OF lib p] by simp
  consider "\<not> okm" | "okm" "\<not> okc" | "okm" "okc" by blast
  then show ?thesis
  proof cases
    case 1
    then show ?thesis using len p m parse_without_mask [OF lib m]
      by (simp add: main_address_def reported_def address_kinds)
  next
    case 2
    then have "addr_ok m" using parse_without_mask [OF lib m] by simp
    then show ?thesis using len p m c 2 mask_conversion [OF _ c] by (simp add: main_address_def reported_def address_kinds)
  next
    case 3
    then have "addr_ok m" using parse_without_mask [OF lib m] by simp
    then have m': "addr_ok m'" using mask_conversion [OF _ c] 3 by simp
    have "addr_ok (a\<lparr>netmaskbits := netmaskbits m'\<rparr>)" if "addr_type a = addr_type m'"
      using a m' num_bytes_same [OF that] by (simp add: addr_ok_def)
    then show ?thesis using len p m c 3 by (simp add: main_address_def run_ok_def address_kinds)
  qed
qed

lemma main_address_result:
  assumes "inet_ok lib"
  shows "address_result (main_address lib addr msk minArg argv)"
proof -
  consider "length argv < minArg \<or> minArg + 1 < length argv" | "length argv = minArg" | "length argv = minArg + 1" by linarith
  then show ?thesis
  proof cases
    case 1
    then show ?thesis by (simp add: main_address_def)
  next
    case 2
    obtain ok a arg where p: "parseAddressWithMask lib (argv ! 2) addr = (ok, a, arg)" using prod_cases3 by blast
    then show ?thesis using 2 parse_with_mask_result [OF assms p] by (auto simp: main_address_def split: if_splits)
  next
    case 3
    obtain ok a where p: "parseAddressWithoutMask lib (argv ! 2) addr = (ok, a)" by fastforce
    obtain ok' a' arg where q: "parseAddressWithMask lib (argv ! 2) a = (ok', a', arg)" using prod_cases3 by blast
    show ?thesis using main_address_netmask [OF assms 3] 3 p q parse_with_mask_result [OF assms q]
      by (cases ok) (auto simp: main_address_def)
  qed
qed

lemma main_convert_ok:
  assumes "addr_ok a \<or> reported a err"
    and "addr_ok a \<Longrightarrow> \<exists>bs. f a = Some (True, a\<lparr>addr_bytes := bs\<rparr>) \<and> length bs = length (addr_bytes a)"
  shows "run_ok (main_convert lib f a arg2 err)"
proof (cases "addr_ok a")
  case True
  then obtain bs where "f a = Some (True, a\<lparr>addr_bytes := bs\<rparr>)" "length bs = length (addr_bytes a)" using assms(2) by blast
  moreover from this True have "addr_ok (a\<lparr>addr_bytes := bs\<rparr>)" by (simp add: addr_ok_def)
  ultimately show ?thesis using True result_arg_ok by (simp add: main_convert_def addr_ok_valid)
next
  case False
  then show ?thesis using assms(1) makeResult_reported [of a err] reported_ok [of a err] by (auto simp: main_convert_def)
qed

lemma main_combine_ok:
  assumes "inet_ok lib" and "addr_ok a \<or> reported a err"
  shows "run_ok (main_combine lib a addr2 arg2 err host)"
proof (cases "addr_ok a")
  case True
  obtain ok h where p: "parseAddressWithoutMask lib host addr2 = (ok, h)" by fastforce
  note h = parse_without_mask [OF assms(1) p]
  show ?thesis
  proof (cases "ok \<and> addr_type a = addr_type h")
    case same: True
    then have "length (addr_bytes h) = length (addr_bytes a)" using h True num_bytes_same [of a h] by (simp add: addr_ok_def)
    from combineAddresses_bits [OF True this] True
    have "addr_ok (snd (combineAddresses a h)) \<or> reported (snd (combineAddresses a h)) (Some arg2)"
      by (cases "True \<in> set (take (prefix_len a) (addr_bits (addr_bytes h)))") (auto simp: addr_ok_def reported_def)
    then show ?thesis using same True p result_arg_ok by (simp add: main_combine_def addr_ok_valid)
  next
    case False
    then show ?thesis using True p h reported_ok [OF invalid_address_reported]
      by (cases ok) (auto simp: main_combine_def addr_ok_valid run_ok_def address_kinds)
  qed
next
  case False
  then show ?thesis using assms(2) makeResult_reported [of a err] reported_ok [of a err] by (auto simp: main_combine_def)
qed

lemma dnsrev_undefined:
  assumes "addr_ok a"
  shows "convertCIDRToDNSRev a = None \<longleftrightarrow> 0 < prefix_len a \<and> prefix_len a < (if addr_type a = AF_INET then 8 else 4)"
proof -
  obtain st where st: "dns_style_of a = Some st" "bitsPerEntry st = (if addr_type a = AF_INET then 8 else 4)"
    using assms by (cases "addr_type a = AF_INET") (auto simp: addr_ok_def num_bytes_def dns_style_of_def split: if_splits)
  have "convertCIDRToDNSRev a = None \<longleftrightarrow> prefix_len a mod bitsPerEntry st \<noteq> 0 \<and> prefix_len a div bitsPerEntry st = 0"
    unfolding convertCIDRToDNSRev_names [OF assms st(1)] Let_def by simp
  then show ?thesis unfolding st(2) by (auto simp: div_eq_0_iff)
qed

text \<open>The address of a command for which reverse names are asked with a prefix that ends in the first entry.\<close>

definition dnsrev_short :: "inet_functions \<Rightarrow> Address \<Rightarrow> Address \<Rightarrow> c_string list \<Rightarrow> bool" where
  "dnsrev_short lib addr msk argv \<longleftrightarrow> 3 \<le> length argv \<and> argv ! 1 = ''dnsrev''
     \<and> (\<exists>a err. main_address lib addr msk 3 argv = Inr (a, err) \<and> addr_ok a
          \<and> 0 < prefix_len a \<and> prefix_len a < (if addr_type a = AF_INET then 8 else 4))"

lemma main_dnsrev_ok:
  assumes "addr_ok a \<or> reported a err"
    and "\<not> (addr_ok a \<and> 0 < prefix_len a \<and> prefix_len a < (if addr_type a = AF_INET then 8 else 4))"
  shows "run_ok (main_dnsrev lib a err)"
proof (cases "addr_ok a")
  case True
  then obtain ls where "convertCIDRToDNSRev a = Some ls" using dnsrev_undefined [OF True] assms(2) by blast
  then show ?thesis using addr_ok_valid [OF True] by (auto simp: main_dnsrev_def run_ok_def)
next
  case False
  then show ?thesis using assms(1) makeResult_reported [of a err] reported_ok [of a err] by (auto simp: main_dnsrev_def)
qed

text \<open>An address to be printed as it is, given with a netmask, whose text does not fit the buffer.\<close>

definition canonicalize_unprintable :: "inet_functions \<Rightarrow> Address \<Rightarrow> Address \<Rightarrow> c_string list \<Rightarrow> bool" where
  "canonicalize_unprintable lib addr msk argv \<longleftrightarrow> 3 \<le> length argv \<and> argv ! 1 = ''canonicalize''
     \<and> (\<exists>a. main_address lib addr msk 3 argv = Inr (a, None) \<and> addr_ok a
          \<and> addr_type a = AF_INET6 \<and> inet_ntop lib AF_INET6 (addr_bytes a) 40 = None)"

lemma main_command_ok:
  assumes "inet_ok lib" and "addr_ok a \<or> reported a err"
    and "\<not> (argv ! 1 = ''dnsrev'' \<and> addr_ok a \<and> 0 < prefix_len a \<and> prefix_len a < (if addr_type a = AF_INET then 8 else 4))"
    and "\<not> (argv ! 1 = ''canonicalize'' \<and> unprintable lib a err)"
  shows "run_ok (main_command lib addr2 argv a err)"
proof -
  have "run_ok (main_convert lib convertCIDRToNetwork a arg2 err)" "run_ok (main_convert lib convertCIDRToHost a arg2 err)"
    "run_ok (main_convert lib convertCIDRToBroadcast a arg2 err)" for arg2
    using convertCIDRToNetwork_bits convertCIDRToHost_bits convertCIDRToBroadcast_bits
    by (blast intro: main_convert_ok [OF assms(2)])+
  then show ?thesis
    using main_dnsrev_ok [OF assms(2)] assms(3,4) result_run_ok [OF assms(2)] main_combine_ok [OF assms(1,2)]
    unfolding main_command_def Let_def by (auto split del: if_split split: if_splits)
qed

lemma main_query_ok:
  assumes "inet_ok lib"
  shows "run_ok (main_isip lib addr argv test)" and "run_ok (main_netmask lib addr argv)"
    and "run_ok (main_netmaskbits lib addr argv)"
proof -
  show "run_ok (main_isip lib addr argv test)" by (simp add: main_isip_def)
  obtain ok a arg where p: "parseAddressWithMask lib (argv ! 2) addr = (ok, a, arg)" using prod_cases3 by blast
  have "if ok then addr_ok (snd (convertCIDRToNetmask a)) else reported a (Some arg)"
    using parse_with_mask_result [OF assms p] convertCIDRToNetmask_bits [of a] by (auto simp: addr_ok_def split: if_splits)
  then show "run_ok (main_netmask lib addr argv)"
    using p result_arg_ok by (auto simp: main_netmask_def split: if_splits)
  obtain ok a where q: "parseAddressWithoutMask lib (argv ! 2) addr = (ok, a)" by fastforce
  obtain okc a' where c: "convertNetmaskToCIDR a = (okc, a')" by fastforce
  obtain okm am arg where m: "parseAddressWithMask lib (argv ! 2) a = (okm, am, arg)" using prod_cases3 by blast
  have "addr_ok a' \<or> reported a' (Some arg)" if ok for arg
    using parse_without_mask [OF assms q] mask_conversion [OF _ c] that by (auto simp: reported_def split: if_splits)
  then show "run_ok (main_netmaskbits lib addr argv)"
    using q c m parse_with_mask_result [OF assms m] result_arg_ok
    by (cases ok) (auto simp: main_netmaskbits_def split: if_splits)
qed

text \<open>C12: For every command line the program has a defined result with two exceptions: reverse names for a prefix that ends
  in the first entry, and the command \<open>canonicalize\<close> for an IPv6 address given with a netmask whose text \<open>inet_ntop\<close> does not
  put into 40 bytes, which makes the message print a null pointer. The exit code is between 0 and 8, and the program prints
  to the standard output if the code is 0 and to the standard error otherwise.
\<close>

theorem netcalc_run:
  assumes "inet_ok lib" and "argv \<noteq> []"
  shows "if (dnsrev_short lib addr msk argv \<or> canonicalize_unprintable lib addr msk argv) \<and> length argv \<le> 4 then netcalc_main lib addr msk addr2 argv = None
    else run_ok (netcalc_main lib addr msk addr2 argv)"
proof (cases "3 \<le> length argv \<and> length argv \<le> 5")
  case False
  then show ?thesis using assms(2) by (auto simp: netcalc_main_def dnsrev_short_def canonicalize_unprintable_def)
next
  case len: True
  show ?thesis
  proof (cases "argv ! 1 \<in> {''isip'', ''isipv4'', ''isipv6'', ''netmask'', ''netmaskbits''}")
    case True
    then show ?thesis using assms(2) len main_query_ok [OF assms(1), of addr argv]
      by (auto simp: netcalc_main_def dnsrev_short_def canonicalize_unprintable_def)
  next
    case False
    let ?m = "if argv ! 1 = ''combine'' then 4 else 3 :: nat"
    have main: "netcalc_main lib addr msk addr2 argv =
      (case main_address lib addr msk ?m argv of Inl r \<Rightarrow> r | Inr (a, err) \<Rightarrow> main_command lib addr2 argv a err)"
      using assms(2) len False by (simp add: netcalc_main_def)
    show ?thesis
    proof (cases "main_address lib addr msk ?m argv")
      case (Inl r)
      then show ?thesis using main_address_result [OF assms(1), of addr msk ?m argv] main
        by (auto simp: dnsrev_short_def canonicalize_unprintable_def split: if_splits)
    next
      case (Inr p)
      obtain a err where p: "p = (a, err)" by fastforce
      have a: "addr_ok a \<or> reported a err"
        using main_address_result [OF assms(1), of addr msk ?m argv] Inr p by simp
      let ?short = "argv ! 1 = ''dnsrev'' \<and> addr_ok a \<and> 0 < prefix_len a \<and> prefix_len a < (if addr_type a = AF_INET then 8 else 4)"
      let ?null = "argv ! 1 = ''canonicalize'' \<and> unprintable lib a err"
      have "length argv \<le> 4" if "argv ! 1 = ''dnsrev'' \<or> argv ! 1 = ''canonicalize''"
        using Inr that by (auto simp: main_address_def split: if_splits)
      moreover have "unprintable lib a err \<longleftrightarrow> addr_ok a \<and> err = None \<and> addr_type a = AF_INET6
          \<and> inet_ntop lib AF_INET6 (addr_bytes a) 40 = None"
        using addressToString_None [OF assms(1), of a] unfolding unprintable_def by blast
      ultimately have "((dnsrev_short lib addr msk argv \<or> canonicalize_unprintable lib addr msk argv) \<and> length argv \<le> 4) = (?short \<or> ?null)"
        using Inr p len by (auto simp: dnsrev_short_def canonicalize_unprintable_def)
      moreover have "main_command lib addr2 argv a err = None" if "?short \<or> ?null"
        using that dnsrev_undefined [of a]
        by (auto simp: main_command_def main_dnsrev_def addr_ok_valid unprintable_def makeResult_ok)
      moreover have "run_ok (main_command lib addr2 argv a err)" if "\<not> (?short \<or> ?null)"
        using main_command_ok [OF assms(1) a] that by blast
      ultimately show ?thesis using main Inr p by simp
    qed
  qed
qed

definition sample_pton :: "int \<Rightarrow> c_string \<Rightarrow> byte list option" where
  "sample_pton family s =
     (if family = AF_INET \<and> s = ''192.168.6.77'' then Some [192, 168, 6, 77]
      else if family = AF_INET \<and> s = ''255.255.240.0'' then Some [255, 255, 240, 0] else None)"

definition sample_ntop :: "int \<Rightarrow> byte list \<Rightarrow> nat \<Rightarrow> c_string option" where
  "sample_ntop family bs room =
     (if family = AF_INET \<and> 16 \<le> room then Some (butlast (concat (map (\<lambda>b. nat_to_dec (unat b) @ ''.'') bs))) else None)"

definition sample_lib :: inet_functions where
  "sample_lib = \<lparr>inet_pton = sample_pton, inet_ntop = sample_ntop\<rparr>"

lemma sample_lib_ok: "inet_ok sample_lib"
  by (auto simp: inet_ok_def sample_lib_def sample_pton_def sample_ntop_def split: if_splits)

theorem netcalc_run_witness:
  "run_ok (netcalc_main sample_lib sample_addr sample_addr sample_addr [''netcalc'', ''network'', ''192.168.6.77/20''])"
  using netcalc_run [OF sample_lib_ok, of "[''netcalc'', ''network'', ''192.168.6.77/20'']" sample_addr sample_addr sample_addr]
  by (simp add: dnsrev_short_def canonicalize_unprintable_def)








end
