(* ===== verification/Check_Deps.thy ===== *)
theory Check_Deps
  imports Name_Registry C_Strings
begin

text \<open>
  Services and dependencies of packages, the comparison of numbers and versions and the options of files:
  \<open>libmkfli4l/parse.c\<close>. The check scripts of packages declare which service a package provides in which version
  and on which services it depends; after all scripts have run, every dependency must be satisfied. The arrays of
  dependencies and versions, which only grow, are lists; a descriptor of a depending package is addressed by its position
  among those allocated.
\<close>

section \<open>State\<close>

record service_t =
  svc_version :: c_string
  svc_provider :: c_string

record dependency_t =
  service_name :: c_string
  service_versions :: "c_string list"

record depender_t =
  depender_name :: c_string
  deps :: "dependency_t list"

record check_state =
  exec_failed :: bool
  service_map :: "service_t name_map"
  depender_map :: "nat name_map"
  dependers :: "depender_t list"

type_synonym ('z, 'a) check_action = "('z check_state_scheme, 'a) action"

definition parse_set_error :: "('z, unit) check_action" where
  "parse_set_error = andthen get_state (\<lambda>s. put_state (s\<lparr>exec_failed := True\<rparr>))"

definition parse_get_error :: "('z, bool) check_action" where
  "parse_get_error = andthen get_state (\<lambda>s. ret (exec_failed s))"

section \<open>Providing and depending\<close>

definition add_provider :: "c_string \<Rightarrow> c_string \<Rightarrow> c_string \<Rightarrow> ('z, bool) check_action" where
  "add_provider provider name version =
     andthen get_state (\<lambda>s.
       case name_get (service_map s) name of
         Some service \<Rightarrow> ret (svc_provider service = provider)
       | None \<Rightarrow>
           andthen (zoom service_map (\<lambda>m s. s\<lparr>service_map := m\<rparr>)
             (hashmap_put (name, \<lparr>svc_version = version, svc_provider = provider\<rparr>))) (\<lambda>_. ret True))"

text \<open>The dependency on a service is searched by its name, appended if it is missing, and gets the version, if any.\<close>

fun add_version :: "dependency_t list \<Rightarrow> c_string \<Rightarrow> c_string option \<Rightarrow> dependency_t list" where
  "add_version [] name v = [\<lparr>service_name = name, service_versions = (case v of None \<Rightarrow> [] | Some x \<Rightarrow> [x])\<rparr>]"
| "add_version (dep # ds) name v =
     (if service_name dep = name
      then dep\<lparr>service_versions := service_versions dep @ (case v of None \<Rightarrow> [] | Some x \<Rightarrow> [x])\<rparr> # ds
      else dep # add_version ds name v)"

definition get_depender :: "c_string \<Rightarrow> ('z, nat) check_action" where
  "get_depender package =
     andthen get_state (\<lambda>s.
       case name_get (depender_map s) package of
         Some i \<Rightarrow> ret i
       | None \<Rightarrow>
           andthen (put_state (s\<lparr>dependers := dependers s @ [\<lparr>depender_name = package, deps = []\<rparr>]\<rparr>)) (\<lambda>_.
             andthen (zoom depender_map (\<lambda>m s. s\<lparr>depender_map := m\<rparr>) (hashmap_put (package, length (dependers s))))
               (\<lambda>_. ret (length (dependers s)))))"

definition add_dependency :: "c_string \<Rightarrow> c_string \<Rightarrow> c_string option \<Rightarrow> ('z, unit) check_action" where
  "add_dependency package name version =
     andthen (get_depender package) (\<lambda>i.
       andthen get_state (\<lambda>s.
         if i < length (dependers s) then
           put_state (s\<lparr>dependers := (dependers s)[i := (dependers s ! i)\<lparr>deps := add_version (deps (dependers s ! i)) name version\<rparr>]\<rparr>)
         else raise Invalid_access))"

definition parse_provides :: "c_string \<Rightarrow> c_string \<Rightarrow> c_string \<Rightarrow> ('z, unit) check_action" where
  "parse_provides name version package =
     andthen (add_provider (strupper package) name version) (\<lambda>ok. if ok then ret () else parse_set_error)"

text \<open>The versions are the leaves of the list of version nodes; a null pointer is the empty list.\<close>

definition parse_depends :: "c_string \<Rightarrow> c_string list \<Rightarrow> c_string \<Rightarrow> ('z, unit) check_action" where
  "parse_depends name versions package =
     (if versions = [] then add_dependency (strupper package) name None
      else andthen (run_all (\<lambda>v. add_dependency (strupper package) name (Some v)) versions) (\<lambda>_. ret ()))"

section \<open>Resolving\<close>

text \<open>A version fits if it is the version of the service or the part of it before a dot.\<close>

definition version_fits :: "c_string \<Rightarrow> c_string \<Rightarrow> bool" where
  "version_fits sv ver \<longleftrightarrow> length ver \<le> length sv \<and> take (length ver) sv = ver
     \<and> (length ver = length sv \<or> sv ! length ver = CHR ''.'')"

text \<open>The loop over the dependencies of one package: the flag of the caller is cleared at every one that cannot be satisfied.\<close>

definition dependency_ok :: "service_t name_map \<Rightarrow> dependency_t \<Rightarrow> bool" where
  "dependency_ok services dep =
     (case name_get services (service_name dep) of
        None \<Rightarrow> False
      | Some service \<Rightarrow>
          (let found = list_ex (version_fits (svc_version service)) (service_versions dep) in
           found \<or> \<not> 0 < length (service_versions dep)))"

definition check_depender :: "c_string \<times> nat \<Rightarrow> ('z check_state_scheme \<times> bool, bool) action" where
  "check_depender entry =
     andthen get_state (\<lambda>(s, ok).
       if snd entry < length (dependers s) then
         andthen (put_state (s, ok \<and> list_all (dependency_ok (service_map s)) (deps (dependers s ! snd entry)))) (\<lambda>_. ret True)
       else raise Invalid_access)"

text \<open>
  \<open>execute_all_extended_checks\<close>: the maps are created, the scripts walked and, if no script reported an error, the
  dependencies checked.
\<close>

definition execute_all_extended_checks :: "('z, unit) check_action \<Rightarrow> ('z, bool) check_action" where
  "execute_all_extended_checks walk =
     andthen (hashmap_create fst 16 hash_ci_string compare_ci_string_keys True) (\<lambda>sm.
     andthen (hashmap_create fst 16 hash_ci_string compare_ci_string_keys True) (\<lambda>dm.
     andthen get_state (\<lambda>s. andthen (put_state (s\<lparr>service_map := sm, depender_map := dm\<rparr>)) (\<lambda>_.
     andthen walk (\<lambda>_.
     andthen parse_get_error (\<lambda>failed.
       if failed then ret False
       else andthen get_state (\<lambda>s.
         case hashmap_foreach (depender_map s) check_depender (s, True) of
           Done _ (s', result) \<Rightarrow> andthen (put_state s') (\<lambda>_. ret result)
         | Failed e \<Rightarrow> raise e)))))))"

section \<open>Numbers, versions and options\<close>

definition CMP_EQUAL :: int where "CMP_EQUAL = 0"
definition CMP_LESS :: int where "CMP_LESS = - 1"
definition CMP_GREATER :: int where "CMP_GREATER = 1"

definition val_numcmp :: "c_string \<Rightarrow> c_string \<Rightarrow> ('s, int) action" where
  "val_numcmp val num =
     andthen (convert_to_long val) (\<lambda>x. andthen (convert_to_long num) (\<lambda>y.
       ret (if x = y then CMP_EQUAL else if x < y then CMP_LESS else CMP_GREATER)))"




lemma strchr_shorter: "strchr s c = Some (p, q) \<Longrightarrow> length q < length s"
  using strchr_split [of s c p q] by auto

text \<open>The options of a file: names up to an equals sign, values up to a blank, and the blanks after a value skipped.\<close>

function parse_entry_options :: "c_string \<Rightarrow> (c_string \<times> c_string) list" where
  "parse_entry_options s =
     (case strchr s (CHR ''='') of
        None \<Rightarrow> []
      | Some (name, t) \<Rightarrow>
          (let v = (case strchr t (CHR '' '') of Some (v, _) \<Rightarrow> v | None \<Rightarrow> t) in
           (name, v) # parse_entry_options (dropWhile isspace (drop (length v) t))))"
  by pat_completeness auto
termination
proof (relation "measure length")
  fix s x name t v
  assume a: "strchr s (CHR ''='') = Some x" "(name, t) = x"
  have "length (dropWhile isspace (drop (length v) t)) \<le> length t"
    using length_dropWhile_le [of isspace "drop (length v) t"] by simp
  then show "(dropWhile isspace (drop (length v) t), s) \<in> measure length" using a strchr_shorter [of s "CHR ''=''" name t] by auto
qed simp

declare parse_entry_options.simps [simp del]

section \<open>What is provided and wanted\<close>

definition provided :: "'z check_state_scheme \<Rightarrow> c_string \<Rightarrow> service_t option" where
  "provided s name = name_get (service_map s) name"

definition wanted :: "'z check_state_scheme \<Rightarrow> c_string \<Rightarrow> dependency_t list" where
  "wanted s package = (case name_get (depender_map s) package of None \<Rightarrow> [] | Some i \<Rightarrow> deps (dependers s ! i))"

definition deps_ok :: "'z check_state_scheme \<Rightarrow> bool" where
  "deps_ok s \<longleftrightarrow> name_map_ok (service_map s) \<and> name_map_ok (depender_map s)
     \<and> (\<forall>k i. name_get (depender_map s) k = Some i \<longrightarrow> i < length (dependers s))
     \<and> (\<forall>k l i. name_get (depender_map s) k = Some i \<longrightarrow> name_get (depender_map s) l = Some i \<longrightarrow> strcasecmp_eq k l)"

lemma provided_cong: "deps_ok s \<Longrightarrow> strcasecmp_eq k l \<Longrightarrow> provided s k = provided s l"
  by (simp add: provided_def deps_ok_def name_get_cong)

lemma wanted_cong: "deps_ok s \<Longrightarrow> strcasecmp_eq k l \<Longrightarrow> wanted s k = wanted s l"
  by (simp add: wanted_def deps_ok_def name_get_cong)

lemma name_put_get:
  assumes "name_map_ok m"
  obtains ds m' where "hashmap_put (n, i) m = Done ds m'" and "name_map_ok m'"
    and "name_get m' = (\<lambda>k. if strcasecmp_eq k n then Some i else name_get m k)"
  using name_put [OF assms, of n i] by (metis (mono_tags, lifting) name_get_def option.simps(9) snd_conv ext)

lemma add_provider_spec:
  assumes "deps_ok s"
  shows "\<exists>s'. add_provider provider name version s =
      Done (case provided s name of None \<Rightarrow> True | Some service \<Rightarrow> svc_provider service = provider) s'
    \<and> deps_ok s' \<and> wanted s' = wanted s \<and> exec_failed s' = exec_failed s
    \<and> provided s' = (\<lambda>n. if provided s name = None \<and> strcasecmp_eq n name
        then Some \<lparr>svc_version = version, svc_provider = provider\<rparr> else provided s n)"
proof (cases "provided s name")
  case None
  obtain ds m' where m': "hashmap_put (name, \<lparr>svc_version = version, svc_provider = provider\<rparr>) (service_map s) = Done ds m'"
    "name_map_ok m'"
    "name_get m' = (\<lambda>n. if strcasecmp_eq n name then Some \<lparr>svc_version = version, svc_provider = provider\<rparr> else name_get (service_map s) n)"
    using name_put_get [of "service_map s" name "\<lparr>svc_version = version, svc_provider = provider\<rparr>"] assms unfolding deps_ok_def by blast
  then show ?thesis using assms None
    by (auto simp: add_provider_def provided_def wanted_def deps_ok_def fun_eq_iff split: option.split)
qed (use assms in \<open>auto simp: add_provider_def provided_def fun_eq_iff\<close>)

lemma get_depender_spec:
  assumes "deps_ok s"
  shows "\<exists>i s'. get_depender package s = Done i s' \<and> deps_ok s' \<and> name_get (depender_map s') package = Some i
    \<and> i < length (dependers s') \<and> deps (dependers s' ! i) = wanted s package
    \<and> wanted s' = wanted s \<and> provided s' = provided s \<and> exec_failed s' = exec_failed s"
proof (cases "name_get (depender_map s) package")
  case (Some i)
  then show ?thesis using assms by (auto simp: get_depender_def deps_ok_def wanted_def)
next
  case None
  let ?i = "length (dependers s)" and ?d = "\<lparr>depender_name = package, deps = []\<rparr>"
  obtain ds m' where m': "hashmap_put (package, ?i) (depender_map s) = Done ds m'" "name_map_ok m'"
    "name_get m' = (\<lambda>n. if strcasecmp_eq n package then Some ?i else name_get (depender_map s) n)"
    using name_put_get [of "depender_map s" package ?i] assms unfolding deps_ok_def by blast
  let ?s = "s\<lparr>dependers := dependers s @ [?d], depender_map := m'\<rparr>"
  have old: "i < ?i" if "name_get (depender_map s) k = Some i" for k i using assms that by (simp add: deps_ok_def)
  have run: "get_depender package s = Done ?i ?s" using None m'(1) by (simp add: get_depender_def)
  have "wanted ?s k = wanted s k" for k
  proof (cases "strcasecmp_eq k package")
    case True
    then have "name_get (depender_map s) k = None" using None name_get_cong [of "depender_map s" k package] assms by (simp add: deps_ok_def)
    then show ?thesis using True by (simp add: wanted_def m'(3))
  next
    case False
    then show ?thesis using old by (auto simp: wanted_def m'(3) nth_append split: option.splits)
  qed
  then have w: "wanted ?s = wanted s" by blast
  have "deps_ok ?s" unfolding deps_ok_def
  proof (intro conjI allI impI)
    show "name_map_ok (service_map ?s)" "name_map_ok (depender_map ?s)" using assms m'(2) by (simp_all add: deps_ok_def)
    show "i < length (dependers ?s)" if "name_get (depender_map ?s) k = Some i" for k i
      using that old [of k i] by (auto simp: m'(3) split: if_splits)
    show "strcasecmp_eq k l" if "name_get (depender_map ?s) k = Some i" "name_get (depender_map ?s) l = Some i" for k l i
      using that old [of k i] old [of l i] assms strcasecmp_eq_trans [of k package l] strcasecmp_eq_sym [of l package]
      by (auto simp: m'(3) deps_ok_def split: if_splits)
  qed
  moreover have "strcasecmp_eq package package" by (simp add: strcasecmp_eq_def)
  then have "name_get (depender_map ?s) package = Some ?i" "wanted s package = []" using None by (simp_all add: m'(3) wanted_def)
  ultimately show ?thesis using run w by (intro exI [of _ ?i] exI [of _ ?s]) (simp add: provided_def fun_eq_iff)
qed

lemma add_dependency_spec:
  assumes "deps_ok s"
  shows "\<exists>s'. add_dependency package name version s = Done () s' \<and> deps_ok s' \<and> provided s' = provided s
    \<and> exec_failed s' = exec_failed s
    \<and> wanted s' = (\<lambda>k. if strcasecmp_eq k package then add_version (wanted s package) name version else wanted s k)"
proof -
  obtain i s1 where d: "get_depender package s = Done i s1" "deps_ok s1" "name_get (depender_map s1) package = Some i"
    "i < length (dependers s1)" "deps (dependers s1 ! i) = wanted s package" "wanted s1 = wanted s" "provided s1 = provided s"
    "exec_failed s1 = exec_failed s"
    using get_depender_spec [OF assms, of package] by blast
  let ?s = "s1\<lparr>dependers := (dependers s1)[i := (dependers s1 ! i)\<lparr>deps := add_version (deps (dependers s1 ! i)) name version\<rparr>]\<rparr>"
  have "wanted ?s k = (if strcasecmp_eq k package then add_version (wanted s package) name version else wanted s k)" for k
  proof (cases "strcasecmp_eq k package")
    case True
    then have "name_get (depender_map s1) k = Some i" using d(2,3) name_get_cong [of "depender_map s1" k package] by (simp add: deps_ok_def)
    then show ?thesis using True d(4,5) by (simp add: wanted_def)
  next
    case False
    then have "name_get (depender_map s1) k \<noteq> Some i" using d(2,3) unfolding deps_ok_def by blast
    then show ?thesis using False d(6) [symmetric] by (auto simp: wanted_def nth_list_update split: option.split)
  qed
  moreover have "deps_ok ?s" using d(2) by (simp add: deps_ok_def)
  moreover have "add_dependency package name version s = Done () ?s" using d(1,4) by (simp add: add_dependency_def)
  ultimately show ?thesis using d(7,8) by (intro exI [of _ ?s]) (simp add: provided_def fun_eq_iff)
qed

text \<open>The versions recorded for a service; a dependency without a version records none.\<close>

fun versions_of :: "dependency_t list \<Rightarrow> c_string \<Rightarrow> c_string list option" where
  "versions_of [] n = None"
| "versions_of (d # ds) n = (if service_name d = n then Some (service_versions d) else versions_of ds n)"

lemma versions_of_add:
  "versions_of (add_version ds n v) =
     (versions_of ds)(n \<mapsto> (case versions_of ds n of None \<Rightarrow> [] | Some vs \<Rightarrow> vs) @ (case v of None \<Rightarrow> [] | Some x \<Rightarrow> [x]))"
  by (induction ds) (auto simp: fun_eq_iff)

lemma add_version_names: "service_name ` set (add_version ds n v) = insert n (service_name ` set ds)"
  by (induction ds) auto

lemma add_version_distinct: "distinct (map service_name ds) \<Longrightarrow> distinct (map service_name (add_version ds n v))"
  by (induction ds) (auto simp: add_version_names)

lemma versions_of_mem:
  "distinct (map service_name ds) \<Longrightarrow> d \<in> set ds \<longleftrightarrow> versions_of ds (service_name d) = Some (service_versions d)"
proof (induction ds)
  case (Cons a ds)
  have "a = d \<longleftrightarrow> service_name a = service_name d \<and> service_versions a = service_versions d"
    by (auto intro: dependency_t.equality)
  then show ?case using Cons by (cases "service_name a = service_name d") (auto simp: rev_image_eqI)
qed simp

definition add_all :: "dependency_t list \<Rightarrow> c_string \<Rightarrow> c_string list \<Rightarrow> dependency_t list" where
  "add_all ds n vs = (if vs = [] then add_version ds n None else foldl (\<lambda>ds v. add_version ds n (Some v)) ds vs)"

lemma foldl_add_version:
  assumes "vs \<noteq> []"
  shows "versions_of (foldl (\<lambda>ds v. add_version ds n (Some v)) ds vs) =
    (versions_of ds)(n \<mapsto> (case versions_of ds n of None \<Rightarrow> [] | Some ws \<Rightarrow> ws) @ vs)"
  using assms
proof (induction vs arbitrary: ds)
  case (Cons v vs)
  show ?case
  proof (cases "vs = []")
    case False
    then show ?thesis using Cons.IH [of "add_version ds n (Some v)"] by (auto simp: versions_of_add fun_eq_iff)
  qed (simp add: versions_of_add)
qed simp

lemma versions_of_add_all:
  "versions_of (add_all ds n vs) = (versions_of ds)(n \<mapsto> (case versions_of ds n of None \<Rightarrow> [] | Some ws \<Rightarrow> ws) @ vs)"
  by (simp add: add_all_def versions_of_add foldl_add_version)

lemma add_all_distinct: "distinct (map service_name ds) \<Longrightarrow> distinct (map service_name (add_all ds n vs))"
proof -
  have "distinct (map service_name ds) \<Longrightarrow> distinct (map service_name (foldl (\<lambda>ds v. add_version ds n (Some v)) ds vs))"
    by (induction vs arbitrary: ds) (simp_all add: add_version_distinct)
  then show "distinct (map service_name ds) \<Longrightarrow> ?thesis" by (simp add: add_all_def add_version_distinct)
qed

lemma parse_depends_spec:
  assumes "deps_ok s"
  shows "\<exists>s'. parse_depends name versions package s = Done () s' \<and> deps_ok s' \<and> provided s' = provided s
    \<and> exec_failed s' = exec_failed s
    \<and> wanted s' = (\<lambda>k. if strcasecmp_eq k (strupper package) then add_all (wanted s (strupper package)) name versions else wanted s k)"
proof (cases "versions = []")
  case True
  show ?thesis using add_dependency_spec [OF assms, of "strupper package" name None] unfolding parse_depends_def add_all_def True by simp
next
  case False
  let ?p = "strupper package" and ?f = "foldl (\<lambda>ds v. add_version ds name (Some v))"
  have self: "strcasecmp_eq ?p ?p" by (simp add: strcasecmp_eq_def)
  have hist: "\<exists>us s'. run_all (\<lambda>v. add_dependency ?p name (Some v)) vs s = Done us s' \<and> deps_ok s' \<and> provided s' = provided s
    \<and> exec_failed s' = exec_failed s \<and> wanted s' = (\<lambda>k. if strcasecmp_eq k ?p then ?f (wanted s ?p) vs else wanted s k)"
    if "deps_ok s" for vs s
    using that
  proof (induction vs arbitrary: s)
    case Nil
    have "wanted s k = (if strcasecmp_eq k ?p then wanted s ?p else wanted s k)" for k
      using wanted_cong [OF Nil, of k ?p] by (cases "strcasecmp_eq k ?p") (simp_all only: if_True if_False)
    then have "wanted s = (\<lambda>k. if strcasecmp_eq k ?p then ?f (wanted s ?p) [] else wanted s k)"
      unfolding foldl.simps by (rule ext)
    then show ?case using Nil run_all.simps(1) ret_apply by metis
  next
    case (Cons v vs)
    obtain s1 where s1: "add_dependency ?p name (Some v) s = Done () s1" "deps_ok s1" "provided s1 = provided s"
      "exec_failed s1 = exec_failed s" "wanted s1 = (\<lambda>k. if strcasecmp_eq k ?p then add_version (wanted s ?p) name (Some v) else wanted s k)"
      using add_dependency_spec [OF Cons.prems, of ?p name "Some v"] by blast
    obtain us s' where s': "run_all (\<lambda>v. add_dependency ?p name (Some v)) vs s1 = Done us s'" "deps_ok s'" "provided s' = provided s1"
      "exec_failed s' = exec_failed s1" "wanted s' = (\<lambda>k. if strcasecmp_eq k ?p then ?f (wanted s1 ?p) vs else wanted s1 k)"
      using Cons.IH [OF s1(2)] by blast
    then show ?case using s1 self by (auto simp: fun_eq_iff)
  qed
  have all: "add_all ds name versions = ?f ds versions" for ds using False by (simp add: add_all_def)
  obtain us s' where "run_all (\<lambda>v. add_dependency ?p name (Some v)) versions s = Done us s'" "deps_ok s'"
    "provided s' = provided s" "exec_failed s' = exec_failed s"
    "wanted s' = (\<lambda>k. if strcasecmp_eq k ?p then add_all (wanted s ?p) name versions else wanted s k)"
    using hist [OF assms, of versions] unfolding all by blast
  then show ?thesis using False by (intro exI [of _ s']) (simp add: parse_depends_def)
qed

section \<open>Declarations of all scripts\<close>

datatype dep_op = Provides c_string c_string c_string | Depends c_string c_string "c_string list"

primrec dep_step :: "dep_op \<Rightarrow> ('z, unit) check_action" where
  "dep_step (Provides package name version) = parse_provides name version package"
| "dep_step (Depends package name versions) = parse_depends name versions package"

text \<open>The first declaration for a service counts.\<close>

fun first_provider :: "dep_op list \<Rightarrow> c_string \<Rightarrow> service_t option" where
  "first_provider [] n = None"
| "first_provider (Provides package name version # ops) n =
     (if strcasecmp_eq n name then Some \<lparr>svc_version = version, svc_provider = strupper package\<rparr> else first_provider ops n)"
| "first_provider (Depends package name versions # ops) n = first_provider ops n"

text \<open>The versions a package names for a service in all its declarations together.\<close>

fun versions_for :: "dep_op list \<Rightarrow> c_string \<Rightarrow> c_string \<Rightarrow> c_string list option" where
  "versions_for [] k n = None"
| "versions_for (Provides package name version # ops) k n = versions_for ops k n"
| "versions_for (Depends package name versions # ops) k n =
     (if strcasecmp_eq k (strupper package) \<and> name = n
      then Some (versions @ (case versions_for ops k n of None \<Rightarrow> [] | Some vs \<Rightarrow> vs)) else versions_for ops k n)"

definition appended :: "'a list option \<Rightarrow> 'a list option \<Rightarrow> 'a list option" where
  "appended xs ys = (case ys of None \<Rightarrow> xs | Some zs \<Rightarrow> Some ((case xs of None \<Rightarrow> [] | Some ws \<Rightarrow> ws) @ zs))"

lemma appended_simps [simp]:
  "appended xs None = xs" "appended None ys = ys" "appended (Some us) (Some vs) = Some (us @ vs)"
  by (simp_all add: appended_def split: option.split)

definition provider_known :: "'z check_state_scheme \<Rightarrow> dep_op list \<Rightarrow> c_string \<Rightarrow> service_t option" where
  "provider_known s ops n = (case provided s n of None \<Rightarrow> first_provider ops n | Some x \<Rightarrow> Some x)"

lemma parse_provides_spec:
  assumes "deps_ok s"
  shows "\<exists>s'. parse_provides name version package s = Done () s' \<and> deps_ok s' \<and> wanted s' = wanted s
    \<and> provided s' = provider_known s [Provides package name version]
    \<and> (exec_failed s' \<longleftrightarrow> exec_failed s \<or>
        svc_provider (the (provider_known s [Provides package name version] name)) \<noteq> strupper package)"
proof -
  obtain s1 where s1: "add_provider (strupper package) name version s =
      Done (case provided s name of None \<Rightarrow> True | Some service \<Rightarrow> svc_provider service = strupper package) s1"
    "deps_ok s1" "wanted s1 = wanted s" "exec_failed s1 = exec_failed s"
    "provided s1 = (\<lambda>n. if provided s name = None \<and> strcasecmp_eq n name
        then Some \<lparr>svc_version = version, svc_provider = strupper package\<rparr> else provided s n)"
    using add_provider_spec [OF assms, of "strupper package" name version] by blast
  have p: "provided s1 = provider_known s [Provides package name version]"
  proof
    fix n
    show "provided s1 n = provider_known s [Provides package name version] n"
    proof (cases "strcasecmp_eq n name")
      case True
      from provided_cong [OF assms this] True show ?thesis by (cases "provided s name") (simp_all add: s1(5) provider_known_def)
    next
      case False
      then show ?thesis by (cases "provided s n") (simp_all add: s1(5) provider_known_def)
    qed
  qed
  show ?thesis
  proof (cases "case provided s name of None \<Rightarrow> True | Some service \<Rightarrow> svc_provider service = strupper package")
    case True
    then show ?thesis using s1 p by (auto simp: parse_provides_def provider_known_def split: option.splits)
  next
    case False
    have "deps_ok (s1\<lparr>exec_failed := True\<rparr>)" "wanted (s1\<lparr>exec_failed := True\<rparr>) = wanted s1" "provided (s1\<lparr>exec_failed := True\<rparr>) = provided s1"
      using s1(2) by (simp_all add: deps_ok_def wanted_def provided_def fun_eq_iff split: option.split)
    then show ?thesis using False s1 p
      by (auto simp: parse_provides_def parse_set_error_def provider_known_def split: option.splits)
  qed
qed

lemma provider_known_Cons:
  assumes "provided s1 = provider_known s [op]"
  shows "provider_known s1 ops = provider_known s (op # ops)"
  using assms by (cases op) (auto simp: provider_known_def fun_eq_iff split: option.split)

lemma provider_known_fixed:
  "provider_known s [Provides p n v] n = provider_known s (Provides p n v # ops) n"
  by (simp add: provider_known_def split: option.split)

text \<open>A declaration of a service that another package declared first.\<close>

definition conflict :: "(c_string \<Rightarrow> service_t option) \<Rightarrow> dep_op list \<Rightarrow> bool" where
  "conflict known ops \<longleftrightarrow> (\<exists>p n v. Provides p n v \<in> set ops \<and> svc_provider (the (known n)) \<noteq> strupper p)"

lemma conflict_Cons: "conflict known (op # ops) \<longleftrightarrow> conflict known [op] \<or> conflict known ops"
  unfolding conflict_def list.set insert_iff by blast

definition names_distinct :: "'z check_state_scheme \<Rightarrow> bool" where
  "names_distinct s \<longleftrightarrow> (\<forall>k. distinct (map service_name (wanted s k)))"

lemma dep_history:
  assumes "deps_ok s" and "names_distinct s"
  shows "\<exists>us s'. run_all dep_step ops s = Done us s' \<and> deps_ok s' \<and> names_distinct s' \<and> provided s' = provider_known s ops
    \<and> (exec_failed s' \<longleftrightarrow> exec_failed s \<or> conflict (provider_known s ops) ops)
    \<and> (\<forall>k n. versions_of (wanted s' k) n = appended (versions_of (wanted s k) n) (versions_for ops k n))"
  using assms
proof (induction ops arbitrary: s)
  case Nil
  then show ?case by (auto simp: provider_known_def conflict_def fun_eq_iff split: option.split)
next
  case (Cons op ops)
  have "\<exists>s1. dep_step op s = Done () s1 \<and> deps_ok s1 \<and> names_distinct s1 \<and> provided s1 = provider_known s [op]
    \<and> (exec_failed s1 \<longleftrightarrow> exec_failed s \<or> conflict (provider_known s [op]) [op])
    \<and> (\<forall>k n. versions_of (wanted s1 k) n = appended (versions_of (wanted s k) n) (versions_for [op] k n))"
  proof (cases op)
    case (Provides p n v)
    then show ?thesis using parse_provides_spec [OF Cons.prems(1), of n v p] Cons.prems(2)
      by (auto simp: conflict_def names_distinct_def)
  next
    case (Depends p n vs)
    obtain s1 where s1: "parse_depends n vs p s = Done () s1" "deps_ok s1" "provided s1 = provided s" "exec_failed s1 = exec_failed s"
      "wanted s1 = (\<lambda>k. if strcasecmp_eq k (strupper p) then add_all (wanted s (strupper p)) n vs else wanted s k)"
      using parse_depends_spec [OF Cons.prems(1), of n vs p] by blast
    have "names_distinct s1" using Cons.prems(2) by (simp add: names_distinct_def s1(5) add_all_distinct)
    moreover have "provided s1 = provider_known s [op]" using s1(3) by (auto simp: Depends provider_known_def fun_eq_iff split: option.split)
    moreover have "versions_of (wanted s1 k) m = appended (versions_of (wanted s k) m) (versions_for [op] k m)" for k m
      using wanted_cong [OF Cons.prems(1), of k "strupper p"]
      by (auto simp: s1(5) Depends versions_of_add_all appended_def)
    ultimately show ?thesis using s1 Depends by (auto simp: conflict_def)
  qed
  then obtain s1 where s1: "dep_step op s = Done () s1" "deps_ok s1" "names_distinct s1" "provided s1 = provider_known s [op]"
    "exec_failed s1 \<longleftrightarrow> exec_failed s \<or> conflict (provider_known s [op]) [op]"
    "\<forall>k n. versions_of (wanted s1 k) n = appended (versions_of (wanted s k) n) (versions_for [op] k n)" by blast
  obtain us s' where s': "run_all dep_step ops s1 = Done us s'" "deps_ok s'" "names_distinct s'" "provided s' = provider_known s1 ops"
    "exec_failed s' \<longleftrightarrow> exec_failed s1 \<or> conflict (provider_known s1 ops) ops"
    "\<forall>k n. versions_of (wanted s' k) n = appended (versions_of (wanted s1 k) n) (versions_for ops k n)"
    using Cons.IH [OF s1(2,3)] by blast
  have pk: "provider_known s1 ops = provider_known s (op # ops)" using provider_known_Cons [OF s1(4)] .
  have "conflict (provider_known s [op]) [op] \<longleftrightarrow> conflict (provider_known s (op # ops)) [op]"
    by (cases op) (auto simp: conflict_def provider_known_fixed [of s _ _ _ ops])
  then have "exec_failed s' \<longleftrightarrow> exec_failed s \<or> conflict (provider_known s (op # ops)) (op # ops)"
    using s1(5) s'(5) conflict_Cons [of "provider_known s (op # ops)" op ops] unfolding pk by blast
  moreover have "versions_of (wanted s' k) n = appended (versions_of (wanted s k) n) (versions_for (op # ops) k n)" for k n
    using s1(6) s'(6) by (cases op) (auto simp: appended_def split: option.splits)
  ultimately show ?case using s1(1) s' pk by auto
qed

section \<open>The result of the checks\<close>

text \<open>A dependency on a service is satisfied if the service is provided in one of the versions named, if any is.\<close>

definition satisfied :: "service_t option \<Rightarrow> c_string list \<Rightarrow> bool" where
  "satisfied service vs \<longleftrightarrow>
     (\<exists>x. service = Some x \<and> (vs = [] \<or> (\<exists>v \<in> set vs. svc_version x = v \<or> (\<exists>r. svc_version x = v @ CHR ''.'' # r))))"

lemma version_fits_iff: "version_fits sv v \<longleftrightarrow> sv = v \<or> (\<exists>r. sv = v @ CHR ''.'' # r)"
proof
  assume f: "version_fits sv v"
  then have sv: "sv = v @ drop (length v) sv" by (metis append_take_drop_id version_fits_def)
  show "sv = v \<or> (\<exists>r. sv = v @ CHR ''.'' # r)"
  proof (cases "length v = length sv")
    case False
    then have "drop (length v) sv = CHR ''.'' # drop (Suc (length v)) sv"
      using f by (simp add: version_fits_def Cons_nth_drop_Suc [symmetric])
    then show ?thesis using sv by metis
  qed (use sv in simp)
qed (auto simp: version_fits_def)

lemma dependency_ok_satisfied:
  "dependency_ok (service_map s) dep \<longleftrightarrow> satisfied (provided s (service_name dep)) (service_versions dep)"
  by (auto simp: dependency_ok_def satisfied_def provided_def Let_def list_ex_iff version_fits_iff split: option.split)

lemma check_dependers:
  assumes "\<forall>e \<in> set es. snd e < length (dependers s)"
  shows "visit_until_false check_depender es (s, ok) =
    Done True (s, ok \<and> (\<forall>e \<in> set es. list_all (dependency_ok (service_map s)) (deps (dependers s ! snd e))))"
  using assms by (induction es arbitrary: ok) (simp_all add: check_depender_def)

lemma name_map_entries:
  assumes "name_map_ok m"
  shows "set (hm_list m) = {e. \<exists>k. hashmap_get m k = Some e}"
  using ran_hashmap_get [of m] assms by (auto simp: name_map_ok_def hashmap_live_def ran_def)

lemma all_dependers:
  assumes "deps_ok s"
  shows "(\<forall>e \<in> set (hm_list (depender_map s)). P (snd e)) \<longleftrightarrow> (\<forall>k i. name_get (depender_map s) k = Some i \<longrightarrow> P i)"
  using name_map_entries [of "depender_map s"] assms by (fastforce simp: deps_ok_def name_get_def)

lemma check_all_wanted:
  assumes "deps_ok s" and "names_distinct s"
  shows "hashmap_foreach (depender_map s) check_depender (s, True) =
    Done True (s, \<forall>k n vs. versions_of (wanted s k) n = Some vs \<longrightarrow> satisfied (provided s n) vs)"
proof -
  let ?ok = "\<lambda>i. list_all (dependency_ok (service_map s)) (deps (dependers s ! i))"
  have "\<forall>e \<in> set (hm_list (depender_map s)). snd e < length (dependers s)"
    unfolding all_dependers [OF assms(1), of "\<lambda>i. i < length (dependers s)"] using assms(1) unfolding deps_ok_def by blast
  then have run: "hashmap_foreach (depender_map s) check_depender (s, True) =
    Done True (s, \<forall>e \<in> set (hm_list (depender_map s)). ?ok (snd e))"
    by (simp add: hashmap_foreach_visit check_dependers)
  have "(\<forall>e \<in> set (hm_list (depender_map s)). ?ok (snd e)) \<longleftrightarrow> (\<forall>k. \<forall>d \<in> set (wanted s k). satisfied (provided s (service_name d)) (service_versions d))"
  proof -
    have "(\<forall>i. name_get (depender_map s) k = Some i \<longrightarrow> ?ok i) \<longleftrightarrow> (\<forall>d \<in> set (wanted s k). satisfied (provided s (service_name d)) (service_versions d))" for k
      by (cases "name_get (depender_map s) k") (simp_all add: wanted_def list_all_iff dependency_ok_satisfied)
    then show ?thesis unfolding all_dependers [OF assms(1), of ?ok] by blast
  qed
  also have "\<dots> \<longleftrightarrow> (\<forall>k n vs. versions_of (wanted s k) n = Some vs \<longrightarrow> satisfied (provided s n) vs)"
  proof -
    have "(\<forall>d \<in> set (wanted s k). satisfied (provided s (service_name d)) (service_versions d))
      \<longleftrightarrow> (\<forall>n vs. versions_of (wanted s k) n = Some vs \<longrightarrow> satisfied (provided s n) vs)" for k
    proof -
      have dist: "distinct (map service_name (wanted s k))" using assms(2) by (simp add: names_distinct_def)
      have "\<lparr>service_name = n, service_versions = vs\<rparr> \<in> set (wanted s k) \<longleftrightarrow> versions_of (wanted s k) n = Some vs" for n vs
        using versions_of_mem [OF dist, of "\<lparr>service_name = n, service_versions = vs\<rparr>"] by simp
      then show ?thesis using versions_of_mem [OF dist] by (metis dependency_t.select_convs(1,2))
    qed
    then show ?thesis by blast
  qed
  finally show ?thesis using run by simp
qed

lemma created_map:
  obtains m :: "'i name_map" where "hashmap_create fst 16 hash_ci_string compare_ci_string_keys True s = Done m s"
    and "name_map_ok m" and "name_get m = (\<lambda>_. None)"
  using hashmap_create_live [OF ci_keys.key_comparison_axioms, of 16 fst True s]
  by (force simp: name_map_ok_def name_get_def)

text \<open>C14: The checks of all packages come back. They succeed exactly if every service is declared by one package only and,
  for every package and every service it depends on, the service is provided and, if the package names versions of it
  in any of its declarations, the version provided is one of them or a refinement of one of them at a dot. Declarations of
  one package for one service are alternatives, and one without a version adds nothing to one with versions.\<close>

theorem dependencies_resolved:
  assumes "\<not> exec_failed s"
  shows "\<exists>s'. execute_all_extended_checks (andthen (run_all dep_step ops) (\<lambda>_. ret ())) s =
      Done (\<not> conflict (first_provider ops) ops
        \<and> (\<forall>k n vs. versions_for ops k n = Some vs \<longrightarrow> satisfied (first_provider ops n) vs)) s'"
proof -
  obtain sm :: "service_t name_map" where sm: "hashmap_create fst 16 hash_ci_string compare_ci_string_keys True s = Done sm s"
    "name_map_ok sm" "name_get sm = (\<lambda>_. None)" using created_map .
  obtain dm :: "nat name_map" where dm: "hashmap_create fst 16 hash_ci_string compare_ci_string_keys True s = Done dm s"
    "name_map_ok dm" "name_get dm = (\<lambda>_. None)" using created_map .
  let ?s = "s\<lparr>service_map := sm, depender_map := dm\<rparr>"
  have s: "deps_ok ?s" "names_distinct ?s" "wanted ?s k = []" "provider_known ?s ops = first_provider ops" "\<not> exec_failed ?s" for k
    using sm dm assms by (simp_all add: deps_ok_def names_distinct_def wanted_def provider_known_def provided_def fun_eq_iff)
  obtain us s' where s': "run_all dep_step ops ?s = Done us s'" "deps_ok s'" "names_distinct s'" "provided s' = first_provider ops"
    "exec_failed s' \<longleftrightarrow> conflict (first_provider ops) ops" "\<forall>k n. versions_of (wanted s' k) n = versions_for ops k n"
    using dep_history [OF s(1,2), of ops] s(3,4,5) by auto
  show ?thesis using sm(1) dm(1) s' check_all_wanted [OF s'(2,3)]
    by (simp add: execute_all_extended_checks_def parse_get_error_def)
qed

definition sample_check :: check_state where
  "sample_check = \<lparr>exec_failed = False, service_map = empty_name_map, depender_map = empty_name_map, dependers = []\<rparr>"

theorem dependencies_resolved_witness:
  "\<exists>s'. execute_all_extended_checks (andthen (run_all dep_step
       [Provides ''base'' ''IMOND'' ''3.6.2'', Depends ''isdn'' ''IMOND'' [''4'', ''3.6'']]) (\<lambda>_. ret ())) sample_check = Done True s'"
proof -
  let ?ops = "[Provides ''base'' ''IMOND'' ''3.6.2'', Depends ''isdn'' ''IMOND'' [''4'', ''3.6'']]"
  have "\<not> exec_failed sample_check" by (simp add: sample_check_def)
  moreover have "\<not> conflict (first_provider ?ops) ?ops" by (auto simp: conflict_def)
  moreover have "satisfied (first_provider ?ops n) vs" if "versions_for ?ops k n = Some vs" for k n vs
    using that by (auto simp: satisfied_def split: if_splits)
  ultimately show ?thesis using dependencies_resolved [of sample_check ?ops] by auto
qed




















definition option_text :: "c_string \<times> c_string \<Rightarrow> c_string" where
  "option_text opt = fst opt @ ''='' @ snd opt"

fun options_text :: "(c_string \<times> c_string) list \<Rightarrow> c_string" where
  "options_text [] = []"
| "options_text [opt] = option_text opt"
| "options_text (opt # opts) = option_text opt @ '' '' @ options_text opts"

definition option_ok :: "c_string \<times> c_string \<Rightarrow> bool" where
  "option_ok opt \<longleftrightarrow> CHR ''='' \<notin> set (fst opt) \<and> CHR '' '' \<notin> set (snd opt) \<and> (\<forall>c. take 1 (fst opt) = [c] \<longrightarrow> \<not> isspace c)"

lemma options_text_start: "option_ok opt \<Longrightarrow> dropWhile isspace (options_text (opt # opts)) = options_text (opt # opts)"
proof -
  have "\<not> isspace (CHR ''='')" by (simp add: isspace_def)
  moreover assume "option_ok opt"
  ultimately show ?thesis by (cases opts; cases "fst opt") (auto simp: option_text_def option_ok_def)
qed

text \<open>C16: The options of a file are read back from their text: a list of names without equals signs that do not start with a
  blank, each with a value without blanks.\<close>

theorem entry_options_roundtrip:
  assumes "list_all option_ok opts"
  shows "parse_entry_options (options_text opts) = opts"
  using assms
proof (induction opts rule: options_text.induct)
  case 1
  then show ?case by (simp add: parse_entry_options.simps)
next
  case (2 opt)
  obtain n v where opt: "opt = (n, v)" by fastforce
  have "strchr v (CHR '' '') = None" "parse_entry_options [] = []"
    using 2 by (simp_all add: opt option_ok_def strchr_None parse_entry_options.simps)
  then show ?case using 2 strchr_append [of "CHR ''=''" n v]
    by (subst parse_entry_options.simps) (simp add: opt option_text_def option_ok_def)
next
  case (3 opt opt' opts)
  have "strchr (snd opt @ '' '' @ options_text (opt' # opts)) (CHR '' '') = Some (snd opt, options_text (opt' # opts))"
    using 3(2) strchr_append [of "CHR '' ''" "snd opt"] by (simp add: option_ok_def)
  moreover have "isspace (CHR '' '')" by (simp add: isspace_def)
  ultimately show ?case
    using 3 strchr_append [of "CHR ''=''" "fst opt" "snd opt @ '' '' @ options_text (opt' # opts)"] options_text_start [of opt' opts]
    by (subst parse_entry_options.simps) (simp add: option_text_def option_ok_def)
qed

theorem entry_options_roundtrip_witness:
  "parse_entry_options ''mode=755 flags=sh uid='' = [(''mode'', ''755''), (''flags'', ''sh''), (''uid'', [])]"
  using entry_options_roundtrip [of "[(''mode'', ''755''), (''flags'', ''sh''), (''uid'', [])]"]
  by (auto simp: option_text_def option_ok_def isspace_def)

end
