(* ===== verification/Script_Net.thy ===== *)
theory Script_Net
  imports C_Strings
begin

unbundle bit_operations_syntax

text \<open>
  The comparison of IPv4 networks by the conditions \<open>samenet\<close> and \<open>subnet\<close> of check scripts: \<open>libmkfli4l/tree.c\<close>.
  The source uses \<open>unsigned long\<close> for addresses, whose width differs between platforms, so that the functions
  are defined for words of any width.
\<close>

section \<open>Addresses and netmasks\<close>

text \<open>The digits of one part; None if the value gets too large.\<close>

fun octet_loop :: "nat \<Rightarrow> c_string \<Rightarrow> (nat \<times> c_string) option" where
  "octet_loop v [] = Some (v, [])"
| "octet_loop v (c # s) =
     (if isdigit c then
        (let v' = v * 10 + digit_value c in if 255 < v' then None else octet_loop v' s)
      else Some (v, c # s))"

text \<open>The loop over the parts, with the number of parts that follow the current one.\<close>

fun aton_loop :: "nat \<Rightarrow> 'w word \<Rightarrow> c_string \<Rightarrow> 'w::len word option" where
  "aton_loop n addr s =
     (if s = [] \<or> \<not> isdigit (hd s) then None
      else
        (case octet_loop 0 s of
           None \<Rightarrow> None
         | Some (v, rest) \<Rightarrow>
             (case n of
                0 \<Rightarrow> if rest \<noteq> [] \<and> \<not> isspace (hd rest) then None else Some (push_bit 8 addr OR of_nat v)
              | Suc m \<Rightarrow>
                  if rest = [] \<or> hd rest \<noteq> CHR ''.'' then None else aton_loop m (push_bit 8 addr OR of_nat v) (tl rest))))"

declare aton_loop.simps [simp del]

definition my_inet_aton :: "c_string \<Rightarrow> 'w::len word option" where
  "my_inet_aton cp = aton_loop 3 0 cp"

text \<open>The loop shifts the word to the left until nothing is left; None if it takes more steps than given.\<close>

fun shift_loop :: "nat \<Rightarrow> nat \<Rightarrow> 'w::len word \<Rightarrow> nat option" where
  "shift_loop fuel bits n =
     (if n = 0 then Some bits
      else (case fuel of 0 \<Rightarrow> None | Suc k \<Rightarrow> shift_loop k (bits + 1) (push_bit 1 n)))"

declare shift_loop.simps [simp del]

definition get_netmask_bits :: "'w::len word \<Rightarrow> nat option" where
  "get_netmask_bits m =
     (let n = NOT m + 1 in
      if m AND n \<noteq> n then Some 0 else shift_loop (LENGTH('w)) 0 n)"

definition get_netmask :: "int \<Rightarrow> 'w::len word" where
  "get_netmask netmask_bits =
     (if 0 < netmask_bits \<and> netmask_bits \<le> 32
      then (NOT (push_bit (nat (32 - netmask_bits)) 1) + 1) AND 0xFFFFFFFF
      else 0)"

section \<open>Networks\<close>

text \<open>The first of the three delimiters that occurs.\<close>

fun split_at_delim :: "char list \<Rightarrow> c_string \<Rightarrow> (c_string \<times> c_string) option" where
  "split_at_delim [] s = None"
| "split_at_delim (d # ds) s = (case strchr s d of Some r \<Rightarrow> Some r | None \<Rightarrow> split_at_delim ds s)"

text \<open>\<open>sscanf(s, "%d", \<dots>)\<close> leaves the value alone if there is no number.\<close>

definition scan_int :: "c_string \<Rightarrow> int \<Rightarrow> int" where
  "scan_int s old = (let (v, rest, _) = strtol 10 s in if rest = s then old else sint (word_of_int v :: u32))"

definition normalize_network :: "c_string \<Rightarrow> ('s, 'w::len word \<times> int) action" where
  "normalize_network network =
     (let (address, nm) =
        (case split_at_delim [CHR ''/'', CHR '':'', CHR '' ''] network of None \<Rightarrow> (network, None) | Some (p, q) \<Rightarrow> (p, Some q)) in
      andthen
        (case nm of
           None \<Rightarrow> ret 32
         | Some t \<Rightarrow>
             if strchr t (CHR ''.'') \<noteq> None then
               (case my_inet_aton t of
                  None \<Rightarrow> raise Fatal_exit
                | Some m \<Rightarrow>
                    (case get_netmask_bits (m :: 'w word) of None \<Rightarrow> raise Out_of_fuel | Some bits \<Rightarrow> ret (int bits)))
             else
               (let bits = scan_int t 32 in if bits < 0 \<or> 32 < bits then raise Fatal_exit else ret bits))
        (\<lambda>bits.
           case my_inet_aton address of
             None \<Rightarrow> raise Fatal_exit
           | Some ip \<Rightarrow> ret (ip AND get_netmask bits, bits)))"

definition same_net :: "'w::len itself \<Rightarrow> c_string \<Rightarrow> c_string \<Rightarrow> ('s, bool) action" where
  "same_net w left_net right_net =
     andthen (normalize_network left_net) (\<lambda>(left_ip :: 'w word, left_bits).
       andthen (normalize_network right_net) (\<lambda>(right_ip :: 'w word, right_bits).
         ret (left_ip = right_ip \<and> left_bits = right_bits)))"

definition sub_net :: "'w::len itself \<Rightarrow> c_string \<Rightarrow> c_string \<Rightarrow> ('s, bool) action" where
  "sub_net w left_net right_net =
     andthen (normalize_network left_net) (\<lambda>(left_ip :: 'w word, left_bits).
       andthen (normalize_network right_net) (\<lambda>(right_ip :: 'w word, right_bits).
         ret (if right_bits \<le> left_bits then left_ip AND get_netmask right_bits = right_ip else False)))"

section \<open>Reading addresses\<close>

definition ip_text :: "nat \<Rightarrow> c_string" where
  "ip_text a = nat_to_dec (a div 2 ^ 24) @ ''.'' @ nat_to_dec (a div 2 ^ 16 mod 256) @ ''.''
     @ nat_to_dec (a div 2 ^ 8 mod 256) @ ''.'' @ nat_to_dec (a mod 256)"

abbreviation value_from :: "nat \<Rightarrow> c_string \<Rightarrow> nat" where
  "value_from \<equiv> foldl (\<lambda>a c. a * 10 + digit_value c)"

lemma value_from_mono: "v \<le> value_from v ds"
proof (induction ds arbitrary: v)
  case (Cons c ds)
  have "v \<le> v * 10 + digit_value c" by simp
  also have "\<dots> \<le> value_from (v * 10 + digit_value c) ds" by (rule Cons.IH)
  finally show ?case by simp
qed simp

lemma octet_loop_digits:
  "list_all isdigit ds \<Longrightarrow> value_from v ds \<le> 255 \<Longrightarrow> octet_loop v (ds @ s) = octet_loop (value_from v ds) s"
proof (induction ds arbitrary: v)
  case (Cons c ds)
  then have "v * 10 + digit_value c \<le> 255" using value_from_mono [of "v * 10 + digit_value c" ds] by simp
  then show ?case using Cons by simp
qed simp

lemma octet_loop_dec:
  assumes "v < 256" and "s = [] \<or> \<not> isdigit (hd s)"
  shows "octet_loop 0 (nat_to_dec v @ s) = Some (v, s)"
proof -
  have "octet_loop v s = Some (v, s)" using assms(2) by (cases s) simp_all
  then show ?thesis using octet_loop_digits [OF nat_to_dec_digits [of v], of 0 s] assms(1) by (simp add: foldl_nat_to_dec)
qed

lemma aton_step:
  assumes "v < 256"
  shows "aton_loop (Suc m) addr (nat_to_dec v @ CHR ''.'' # s) = aton_loop m (push_bit 8 addr OR of_nat v) s"
    and "aton_loop 0 addr (nat_to_dec v) = Some (push_bit 8 addr OR of_nat v)"
proof -
  have dot: "\<not> isdigit (CHR ''.'')" by (simp add: isdigit_def)
  show "aton_loop (Suc m) addr (nat_to_dec v @ CHR ''.'' # s) = aton_loop m (push_bit 8 addr OR of_nat v) s"
    using octet_loop_dec [OF assms, of "CHR ''.'' # s"] dot nat_to_dec_hd [of v] by (subst aton_loop.simps) simp
  show "aton_loop 0 addr (nat_to_dec v) = Some (push_bit 8 addr OR of_nat v)"
    using octet_loop_dec [OF assms, of "[]"] nat_to_dec_hd [of v] by (subst aton_loop.simps) simp
qed

lemma append_octet:
  assumes "v < 256"
  shows "push_bit 8 (of_nat x :: 'w::len word) OR of_nat v = of_nat (x * 256 + v)"
proof -
  have v: "take_bit 8 v = v" using assms by (simp add: take_bit_nat_eq_self)
  have "push_bit 8 (of_nat x :: 'w word) AND of_nat v = 0"
  proof (rule bit_word_eqI)
    fix n
    have "bit v n \<Longrightarrow> n < 8" using v by (metis bit_take_bit_iff)
    then show "bit (push_bit 8 (of_nat x :: 'w word) AND of_nat v) n = bit 0 n"
      by (auto simp: bit_and_iff bit_push_bit_iff bit_of_nat_iff)
  qed
  then have "push_bit 8 (of_nat x :: 'w word) OR of_nat v = push_bit 8 (of_nat x) + of_nat v"
    by (simp add: disjunctive_add_eq_or)
  then show ?thesis by (simp add: push_bit_eq_mult)
qed

lemma my_inet_aton_octets:
  assumes "p < 256" "q < 256" "r < 256" "t < 256"
  shows "my_inet_aton (nat_to_dec p @ ''.'' @ nat_to_dec q @ ''.'' @ nat_to_dec r @ ''.'' @ nat_to_dec t)
    = Some (of_nat (((p * 256 + q) * 256 + r) * 256 + t))"
  unfolding my_inet_aton_def numeral_3_eq_3 append_Cons append_Nil
  by (simp only: aton_step assms push_bit_of_0 or.left_neutral append_octet)

lemma my_inet_aton_text:
  assumes "a < 2 ^ 32"
  shows "my_inet_aton (ip_text a) = Some (of_nat a)"
proof -
  let ?p = "a div 2 ^ 24" and ?q = "a div 2 ^ 16 mod 256" and ?r = "a div 2 ^ 8 mod 256" and ?t = "a mod 256"
  have b: "?p < 256" using assms by (simp add: less_mult_imp_div_less)
  have d: "a div 2 ^ 24 = a div 2 ^ 16 div 256" "a div 2 ^ 16 = a div 2 ^ 8 div 256" "a div 2 ^ 8 = a div 256"
    by (simp_all add: div_mult2_eq [symmetric])
  have "?p * 256 + ?q = a div 2 ^ 16" "a div 2 ^ 16 * 256 + ?r = a div 2 ^ 8" "a div 2 ^ 8 * 256 + ?t = a"
    unfolding d by (rule div_mult_mod_eq)+
  then have "((?p * 256 + ?q) * 256 + ?r) * 256 + ?t = a" by presburger
  then show ?thesis unfolding ip_text_def using my_inet_aton_octets [OF b, of ?q ?r ?t] by simp
qed

section \<open>Netmasks\<close>

text \<open>The netmask of a prefix clears the lower bits of an address, whatever the width of the words.\<close>

definition net_part :: "nat \<Rightarrow> nat \<Rightarrow> nat" where
  "net_part a n = a div 2 ^ (32 - n) * 2 ^ (32 - n)"

lemma net_part_less: "a < 2 ^ 32 \<Longrightarrow> net_part a n < 2 ^ 32"
  unfolding net_part_def using div_times_less_eq_dividend le_less_trans by blast

lemma get_netmask_bit:
  assumes "0 < n" and "n \<le> 32"
  shows "bit (get_netmask (int n) :: 'w::len word) i \<longleftrightarrow> i < LENGTH('w) \<and> 32 - n \<le> i \<and> i < 32"
proof -
  have "nat (32 - int n) = 32 - n" by simp
  then have "(get_netmask (int n) :: 'w word) = (- (2 ^ (32 - n))) AND mask 32"
    using assms by (simp add: get_netmask_def minus_eq_not_plus_1 mask_eq_exp_minus_1)
  then show ?thesis by (auto simp: minus_exp_eq_not_mask bit_simps)
qed

lemma net_part_bit: "bit (net_part a n) i \<longleftrightarrow> 32 - n \<le> i \<and> bit a i"
proof -
  have "net_part a n = push_bit (32 - n) (drop_bit (32 - n) a)" by (simp add: net_part_def push_bit_eq_mult drop_bit_eq_div)
  then show ?thesis by (auto simp: bit_simps)
qed

lemma nat_bit_less: "bit (a :: nat) i \<Longrightarrow> a < 2 ^ n \<Longrightarrow> i < n"
  by (metis bit_take_bit_iff take_bit_nat_eq_self)

lemma apply_netmask:
  assumes "a < 2 ^ 32" and "n \<le> 32"
  shows "of_nat a AND get_netmask (int n) = (of_nat (net_part a n) :: 'w::len word)"
proof (cases "n = 0")
  case True
  then show ?thesis using assms by (simp add: get_netmask_def net_part_def)
next
  case False
  have "bit a i \<Longrightarrow> i < 32" for i using nat_bit_less [of a i 32] assms(1) by simp
  then show ?thesis
    by (intro bit_word_eqI) (use False assms(2) in \<open>auto simp: bit_and_iff bit_of_nat_iff get_netmask_bit net_part_bit\<close>)
qed

section \<open>Networks with a prefix length\<close>

definition net_text :: "nat \<Rightarrow> nat \<Rightarrow> c_string" where
  "net_text a n = ip_text a @ ''/'' @ nat_to_dec n"

text \<open>The addresses of a network.\<close>

definition network :: "nat \<Rightarrow> nat \<Rightarrow> nat set" where
  "network a n = {x. x < 2 ^ 32 \<and> x div 2 ^ (32 - n) = a div 2 ^ (32 - n)}"

lemma ip_text_chars: "set (ip_text a) \<subseteq> {c. isdigit c \<or> c = CHR ''.''}"
  using nat_to_dec_digits by (auto simp: ip_text_def list_all_iff)

lemma ip_text_dot: "CHR ''.'' \<in> set (ip_text a)"
  by (simp add: ip_text_def)

lemma nat_to_dec_no_dot: "CHR ''.'' \<notin> set (nat_to_dec n)"
  using nat_to_dec_digits [of n] by (auto simp: list_all_iff isdigit_def)

lemma split_at_slash: "split_at_delim (CHR ''/'' # ds) (ip_text a @ ''/'' @ t) = Some (ip_text a, t)"
proof -
  have "CHR ''/'' \<notin> set (ip_text a)" using ip_text_chars [of a] by (auto simp: isdigit_def)
  then show ?thesis by (simp add: strchr_append)
qed

lemma scan_int_dec: "n \<le> 32 \<Longrightarrow> scan_int (nat_to_dec n) old = int n"
  using strtol_nat_to_dec [of n "[]"]
  by (simp add: scan_int_def long_max_def not_sym [OF nat_to_dec_not_Nil] signed_of_nat signed_take_bit_int_eq_self)

lemma normalize_prefix:
  assumes "a < 2 ^ 32" and "n \<le> 32"
  shows "normalize_network (net_text a n) = ret (of_nat (net_part a n), int n)"
proof -
  have "strchr (nat_to_dec n) (CHR ''.'') = None" by (simp add: strchr_None nat_to_dec_no_dot)
  then show ?thesis
    unfolding normalize_network_def net_text_def split_at_slash
    using assms(2) by (intro ext) (simp add: scan_int_dec my_inet_aton_text [OF assms(1)] apply_netmask [OF assms])
qed

lemma network_interval:
  assumes "a < 2 ^ 32" and "n \<le> 32"
  shows "network a n = {net_part a n ..< net_part a n + 2 ^ (32 - n)}"
proof -
  let ?J = "2 ^ (32 - n) :: nat"
  have J: "x div ?J = a div ?J \<longleftrightarrow> net_part a n \<le> x \<and> x < net_part a n + ?J" for x
    unfolding net_part_def by (auto simp: div_nat_eqI dividend_less_times_div algebra_simps)
      (metis div_times_less_eq_dividend mult.commute, metis dividend_less_div_times mult.commute add.commute zero_less_numeral zero_less_power)
  have "x < 2 ^ 32" if "x div ?J = a div ?J" for x
  proof -
    have "a div ?J < 2 ^ n" using assms by (simp add: less_mult_imp_div_less power_add [symmetric])
    then show ?thesis using that assms(2) by (metis div_less_iff_less_mult le_add_diff_inverse power_add zero_less_numeral zero_less_power)
  qed
  then show ?thesis by (auto simp: network_def J)
qed

lemma div_coarser: "m \<le> n \<Longrightarrow> n \<le> 32 \<Longrightarrow> (x :: nat) div 2 ^ (32 - m) = x div 2 ^ (32 - n) div 2 ^ (n - m)"
  by (simp add: div_mult2_eq [symmetric] power_add [symmetric])

lemma sub_network_iff:
  assumes "a < 2 ^ 32" "b < 2 ^ 32" "n \<le> 32" "m \<le> 32"
  shows "m \<le> n \<and> net_part (net_part a n) m = net_part b m \<longleftrightarrow> network a n \<subseteq> network b m"
proof -
  have "m \<le> n" if "network a n \<subseteq> network b m"
  proof -
    have "card (network a n) \<le> card (network b m)" using that assms by (intro card_mono) (simp_all add: network_interval)
    then show ?thesis using assms by (simp add: network_interval)
  qed
  moreover have "net_part (net_part a n) m = net_part b m \<longleftrightarrow> network a n \<subseteq> network b m" if "m \<le> n"
  proof -
    have "net_part (net_part a n) m = net_part b m \<longleftrightarrow> a div 2 ^ (32 - m) = b div 2 ^ (32 - m)"
      using that assms by (simp add: net_part_def [of _ m] div_coarser [of m n]) (simp add: net_part_def)
    moreover have "a \<in> network a n" using assms by (simp add: network_def)
    ultimately show ?thesis using div_coarser [OF that assms(3)] by (auto simp: network_def)
  qed
  ultimately show ?thesis by blast
qed

lemma of_nat_word_inj:
  assumes "x < 2 ^ 32" "y < 2 ^ 32" "32 \<le> LENGTH('w::len)"
  shows "(of_nat x :: 'w word) = of_nat y \<longleftrightarrow> x = y"
proof -
  have "z < 2 ^ LENGTH('w)" if "z < 2 ^ 32" for z :: nat
    using that assms(3) by (meson less_le_trans one_le_numeral power_increasing)
  then show ?thesis using assms by (simp only: word_of_nat_eq_iff take_bit_nat_eq_self)
qed

section \<open>Netmasks in dotted notation\<close>

definition mask_value :: "nat \<Rightarrow> nat" where
  "mask_value n = 2 ^ 32 - 2 ^ (32 - n)"

lemma shift_loop_exp:
  "LENGTH('w) - j \<le> fuel \<Longrightarrow> shift_loop fuel b (2 ^ j :: 'w::len word) = Some (b + (LENGTH('w) - j))"
proof (induction fuel arbitrary: b j)
  case 0
  then have "(2 ^ j :: 'w word) = 0" by simp
  then show ?case using 0 by (simp add: shift_loop.simps [of _ _ "2 ^ j"])
next
  case (Suc k)
  show ?case
  proof (cases "j < LENGTH('w)")
    case True
    then have "(2 ^ j :: 'w word) \<noteq> 0" by simp
    moreover have "push_bit 1 (2 ^ j :: 'w word) = 2 ^ Suc j" by (simp add: push_bit_eq_mult)
    moreover have "LENGTH('w) - j = Suc (LENGTH('w) - Suc j)" using True by simp
    ultimately show ?thesis using Suc.IH [of "Suc j" "b + 1"] Suc.prems
      by (subst shift_loop.simps) (simp del: power_Suc)
  next
    case False
    then have "(2 ^ j :: 'w word) = 0" by simp
    then show ?thesis using False by (simp add: shift_loop.simps [of _ _ "2 ^ j"])
  qed
qed

lemma get_netmask_bits_32:
  assumes "n \<le> 32"
  shows "get_netmask_bits (of_nat (mask_value n) :: 32 word) = Some n"
proof -
  let ?e = "2 ^ (32 - n) :: 32 word"
  have "(2 :: nat) ^ (32 - n) \<le> 2 ^ 32" by (rule power_increasing) simp_all
  then have "(of_nat (mask_value n) :: 32 word) = of_nat (2 ^ 32) - of_nat (2 ^ (32 - n))"
    unfolding mask_value_def by (rule of_nat_diff)
  then have m: "(of_nat (mask_value n) :: 32 word) = - ?e" by simp
  have "(- ?e) AND ?e = ?e" by (rule bit_word_eqI) (auto simp: minus_exp_eq_not_mask bit_simps)
  moreover have "NOT (- ?e) + 1 = ?e" by (simp add: minus_eq_not_plus_1 [symmetric])
  ultimately show ?thesis
    using shift_loop_exp [where ?'w = 32, of "32 - n" 32 0] assms by (simp add: get_netmask_bits_def m)
qed

lemma get_netmask_bits_wide:
  assumes "32 < LENGTH('w)" and "x < 2 ^ 32"
  shows "get_netmask_bits (of_nat x :: 'w::len word) = Some 0"
proof (cases "x = 0")
  case True
  then show ?thesis by (simp add: get_netmask_bits_def shift_loop.simps)
next
  case False
  have low: "\<not> bit y 32" if "y < 2 ^ 32" for y :: nat using nat_bit_less [OF _ that] by blast
  have "NOT (of_nat x :: 'w word) + 1 = NOT (of_nat (x - 1))"
    using False by (simp add: minus_eq_not_plus_1 [symmetric] not_eq_complement of_nat_diff)
  moreover have "x - 1 < 2 ^ 32" using assms(2) by simp
  ultimately have "bit (NOT (of_nat x :: 'w word) + 1) 32"
    using assms(1) low by (simp add: bit_simps)
  moreover have "\<not> bit (of_nat x :: 'w word) 32" using low [OF assms(2)] by (simp add: bit_simps)
  ultimately have "of_nat x AND (NOT (of_nat x :: 'w word) + 1) \<noteq> NOT (of_nat x) + 1"
    by (metis bit_and_iff)
  then show ?thesis by (simp add: get_netmask_bits_def)
qed

lemma normalize_dotted:
  assumes "a < 2 ^ 32" "m < 2 ^ 32" and "get_netmask_bits (of_nat m :: 'w::len word) = Some n" "n \<le> 32"
  shows "normalize_network (ip_text a @ ''/'' @ ip_text m) = ret (of_nat (net_part a n) :: 'w word, int n)"
proof -
  have "strchr (ip_text m) (CHR ''.'') \<noteq> None" using ip_text_dot by (simp add: strchr_None)
  then show ?thesis
    unfolding normalize_network_def split_at_slash
    by (intro ext) (simp add: my_inet_aton_text [OF assms(1)] my_inet_aton_text [OF assms(2)] assms(3)
        apply_netmask [OF assms(1,4)])
qed

lemma mask_value_less: "mask_value n < 2 ^ 32"
  unfolding mask_value_def by (rule diff_less) simp_all

section \<open>The conditions\<close>

text \<open>C17: The conditions \<open>samenet\<close> and \<open>subnet\<close> on networks written as an address and a prefix length decide
  equality and inclusion of the sets of addresses of the two networks, for words of any width of at least 32.\<close>

theorem network_conditions:
  assumes "a < 2 ^ 32" "b < 2 ^ 32" "n \<le> 32" "m \<le> 32" and "32 \<le> LENGTH('w::len)"
  shows "same_net TYPE('w) (net_text a n) (net_text b m) = ret (network a n = network b m)
    \<and> sub_net TYPE('w) (net_text a n) (net_text b m) = ret (network a n \<subseteq> network b m)"
proof -
  let ?w = "\<lambda>x. of_nat x :: 'w word"
  note sub = sub_network_iff [OF assms(1-4)] sub_network_iff [OF assms(2,1,4,3)]
  have idem: "net_part (net_part c i) i = net_part c i" for c i by (simp add: net_part_def)
  have same: "network a n = network b m \<longleftrightarrow> net_part a n = net_part b m \<and> n = m"
    using sub idem by (metis eq_iff)
  have eqs: "?w (net_part a n) = ?w (net_part b m) \<longleftrightarrow> net_part a n = net_part b m"
    "?w (net_part (net_part a n) m) = ?w (net_part b m) \<longleftrightarrow> net_part (net_part a n) m = net_part b m"
    by (simp_all only: of_nat_word_inj net_part_less assms)
  have msk: "?w (net_part a n) AND get_netmask (int m) = ?w (net_part (net_part a n) m)"
    using assms by (intro apply_netmask net_part_less)
  show ?thesis
    unfolding same_net_def sub_net_def normalize_prefix [OF assms(1,3)] normalize_prefix [OF assms(2,4)] andthen_ret
      prod.case msk eqs same sub(1) [symmetric]
    by simp
qed

theorem network_conditions_witness:
  "same_net TYPE(64) (net_text 3232235777 24) (net_text 3232235778 24) = ret (network 3232235777 24 = network 3232235778 24)
    \<and> sub_net TYPE(64) (net_text 3232235777 24) (net_text 3232235778 24)
      = ret (network 3232235777 24 \<subseteq> network 3232235778 24)"
  by (rule network_conditions) simp_all

text \<open>C18: With a netmask in dotted notation, a network is the same as with the prefix length of the netmask if
  addresses are 32 bits wide. With wider words, as where \<open>unsigned long\<close> has 64 bits, every netmask counts
  as the empty prefix, and \<open>samenet\<close> holds between any two networks.\<close>

theorem dotted_netmasks:
  assumes "a < 2 ^ 32" "b < 2 ^ 32" "n \<le> 32" "m < 2 ^ 32" "k < 2 ^ 32" and "32 < LENGTH('w::len)"
  shows "normalize_network (ip_text a @ ''/'' @ ip_text (mask_value n)) = (normalize_network (net_text a n) :: ('s, 32 word \<times> int) action)
    \<and> same_net TYPE('w) (ip_text a @ ''/'' @ ip_text m) (ip_text b @ ''/'' @ ip_text k) = ret True"
proof
  show "normalize_network (ip_text a @ ''/'' @ ip_text (mask_value n)) = (normalize_network (net_text a n) :: ('s, 32 word \<times> int) action)"
    by (simp only: normalize_dotted [OF assms(1) mask_value_less get_netmask_bits_32] normalize_prefix assms(1,3))
  have zero: "normalize_network (ip_text a @ ''/'' @ ip_text m) = ret (0 :: 'w word, 0)" if "a < 2 ^ 32" "m < 2 ^ 32" for a m
  proof -
    have "net_part a 0 = 0" using that by (simp add: net_part_def)
    then show ?thesis using normalize_dotted [OF that get_netmask_bits_wide [OF assms(6) that(2)]] by simp
  qed
  show "same_net TYPE('w) (ip_text a @ ''/'' @ ip_text m) (ip_text b @ ''/'' @ ip_text k) = ret True"
    unfolding same_net_def zero [OF assms(1,4)] zero [OF assms(2,5)] andthen_ret prod.case by simp
qed

theorem dotted_netmasks_witness:
  "normalize_network (ip_text 3232235777 @ ''/'' @ ip_text (mask_value 24))
      = (normalize_network (net_text 3232235777 24) :: (unit, 32 word \<times> int) action)
    \<and> same_net TYPE(64) (ip_text 3232235777 @ ''/'' @ ip_text 4294967040) (ip_text 167772161 @ ''/'' @ ip_text 4278190080)
      = ret True"
  by (rule dotted_netmasks) simp_all

end
