(* ===== verification/Spec2Isabelle.thy ===== *)
theory Spec2Isabelle
  imports Dyn_Array Hash_Map C_Strings Quoted_Text Expr_Syntax Expr_Check Expr_Eval Var_Value Var_Part Var_Slot
    Var_Store Var_Condition Var_Access Array_Growth Name_Registry Package Type_Regex Type_Expansion Type_System
    Type_Compile Var_Scope Var_Define Var_Template Var_Add Net_Calc Net_Program Check_Deps Script_Net
begin

text \<open>
  Verification of the core of \<open>mkfli4l\<close>, the program that turns the configuration of a fli4l router and the
  packages it is made of into boot media. Paths below are relative to
  \<open>src/src/packages/src/src/fli4l/base/mkfli4l-tools\<close>.

  \<^bold>\<open>The program.\<close> Packages declare variable types (regular expressions with references to other types), variables
  (typed, with conditions and default values that are expressions over other variables) and check scripts. The
  configuration assigns values to variables. \<open>mkfli4l\<close> reads all of them, evaluates conditions, checks every
  value against the type of its variable and writes what the boot media need. The state lives in the
  packages (\<open>package/\<close>), the variable types (\<open>vartype/\<close>), and the scopes, templates, variables and the trees of
  slots that hold their values (\<open>var/\<close>); expressions (\<open>expression/\<close>) read variables and are read by them, types
  have extensions guarded by expressions, and all of them are kept in hash maps (\<open>container/\<close>) and dynamic
  arrays (\<open>libmkfli4l/array.c\<close>).

  \<^bold>\<open>The model.\<close> C functions are actions: functions from a state to an outcome, which is a result with the state
  after the call or a failure (a failed assertion, an access through an invalid pointer, a fatal exit, exhausted
  fuel); \<open>Mk_Prelude\<close> has their composition and the weakest preconditions of the basic ones. Objects that the code shares by
  pointers have identifiers and live in maps of the state; records that extend one another collect the state of
  the components, so that the functions of a component run unchanged on the state of its clients. Strings are character lists, an
  \<open>unsigned\<close> is a 32-bit word. Messages for the log are left out, and so is the release of memory.
  The model is that of a build with \<open>DEBUG\<close>, in which a failed \<open>my_assert\<close> ends the program; in the builds the script
  \<open>mkmkfli4l.sh\<close> makes by default assertions are empty, so that a run without a failed assertion is the same there and
  what follows a failed one is not described.

  \<^item> \<open>Dyn_Array\<close>: \<open>libmkfli4l/array.c\<close>. The growing array refines a list.
  \<^item> \<open>Hash_Map\<close>: \<open>container/\<close>. The hash map with its buckets, free cells and key functions refines a finite map;
    iteration visits every entry once. \<open>Name_Registry\<close> has the contract of components that find or add objects by
    name, which packages and variable types satisfy.
  \<^item> \<open>C_Strings\<close>, \<open>Quoted_Text\<close>: \<open>libmkfli4l/str.c\<close> and \<open>grammar/common.c\<close>, the texts the scanners hand on.
  \<^item> \<open>Expr_Syntax\<close>, \<open>Expr_Check\<close>, \<open>Expr_Eval\<close>: \<open>expression/\<close>. The type checker decides the typing rules, the
    referencer is a sequence of look-ups, and what the checker accepts is evaluated to the value a description without
    assertions gives, of its type, whatever the variables and types do. The functions of variables and types that expressions call are a record of actions.
  \<^item> \<open>Var_Value\<close>, \<open>Var_Part\<close>, \<open>Var_Slot\<close>, \<open>Var_Store\<close>, \<open>Var_Condition\<close>, \<open>Var_Access\<close>, \<open>Array_Growth\<close>: \<open>var/value.c\<close>,
    \<open>part.c\<close>, \<open>slot.c\<close>, \<open>iter.c\<close>, \<open>props.c\<close>, \<open>inst.c\<close>, \<open>slot_read.c\<close>, \<open>slot_write.c\<close>, \<open>slot_check.c\<close>, \<open>wrapper.c\<close> and
    the conditions of \<open>core.c\<close>. Names are read back from their printed form; a scalar variable is a cell with a
    priority; arrays grow together with their bounds; the condition of a bound is that of its arrays.
  \<^item> \<open>Package\<close>: \<open>package/\<close>, with its invariant.
  \<^item> \<open>Type_Regex\<close>, \<open>Type_Expansion\<close>, \<open>Type_System\<close>, \<open>Type_Compile\<close>: \<open>vartype/\<close>. References between types are
    expanded with exact detection of cycles; definitions keep the type store well-formed; matching a value is
    matching the expansion. The library of regular expressions is the record \<open>regex_lib\<close>.
  \<^item> \<open>Var_Scope\<close>, \<open>Var_Define\<close>, \<open>Var_Template\<close>, \<open>Var_Add\<close>: \<open>var/scope.c\<close>, the rest of \<open>core.c\<close>, \<open>template.c\<close>,
    \<open>initfini.c\<close>. Names mean the nearest member; adding an array adds its bounds and keeps the invariant that
    links variables, bounds and scopes, from which the invariant of \<open>Array_Growth\<close> follows.
  \<^item> \<open>Check_Deps\<close>: \<open>libmkfli4l/parse.c\<close>, what check scripts declare: services, dependencies and versions. The final
    check is shown to succeed exactly if every dependency is satisfied.
  \<^item> \<open>Script_Net\<close>: the conditions \<open>samenet\<close> and \<open>subnet\<close> of \<open>libmkfli4l/tree.c\<close>, for words of any width, since the
    width of \<open>unsigned long\<close> decides whether netmasks in dotted notation are understood.
  \<^item> \<open>Net_Calc\<close>, \<open>Net_Program\<close>: \<open>../netcalc.c\<close>, the address calculator that packages run on the router. Its loops
    over bytes and masks compute the operations on sequences of bits; the main program has a defined result for every
    command line but two kinds. The C library's \<open>inet_pton\<close> and \<open>inet_ntop\<close> are the record \<open>inet_functions\<close>.

  \<^bold>\<open>Bounds and fuel.\<close> Recursion that follows the program's data takes the number of nested calls as an argument and
  fails with \<open>Out_of_fuel\<close> beyond it; the theorems say which number is enough: the number of levels for growing
  arrays, more than the number of defined types for their expansion, the number of placeholders of a name plus
  one for adding a variable. Searching scopes is bounded by the number of scopes, iteration over slots by the
  number of slots. The buffer loop of \<open>safe_sprintf\<close>, the iterator and the values of \<open>convertCIDRToDNSRev\<close> are partial functions, so that not coming
  back is a value.

  \<^bold>\<open>Not modelled.\<close> The rest of the interpreter of check scripts, scanners and parsers generated by flex and bison and
  the actions of their grammars, logging, options and files, archives and
  compression, boot images, kernel modules and the reader of ELF files, which are input and output or wrappers of
  libraries, and the main program, which calls the parts in order.
\<close>

end
